(* ===== verification/Prelude.thy ===== *)
theory Prelude
  imports Main "HOL-Library.Word" "HOL-Library.Code_Target_Numeral"
begin

section \<open>Types and lemmas shared by every component\<close>

text \<open>
  What the components have in common: Go's result convention, decimal printing
  (the verb \<open>%d\<close> of \<open>fmt.Sprintf\<close> and \<open>strconv\<close>), substring search
  (\<open>strings.Contains\<close>, \<open>strings.HasPrefix\<close>), the machine integers, and the
  collections of rewrite rules the component theories extend.

  A Go string is a sequence of bytes and a \<open>char\<close> of HOL is a byte, so a Go string is
  a \<open>string\<close>. A Go function that returns \<open>(T, error)\<close> is modelled by a function
  into \<open>error + T\<close>: \<open>Inl e\<close> where the code returns a non-nil error whose
  \<open>Error()\<close> is the string \<open>e\<close>, \<open>Inr x\<close> where it returns \<open>x, nil\<close>. A function
  that returns only an \<open>error\<close> is modelled by \<open>error option\<close>, \<open>None\<close> being nil.
\<close>

type_synonym error = string

text \<open>
  Go's \<open>uint\<close> and \<open>int64\<close> are both 64 bits wide on the platforms the services are
  built for (the Dockerfiles build for amd64). Both are \<open>64 word\<close>; \<open>uint x\<close> reads
  one as the unsigned value and \<open>sint x\<close> as the two's complement one. Go's
  conversions between the two types keep the bits.
\<close>

type_synonym uint64 = "64 word"
type_synonym int64 = "64 word"

text \<open>Times are nanoseconds since the epoch; durations are nanoseconds.\<close>

type_synonym time = int

definition second :: int where
  "second = 1000000000"

definition minute :: int where
  "minute = 60 * second"

text \<open>
  Rules that unfold the operations on the stored tables, and rules that unfold the
  handlers: the component theories add theirs.
\<close>

named_theorems table_simps
named_theorems handler_defs

subsection \<open>Decimal printing and reading\<close>

definition digit_char :: "nat \<Rightarrow> char" where
  "digit_char d = char_of (48 + d)"

fun show_nat :: "nat \<Rightarrow> string" where
  "show_nat n = (if n < 10 then [digit_char n]
                 else show_nat (n div 10) @ [digit_char (n mod 10)])"

declare show_nat.simps [simp del]

definition show_int :: "int \<Rightarrow> string" where
  "show_int i = (if i < 0 then CHR ''-'' # show_nat (nat (- i)) else show_nat (nat i))"

definition is_digit :: "char \<Rightarrow> bool" where
  "is_digit c \<longleftrightarrow> 48 \<le> (of_char c :: nat) \<and> (of_char c :: nat) \<le> 57"

definition digit_val :: "char \<Rightarrow> nat" where
  "digit_val c = of_char c - 48"

definition read_digits :: "string \<Rightarrow> nat" where
  "read_digits s = foldl (\<lambda>n c. 10 * n + digit_val c) 0 s"

lemma digit_char_digit: "d < 10 \<Longrightarrow> is_digit (digit_char d)"
  by (simp add: is_digit_def digit_char_def)

lemma digit_val_char: "d < 10 \<Longrightarrow> digit_val (digit_char d) = d"
  by (simp add: digit_val_def digit_char_def)

lemma show_nat_digits: "\<forall>c \<in> set (show_nat n). is_digit c"
proof (induction n rule: show_nat.induct)
  case (1 n)
  show ?case
  proof (cases "n < 10")
    case True
    then show ?thesis by (subst show_nat.simps) (simp add: digit_char_digit)
  next
    case False
    with 1 have "\<forall>c \<in> set (show_nat (n div 10)). is_digit c" by simp
    with False show ?thesis by (subst show_nat.simps) (auto simp: digit_char_digit)
  qed
qed

lemma read_show_nat: "read_digits (show_nat n) = n"
proof (induction n rule: show_nat.induct)
  case (1 n)
  show ?case
  proof (cases "n < 10")
    case True
    then show ?thesis
      by (subst show_nat.simps) (simp add: read_digits_def digit_val_char)
  next
    case False
    with 1 have "read_digits (show_nat (n div 10)) = n div 10" by simp
    with False show ?thesis
      by (subst show_nat.simps) (simp add: read_digits_def digit_val_char)
  qed
qed

lemma show_nat_inject [simp]: "show_nat m = show_nat n \<longleftrightarrow> m = n"
  by (metis read_show_nat)

lemma show_nat_not_Nil [simp]: "show_nat n \<noteq> []" "[] \<noteq> show_nat n"
  by (subst show_nat.simps, simp)+

lemma show_nat_hd_digit: "is_digit (hd (show_nat n))"
  using show_nat_digits hd_in_set [OF show_nat_not_Nil(1)] by blast

lemma minus_not_digit: "\<not> is_digit (CHR ''-'')"
  by (simp add: is_digit_def)

lemma show_int_inject [simp]: "show_int i = show_int j \<longleftrightarrow> i = j"
proof -
  have "show_nat n \<noteq> CHR ''-'' # s" for n s
    using show_nat_hd_digit [of n] minus_not_digit by auto
  then show ?thesis
    by (auto simp: show_int_def dest: sym)
qed

subsection \<open>Substring search\<close>

fun has_prefix :: "string \<Rightarrow> string \<Rightarrow> bool" where
  "has_prefix s [] = True"
| "has_prefix [] (p # ps) = False"
| "has_prefix (c # cs) (p # ps) = (c = p \<and> has_prefix cs ps)"

fun contains :: "string \<Rightarrow> string \<Rightarrow> bool" where
  "contains [] p = (p = [])"
| "contains (c # cs) p = (has_prefix (c # cs) p \<or> contains cs p)"

lemma has_prefix_iff: "has_prefix s p \<longleftrightarrow> (\<exists>t. s = p @ t)"
  by (induction s p rule: has_prefix.induct) auto

lemma contains_iff: "contains s p \<longleftrightarrow> (\<exists>u v. s = u @ p @ v)"
proof (induction s)
  case Nil
  then show ?case by auto
next
  case (Cons c cs)
  show ?case
  proof
    assume "contains (c # cs) p"
    then consider t where "c # cs = p @ t" | u v where "cs = u @ p @ v"
      using Cons.IH by (auto simp: has_prefix_iff)
    then show "\<exists>u v. c # cs = u @ p @ v"
    proof cases
      case 1
      then show ?thesis by (metis append_Nil)
    next
      case 2
      then show ?thesis by (metis append_Cons)
    qed
  next
    assume "\<exists>u v. c # cs = u @ p @ v"
    then obtain u v where "c # cs = u @ p @ v" by blast
    then have "has_prefix (c # cs) p \<or> contains cs p"
      using Cons.IH by (cases u) (auto simp: has_prefix_iff)
    then show "contains (c # cs) p" by simp
  qed
qed

lemma contains_skip:
  "p \<noteq> [] \<Longrightarrow> hd p \<notin> set u \<Longrightarrow> contains (u @ s) p = contains s p"
proof (induction u)
  case Nil
  then show ?case by simp
next
  case (Cons c u)
  then have "\<not> has_prefix (c # u @ s) p"
    by (cases p) auto
  with Cons show ?case by simp
qed

subsection \<open>Lists and options\<close>

lemma map_option_append_Nil [simp]: "map_option ((@) []) x = x"
  by (cases x) auto

lemma map_option_append_append:
  "map_option ((@) xs) (map_option ((@) ys) z) = map_option ((@) (xs @ ys)) z"
  by (cases z) auto

lemma map_option_Cons_append:
  "map_option ((#) x) (map_option ((@) ys) z) = map_option ((@) (x # ys)) z"
  by (cases z) auto

lemma map_of_filter_other: "k \<noteq> j \<Longrightarrow> map_of (filter (\<lambda>(i, _). i \<noteq> j) xs) k = map_of xs k"
  by (induction xs) auto

lemma map_of_map_snd: "map_of (map (\<lambda>(i, r). (i, f i r)) xs) k = map_option (f k) (map_of xs k)"
  by (induction xs) auto

end
