(* ===== verification/GoFloat.thy ===== *)
theory GoFloat
  imports Prelude
begin

section \<open>Go's float64: rounding, parsing and printing\<close>

text \<open>
  Numbers of a JSON document reach the step runners as \<open>float64\<close> values. The runners
  compare them, multiply them and print them, so the model keeps IEEE-754 binary64:
  \<open>Fin neg m e\<close> is the finite number \<open>m * 2 ^ e\<close>, negated if \<open>neg\<close>, with
  \<open>m < 2 ^ 53\<close> and \<open>-1074 \<le> e \<le> 971\<close>. The functions below are the operations of
  Go's language and of \<open>strconv\<close> that the runners use:
  \<^item> \<open>round_f64\<close>: rounding of a positive rational to nearest, ties to even;
  \<^item> \<open>f64_less\<close>, \<open>f64_mult\<close>, \<open>f64_to_int64\<close>: the operators \<open><\<close> and \<open>*\<close> and the
    conversion \<open>int64(x)\<close>, which truncates and yields the value with only the sign bit
    set where the truncated value does not fit (the amd64 instruction's result; the
    language leaves it open);
  \<^item> \<open>parse_float\<close>: \<open>strconv.ParseFloat(s, 64)\<close>, with the decimal, hexadecimal and
    special forms, and underscores between digits;
  \<^item> \<open>fmt_g\<close>: the verb \<open>%v\<close> (\<open>strconv\<close>'s format g, shortest); \<open>json_float\<close>: the
    format of \<open>json.Marshal\<close>.
\<close>

datatype f64 = NaN | Inf bool | Fin bool nat int

subsection \<open>Rounding\<close>

fun bitlen :: "nat \<Rightarrow> nat" where
  "bitlen n = (if n = 0 then 0 else Suc (bitlen (n div 2)))"

declare bitlen.simps [simp del]

text \<open>The fraction \<open>num / (den * 2 ^ e)\<close>, as a numerator and a denominator.\<close>

definition scaled :: "nat \<Rightarrow> nat \<Rightarrow> int \<Rightarrow> nat \<times> nat" where
  "scaled num den e = (if e \<ge> 0 then (num, den * 2 ^ nat e) else (num * 2 ^ nat (- e), den))"

definition round_half_even :: "nat \<Rightarrow> nat \<Rightarrow> nat" where
  "round_half_even n d =
     (let q = n div d; r = n mod d
      in if 2 * r < d \<or> (2 * r = d \<and> even q) then q else q + 1)"

definition f64_zero :: "bool \<Rightarrow> f64" where
  "f64_zero neg = Fin neg 0 (-1074)"

definition round_f64 :: "bool \<Rightarrow> nat \<Rightarrow> nat \<Rightarrow> f64" where
  "round_f64 neg num den =
     (if num = 0 then f64_zero neg
      else let e0 = max (-1074) (int (bitlen num) - int (bitlen den) - 53);
               (n0, d0) = scaled num den e0;
               e1 = (if n0 div d0 \<ge> 2 ^ 53 then e0 + 1 else e0);
               (n1, d1) = scaled num den e1;
               m = round_half_even n1 d1;
               (m', e') = (if m = 2 ^ 53 then (2 ^ 52, e1 + 1) else (m, e1))
           in if e' > 971 then Inf neg else Fin neg m' e')"

text \<open>The exact value \<open>m * 2 ^ e\<close> as a fraction.\<close>

definition frac_of :: "nat \<Rightarrow> int \<Rightarrow> nat \<times> nat" where
  "frac_of m e = (if e \<ge> 0 then (m * 2 ^ nat e, 1) else (m, 2 ^ nat (- e)))"

subsection \<open>Operators\<close>

text \<open>The value of a finite number in units of \<open>2 ^ -1074\<close>.\<close>

definition ulps :: "bool \<Rightarrow> nat \<Rightarrow> int \<Rightarrow> int" where
  "ulps neg m e = (if neg then -1 else 1) * int m * 2 ^ nat (e + 1074)"

fun f64_less :: "f64 \<Rightarrow> f64 \<Rightarrow> bool" where
  "f64_less NaN _ = False"
| "f64_less _ NaN = False"
| "f64_less (Inf s) (Inf t) = (s \<and> \<not> t)"
| "f64_less (Inf s) (Fin _ _ _) = s"
| "f64_less (Fin _ _ _) (Inf t) = (\<not> t)"
| "f64_less (Fin s m e) (Fin t n f) = (ulps s m e < ulps t n f)"

fun f64_mult :: "f64 \<Rightarrow> f64 \<Rightarrow> f64" where
  "f64_mult NaN _ = NaN"
| "f64_mult _ NaN = NaN"
| "f64_mult (Inf s) (Inf t) = Inf (s \<noteq> t)"
| "f64_mult (Inf s) (Fin t n f) = (if n = 0 then NaN else Inf (s \<noteq> t))"
| "f64_mult (Fin s m e) (Inf t) = (if m = 0 then NaN else Inf (s \<noteq> t))"
| "f64_mult (Fin s m e) (Fin t n f) =
     (case frac_of (m * n) (e + f) of (num, den) \<Rightarrow> round_f64 (s \<noteq> t) num den)"

definition f64_of_nat :: "nat \<Rightarrow> f64" where
  "f64_of_nat n = round_f64 False n 1"

definition int64_indefinite :: int where
  "int64_indefinite = - (2 ^ 63)"

fun f64_to_int64 :: "f64 \<Rightarrow> int" where
  "f64_to_int64 (Fin s m e) =
     (case frac_of m e of (num, den) \<Rightarrow>
        let t = (if s then -1 else 1) * int (num div den)
        in if - (2 ^ 63) \<le> t \<and> t < 2 ^ 63 then t else int64_indefinite)"
| "f64_to_int64 _ = int64_indefinite"

subsection \<open>strconv.ParseFloat\<close>

definition to_lower :: "char \<Rightarrow> char" where
  "to_lower c = (if 65 \<le> (of_char c :: nat) \<and> (of_char c :: nat) \<le> 90
                 then char_of ((of_char c :: nat) + 32) else c)"

definition hex_val :: "char \<Rightarrow> nat option" where
  "hex_val c = (let n = of_char (to_lower c) :: nat in
     if 48 \<le> n \<and> n \<le> 57 then Some (n - 48)
     else if 97 \<le> n \<and> n \<le> 102 then Some (n - 87) else None)"

definition mant_digit :: "bool \<Rightarrow> char \<Rightarrow> nat option" where
  "mant_digit hex c = (if is_digit c then Some (digit_val c) else if hex then hex_val c else None)"

text \<open>
  The mantissa loop of \<open>readFloat\<close>: the digits' value, whether a digit was seen,
  whether the point was seen, the number of digits after it, whether an underscore was
  seen, and the rest of the input.
\<close>

record mant =
  m_val :: nat
  m_any :: bool
  m_dot :: bool
  m_frac :: nat
  m_under :: bool

fun read_mant :: "bool \<Rightarrow> mant \<Rightarrow> string \<Rightarrow> mant \<times> string" where
  "read_mant hex st [] = (st, [])"
| "read_mant hex st (c # cs) =
     (if c = CHR ''_'' then read_mant hex (st\<lparr>m_under := True\<rparr>) cs
      else if c = CHR ''.'' then
        (if m_dot st then (st, c # cs) else read_mant hex (st\<lparr>m_dot := True\<rparr>) cs)
      else case mant_digit hex c of
        None \<Rightarrow> (st, c # cs)
      | Some d \<Rightarrow>
          read_mant hex (st\<lparr>m_val := (if hex then 16 else 10) * m_val st + d, m_any := True,
            m_frac := (if m_dot st then m_frac st + 1 else m_frac st)\<rparr>) cs)"

text \<open>The exponent's digits; the value stops growing once it has reached 10000.\<close>

fun read_exp :: "nat \<Rightarrow> bool \<Rightarrow> string \<Rightarrow> nat \<times> bool \<times> string" where
  "read_exp e u [] = (e, u, [])"
| "read_exp e u (c # cs) =
     (if c = CHR ''_'' then read_exp e True cs
      else if is_digit c then read_exp (if e < 10000 then 10 * e + digit_val c else e) u cs
      else (e, u, c # cs))"

text \<open>\<open>underscoreOK\<close>: underscores only between digits (or after the base prefix).\<close>

fun under_loop :: "bool \<Rightarrow> char \<Rightarrow> string \<Rightarrow> bool" where
  "under_loop hex saw [] = (saw \<noteq> CHR ''_'')"
| "under_loop hex saw (c # cs) =
     (if is_digit c \<or> (hex \<and> hex_val c \<noteq> None) then under_loop hex (CHR ''0'') cs
      else if c = CHR ''_'' then saw = CHR ''0'' \<and> under_loop hex (CHR ''_'') cs
      else saw \<noteq> CHR ''_'' \<and> under_loop hex (CHR ''!'') cs)"

fun strip_sign :: "string \<Rightarrow> bool \<times> string" where
  "strip_sign (c # cs) =
     (if c = CHR ''+'' then (False, cs) else if c = CHR ''-'' then (True, cs) else (False, c # cs))"
| "strip_sign [] = (False, [])"

definition under_ok :: "string \<Rightarrow> bool" where
  "under_ok s = (case snd (strip_sign s) of
      c # d # cs \<Rightarrow>
        if c = CHR ''0'' \<and> to_lower d \<in> {CHR ''b'', CHR ''o'', CHR ''x''}
        then under_loop (to_lower d = CHR ''x'') (CHR ''0'') cs
        else under_loop False (CHR ''^'') (c # d # cs)
    | cs \<Rightarrow> under_loop False (CHR ''^'') cs)"

definition special_float :: "string \<Rightarrow> f64 option" where
  "special_float s =
     (let (neg, t) = strip_sign s; l = map to_lower t
      in if l = ''inf'' \<or> l = ''infinity'' then Some (Inf neg)
         else if map to_lower s = ''nan'' then Some NaN else None)"

definition dec_value :: "bool \<Rightarrow> nat \<Rightarrow> int \<Rightarrow> f64" where
  "dec_value neg m e = (if e \<ge> 0 then round_f64 neg (m * 10 ^ nat e) 1
                        else round_f64 neg m (10 ^ nat (- e)))"

definition hex_value :: "bool \<Rightarrow> nat \<Rightarrow> int \<Rightarrow> f64" where
  "hex_value neg m e = (case frac_of m e of (num, den) \<Rightarrow> round_f64 neg num den)"

definition read_float :: "string \<Rightarrow> f64 option" where
  "read_float s =
     (let (neg, t) = strip_sign s;
          hex = (case t of c # d # _ # _ \<Rightarrow> c = CHR ''0'' \<and> to_lower d = CHR ''x'' | _ \<Rightarrow> False);
          (st, rest) = read_mant hex \<lparr>m_val = 0, m_any = False, m_dot = False, m_frac = 0,
                                       m_under = False\<rparr> (if hex then drop 2 t else t);
          value = (\<lambda>u x rest'. if \<not> m_any st \<or> rest' \<noteq> [] \<or> ((m_under st \<or> u) \<and> \<not> under_ok s) then None
                   else Some (if hex then hex_value neg (m_val st) (x - 4 * int (m_frac st))
                              else dec_value neg (m_val st) (x - int (m_frac st))))
      in case rest of
           [] \<Rightarrow> if hex then None else value False 0 []
         | c # cs \<Rightarrow>
             if to_lower c = (if hex then CHR ''p'' else CHR ''e'') then
               (let (eneg, es) = strip_sign cs
                in case es of [] \<Rightarrow> None
                   | d # _ \<Rightarrow> if \<not> is_digit d then None
                       else (case read_exp 0 False es of (e, u, rest') \<Rightarrow>
                               value u (if eneg then - int e else int e) rest'))
             else None)"

text \<open>
  \<open>ParseFloat\<close>'s value and whether its error is nil: 0 on a syntax error, an infinity on
  a range error.
\<close>

definition parse_float :: "string \<Rightarrow> f64 \<times> bool" where
  "parse_float s = (case special_float s of
      Some x \<Rightarrow> (x, True)
    | None \<Rightarrow> (case read_float s of
        None \<Rightarrow> (f64_zero False, False)
      | Some (Inf b) \<Rightarrow> (Inf b, False)
      | Some x \<Rightarrow> (x, True)))"

subsection \<open>Printing\<close>

text \<open>
  The shortest decimal digits that read back as the number, and the position of the
  decimal point: \<open>x = 0.d\<^sub>1d\<^sub>2... * 10 ^ dp\<close>.
\<close>

definition dec_point :: "nat \<Rightarrow> nat \<Rightarrow> int" where
  "dec_point num den =
     (if num \<ge> den then int (length (show_nat (num div den)))
      else 1 - int (length (show_nat ((den - 1) div num))))"

definition digits_at :: "f64 \<Rightarrow> nat \<Rightarrow> nat \<Rightarrow> int \<Rightarrow> nat \<Rightarrow> nat option" where
  "digits_at x num den dp n =
     (let k = int n - dp;
          (a, b) = (if k \<ge> 0 then (num * 10 ^ nat k, den) else (num, den * 10 ^ nat (- k)));
          q = a div b; r = a mod b;
          ok = (\<lambda>c. dec_value False c (- k) = x)
      in if r = 0 then Some q
         else if ok q \<and> ok (q + 1) then
           Some (if 2 * r < b \<or> (2 * r = b \<and> even q) then q else q + 1)
         else if ok q then Some q
         else if ok (q + 1) then Some (q + 1) else None)"

fun shortest_from :: "f64 \<Rightarrow> nat \<Rightarrow> nat \<Rightarrow> int \<Rightarrow> nat list \<Rightarrow> nat \<times> nat" where
  "shortest_from x num den dp [] = (0, 1)"
| "shortest_from x num den dp (n # ns) = (case digits_at x num den dp n of
      Some q \<Rightarrow> (q, n) | None \<Rightarrow> shortest_from x num den dp ns)"

definition strip_zeros :: "string \<Rightarrow> string" where
  "strip_zeros s = rev (dropWhile (\<lambda>c. c = CHR ''0'') (rev s))"

definition shortest :: "nat \<Rightarrow> int \<Rightarrow> string \<times> int" where
  "shortest m e =
     (if m = 0 then ([], 0)
      else let (num, den) = frac_of m e;
               dp = dec_point num den;
               (q, n) = shortest_from (Fin False m e) num den dp [1..<18];
               ds = show_nat q
           in (strip_zeros ds, dp + int (length ds) - int n))"

definition fmt_exp :: "bool \<Rightarrow> string \<Rightarrow> int \<Rightarrow> string" where
  "fmt_exp short ds dp =
     (let ds' = (if ds = [] then ''0'' else ds);
          x = (if ds = [] then 0 else dp - 1);
          a = show_nat (nat \<bar>x\<bar>)
      in [hd ds'] @ (if tl ds' = [] then [] else CHR ''.'' # tl ds') @
         [CHR ''e'', if x < 0 then CHR ''-'' else CHR ''+''] @
         (if length a < 2 \<and> \<not> (short \<and> x < 0) then CHR ''0'' # a else a))"

definition fmt_fix :: "string \<Rightarrow> int \<Rightarrow> string" where
  "fmt_fix ds dp =
     (if dp \<le> 0 then (if ds = [] then ''0'' else ''0.'' @ replicate (nat (- dp)) (CHR ''0'') @ ds)
      else let k = nat dp
           in if length ds \<le> k then ds @ replicate (k - length ds) (CHR ''0'')
              else take k ds @ CHR ''.'' # drop k ds)"

definition with_sign :: "bool \<Rightarrow> string \<Rightarrow> string" where
  "with_sign neg s = (if neg then CHR ''-'' # s else s)"

text \<open>The verb \<open>%v\<close>: format g with the shortest digits, exponents from -4 to 5 written out.\<close>

fun fmt_g :: "f64 \<Rightarrow> string" where
  "fmt_g NaN = ''NaN''"
| "fmt_g (Inf neg) = (if neg then ''-Inf'' else ''+Inf'')"
| "fmt_g (Fin neg m e) =
     (case shortest m e of (ds, dp) \<Rightarrow>
        with_sign neg (if ds \<noteq> [] \<and> (dp - 1 < -4 \<or> dp - 1 \<ge> 6) then fmt_exp False ds dp
                       else fmt_fix ds dp))"

text \<open>
  \<open>json.Marshal\<close>: the exponent form below \<open>1e-6\<close> and from \<open>1e21\<close> on, and an error for
  NaN and the infinities.
\<close>

fun json_float :: "f64 \<Rightarrow> string option" where
  "json_float (Fin neg m e) =
     (case shortest m e of (ds, dp) \<Rightarrow>
        Some (with_sign neg (if ds \<noteq> [] \<and> (dp - 1 < -6 \<or> dp - 1 \<ge> 21) then fmt_exp True ds dp
                             else fmt_fix ds dp)))"
| "json_float _ = None"

end
