(* ===== verification/GoJson.thy ===== *)
theory GoJson
  imports GoFloat "HOL-Library.AList" "HOL-Library.Char_ord" "HOL-Library.List_Lexorder"
begin

section \<open>encoding/json: documents, printing, parsing and decoding\<close>

text \<open>
  Every payload of the system is JSON made by \<open>json.Marshal\<close> and read by
  \<open>json.Unmarshal\<close>: the steps of a workflow, the queue messages, the cached workflow, the
  events on the pub/sub channel. This theory models the part of the package the services use.
  \<^item> \<open>json\<close> is a document; a number keeps its literal, since it is read at the type of the
    Go variable it is decoded into;
  \<^item> \<open>gval\<close> is a Go value of type \<open>any\<close>, with the kinds the services build;
  \<^item> \<open>escape\<close>, \<open>print_json\<close>, \<open>to_json\<close>: \<open>Marshal\<close>, with its string escapes, its sorted
    map keys and its treatment of bytes that are not UTF-8;
  \<^item> \<open>scan\<close>, \<open>parse\<close>, \<open>unmarshal\<close>: the scanner and parser, as a token machine and a stack
    machine, both structural on their input, with the nesting limit of 10000;
  \<^item> \<open>decode_fields\<close> and the \<open>dec_\<close> functions: decoding a document into the fields of a
    struct, with the exact-then-folded match of field names.
  The round trips are in \<open>GoJsonProps\<close>.
\<close>

datatype json = JNull | JBool bool | JNum string | JStr string
  | JArr "json list" | JObj "(string \<times> json) list"

datatype gval = GNil | GBool bool | GFloat f64 | GInt int | GStr string
  | GArr "gval list" | GMap "(string \<times> gval) list"

subsection \<open>UTF-8\<close>

definition cont :: "nat \<Rightarrow> bool" where
  "cont b \<longleftrightarrow> 128 \<le> b \<and> b \<le> 191"

text \<open>
  The number of bytes of the UTF-8 sequence at the head of a byte string whose first byte is
  not ASCII; 0 if the head is not a valid sequence.
\<close>

fun rune_len :: "nat list \<Rightarrow> nat" where
  "rune_len (a # b # r) =
     (if 194 \<le> a \<and> a \<le> 223 then (if cont b then 2 else 0)
      else if 224 \<le> a \<and> a \<le> 239 then
        (case r of c # _ \<Rightarrow>
           if (if a = 224 then 160 else 128) \<le> b \<and> b \<le> (if a = 237 then 159 else 191) \<and> cont c
           then 3 else 0
         | [] \<Rightarrow> 0)
      else if 240 \<le> a \<and> a \<le> 244 then
        (case r of c # d # _ \<Rightarrow>
           if (if a = 240 then 144 else 128) \<le> b \<and> b \<le> (if a = 244 then 143 else 191) \<and> cont c \<and> cont d
           then 4 else 0
         | _ \<Rightarrow> 0)
      else 0)"
| "rune_len _ = 0"

definition rune_at :: "string \<Rightarrow> nat" where
  "rune_at s = rune_len (map of_char (take 4 s))"

definition ascii :: "char \<Rightarrow> bool" where
  "ascii c \<longleftrightarrow> (of_char c :: nat) < 128"

definition replacement :: string where
  "replacement = [CHR 0xEF, CHR 0xBF, CHR 0xBD]"

fun valid_utf8 :: "string \<Rightarrow> bool" where
  "valid_utf8 [] = True"
| "valid_utf8 (c # cs) =
     (if ascii c then valid_utf8 cs
      else rune_at (c # cs) \<noteq> 0 \<and> valid_utf8 (drop (rune_at (c # cs) - 1) cs))"

definition utf8_enc :: "nat \<Rightarrow> string" where
  "utf8_enc r =
     (if r < 128 then [char_of r]
      else if r < 2048 then [char_of (192 + r div 64), char_of (128 + r mod 64)]
      else if r < 65536 then
        [char_of (224 + r div 4096), char_of (128 + r div 64 mod 64), char_of (128 + r mod 64)]
      else [char_of (240 + r div 262144), char_of (128 + r div 4096 mod 64),
            char_of (128 + r div 64 mod 64), char_of (128 + r mod 64)])"

subsection \<open>String literals\<close>

definition hex_digit :: "nat \<Rightarrow> char" where
  "hex_digit d = (if d < 10 then char_of (48 + d) else char_of (87 + d))"

definition esc_u :: "char \<Rightarrow> string" where
  "esc_u c = [CHR 0x5C, CHR ''u'', CHR ''0'', CHR ''0'',
              hex_digit (of_char c div 16), hex_digit (of_char c mod 16)]"

definition esc_ascii :: "char \<Rightarrow> string" where
  "esc_ascii c =
     (if c = CHR 0x22 \<or> c = CHR 0x5C then [CHR 0x5C, c]
      else if c = CHR 0x08 then [CHR 0x5C, CHR ''b'']
      else if c = CHR 0x0C then [CHR 0x5C, CHR ''f'']
      else if c = CHR 0x0A then [CHR 0x5C, CHR ''n'']
      else if c = CHR 0x0D then [CHR 0x5C, CHR ''r'']
      else if c = CHR 0x09 then [CHR 0x5C, CHR ''t'']
      else if (of_char c :: nat) < 32 \<or> c = CHR ''<'' \<or> c = CHR ''>'' \<or> c = CHR 0x26 then esc_u c
      else [c])"

text \<open>The two line separators U+2028 and U+2029 are escaped as well.\<close>

definition esc_rune :: "string \<Rightarrow> string" where
  "esc_rune s =
     (if s = [CHR 0xE2, CHR 0x80, CHR 0xA8] then CHR 0x5C # ''u2028''
      else if s = [CHR 0xE2, CHR 0x80, CHR 0xA9] then CHR 0x5C # ''u2029''
      else s)"

fun escape :: "string \<Rightarrow> string" where
  "escape [] = []"
| "escape (c # cs) =
     (if ascii c then esc_ascii c @ escape cs
      else if rune_at (c # cs) = 0 then CHR 0x5C # ''ufffd'' @ escape cs
      else esc_rune (take (rune_at (c # cs)) (c # cs)) @ escape (drop (rune_at (c # cs) - 1) cs))"

definition quote :: "string \<Rightarrow> string" where
  "quote s = CHR 0x22 # escape s @ [CHR 0x22]"

definition hex4 :: "string \<Rightarrow> nat" where
  "hex4 s = foldl (\<lambda>n c. 16 * n + (case hex_val c of Some d \<Rightarrow> d | None \<Rightarrow> 0)) 0 s"

definition unesc_simple :: "char \<Rightarrow> char" where
  "unesc_simple c =
     (if c = CHR ''b'' then CHR 0x08 else if c = CHR ''f'' then CHR 0x0C
      else if c = CHR ''n'' then CHR 0x0A else if c = CHR ''r'' then CHR 0x0D
      else if c = CHR ''t'' then CHR 0x09 else c)"

definition is_surrogate :: "nat \<Rightarrow> bool" where
  "is_surrogate r \<longleftrightarrow> 55296 \<le> r \<and> r < 57344"

text \<open>
  The value of a literal's content, which the scanner has checked: a lone surrogate and a
  byte that is not UTF-8 become the replacement character.
\<close>

fun unquote :: "string \<Rightarrow> string" where
  "unquote [] = []"
| "unquote (c # cs) =
     (if c = CHR 0x5C then
        (case cs of [] \<Rightarrow> []
         | e # es \<Rightarrow>
             if e \<noteq> CHR ''u'' then unesc_simple e # unquote es
             else let r = hex4 (take 4 es); es' = drop 4 es; r2 = hex4 (take 4 (drop 2 es'))
                  in if \<not> is_surrogate r then utf8_enc r @ unquote es'
                     else if r < 56320 \<and> take 2 es' = [CHR 0x5C, CHR ''u''] \<and> 56320 \<le> r2 \<and> r2 < 57344
                     then utf8_enc (65536 + (r - 55296) * 1024 + (r2 - 56320)) @ unquote (drop 6 es')
                     else replacement @ unquote es')
      else if ascii c then c # unquote cs
      else if rune_at (c # cs) = 0 then replacement @ unquote cs
      else take (rune_at (c # cs)) (c # cs) @ unquote (drop (rune_at (c # cs) - 1) cs))"

declare unquote.simps(2) [simp del]

subsection \<open>Marshal\<close>

fun join :: "'a list \<Rightarrow> 'a list list \<Rightarrow> 'a list" where
  "join sep [] = []"
| "join sep [x] = x"
| "join sep (x # y # zs) = x @ sep @ join sep (y # zs)"

primrec print_json :: "json \<Rightarrow> string" where
  "print_json JNull = ''null''"
| "print_json (JBool b) = (if b then ''true'' else ''false'')"
| "print_json (JNum s) = s"
| "print_json (JStr s) = quote s"
| "print_json (JArr vs) = ''['' @ join '','' (map print_json vs) @ '']''"
| "print_json (JObj ps) =
     ''{'' @ join '','' (map (\<lambda>(k, t). quote k @ '':'' @ t) (map (map_prod id print_json) ps)) @ ''}''"

fun those :: "'a option list \<Rightarrow> 'a list option" where
  "those [] = Some []"
| "those (x # xs) = (case x of None \<Rightarrow> None | Some y \<Rightarrow> map_option ((#) y) (those xs))"

text \<open>
  The document \<open>Marshal\<close> makes of a value; \<open>None\<close> where it returns an error (a float
  that is NaN or infinite). Map keys are written in increasing order.
\<close>

primrec to_json :: "gval \<Rightarrow> json option" where
  "to_json GNil = Some JNull"
| "to_json (GBool b) = Some (JBool b)"
| "to_json (GFloat x) = map_option JNum (json_float x)"
| "to_json (GInt i) = Some (JNum (show_int i))"
| "to_json (GStr s) = Some (JStr s)"
| "to_json (GArr vs) = map_option JArr (those (map to_json vs))"
| "to_json (GMap ps) =
     map_option (\<lambda>qs. JObj (sort_key fst qs))
       (those (map (\<lambda>(k, v). map_option (Pair k) v) (map (map_prod id to_json) ps)))"

definition marshal :: "gval \<Rightarrow> string option" where
  "marshal v = map_option print_json (to_json v)"

subsection \<open>The scanner\<close>

datatype tok = TLBrace | TRBrace | TLBrack | TRBrack | TColon | TComma
  | TStr string | TNum string | TTrue | TFalse | TNull

text \<open>
  The scanner's states: between tokens, in a string (with the content read so far, in
  reverse), after a backslash, in the digits of \<open>\u\<close>, in a number, in a word.
\<close>

datatype lmode = LBase | LStr string | LEsc string | LHex nat string | LNum string | LWord string

definition is_ws :: "char \<Rightarrow> bool" where
  "is_ws c \<longleftrightarrow> c = CHR '' '' \<or> c = CHR 0x09 \<or> c = CHR 0x0A \<or> c = CHR 0x0D"

definition num_char :: "char \<Rightarrow> bool" where
  "num_char c \<longleftrightarrow> is_digit c \<or> c \<in> {CHR ''-'', CHR ''+'', CHR ''.'', CHR ''e'', CHR ''E''}"

definition word_char :: "char \<Rightarrow> bool" where
  "word_char c \<longleftrightarrow> 97 \<le> (of_char c :: nat) \<and> (of_char c :: nat) \<le> 122"

text \<open>The grammar of numbers: \<open>-? (0 | [1-9][0-9]*) (. [0-9]+)? ([eE] [+-]? [0-9]+)?\<close>.\<close>

definition valid_exp :: "string \<Rightarrow> bool" where
  "valid_exp s = (case s of [] \<Rightarrow> True
    | c # cs \<Rightarrow> (c = CHR ''e'' \<or> c = CHR ''E'') \<and>
        (let ds = snd (strip_sign cs) in ds \<noteq> [] \<and> list_all is_digit ds))"

definition valid_frac :: "string \<Rightarrow> bool" where
  "valid_frac s = (case s of [] \<Rightarrow> True
    | c # cs \<Rightarrow> if c = CHR ''.'' then takeWhile is_digit cs \<noteq> [] \<and> valid_exp (dropWhile is_digit cs)
                else valid_exp s)"

definition valid_number :: "string \<Rightarrow> bool" where
  "valid_number s =
     (let t = (case s of c # cs \<Rightarrow> if c = CHR ''-'' then cs else s | [] \<Rightarrow> s);
          ds = takeWhile is_digit t
      in ds \<noteq> [] \<and> (hd ds = CHR ''0'' \<longrightarrow> ds = ''0'') \<and> valid_frac (dropWhile is_digit t))"

definition word_tok :: "string \<Rightarrow> tok option" where
  "word_tok w = (if w = ''true'' then Some TTrue else if w = ''false'' then Some TFalse
                 else if w = ''null'' then Some TNull else None)"

definition punct :: "char \<Rightarrow> tok option" where
  "punct c = (if c = CHR ''{'' then Some TLBrace else if c = CHR ''}'' then Some TRBrace
     else if c = CHR ''['' then Some TLBrack else if c = CHR '']'' then Some TRBrack
     else if c = CHR '':'' then Some TColon else if c = CHR '','' then Some TComma else None)"

definition start :: "char \<Rightarrow> (tok list \<times> lmode) option" where
  "start c = (case punct c of
      Some t \<Rightarrow> Some ([t], LBase)
    | None \<Rightarrow> if is_ws c then Some ([], LBase)
        else if c = CHR 0x22 then Some ([], LStr [])
        else if is_digit c \<or> c = CHR ''-'' then Some ([], LNum [c])
        else if word_char c then Some ([], LWord [c]) else None)"

fun scan :: "lmode \<Rightarrow> string \<Rightarrow> tok list option" where
  "scan LBase [] = Some []"
| "scan (LNum acc) [] = (if valid_number (rev acc) then Some [TNum (rev acc)] else None)"
| "scan (LWord acc) [] = map_option (\<lambda>t. [t]) (word_tok (rev acc))"
| "scan _ [] = None"
| "scan LBase (c # cs) = (case start c of None \<Rightarrow> None
     | Some (ts, m) \<Rightarrow> map_option ((@) ts) (scan m cs))"
| "scan (LStr acc) (c # cs) =
     (if c = CHR 0x22 then map_option ((#) (TStr (unquote (rev acc)))) (scan LBase cs)
      else if c = CHR 0x5C then scan (LEsc (c # acc)) cs
      else if (of_char c :: nat) < 32 then None
      else scan (LStr (c # acc)) cs)"
| "scan (LEsc acc) (c # cs) =
     (if c = CHR ''u'' then scan (LHex 0 (c # acc)) cs
      else if c \<in> set ''bfnrt/'' \<union> {CHR 0x22, CHR 0x5C} then scan (LStr (c # acc)) cs
      else None)"
| "scan (LHex n acc) (c # cs) =
     (if hex_val c = None then None
      else if n = 3 then scan (LStr (c # acc)) cs else scan (LHex (Suc n) (c # acc)) cs)"
| "scan (LNum acc) (c # cs) =
     (if num_char c then scan (LNum (c # acc)) cs
      else if \<not> valid_number (rev acc) then None
      else (case start c of None \<Rightarrow> None
        | Some (ts, m) \<Rightarrow> map_option (\<lambda>r. TNum (rev acc) # ts @ r) (scan m cs)))"
| "scan (LWord acc) (c # cs) =
     (if word_char c then scan (LWord (c # acc)) cs
      else (case word_tok (rev acc) of None \<Rightarrow> None
        | Some t \<Rightarrow> (case start c of None \<Rightarrow> None
            | Some (ts, m) \<Rightarrow> map_option (\<lambda>r. t # ts @ r) (scan m cs))))"

subsection \<open>The parser\<close>

text \<open>
  A stack machine: the enclosing arrays and objects are the frames, and the state says what
  the next token may be.
\<close>

datatype frame = FArr "json list" | FObj "(string \<times> json) list" string

datatype pstate = PVal | PArr0 | PObj0 | PKey "(string \<times> json) list"
  | PColon "(string \<times> json) list" string | PAfter json

definition max_depth :: nat where
  "max_depth = 10000"

definition value_step :: "tok \<Rightarrow> frame list \<Rightarrow> (pstate \<times> frame list) option" where
  "value_step t st = (case t of
      TNull \<Rightarrow> Some (PAfter JNull, st)
    | TTrue \<Rightarrow> Some (PAfter (JBool True), st)
    | TFalse \<Rightarrow> Some (PAfter (JBool False), st)
    | TNum s \<Rightarrow> Some (PAfter (JNum s), st)
    | TStr s \<Rightarrow> Some (PAfter (JStr s), st)
    | TLBrack \<Rightarrow> if length st < max_depth then Some (PArr0, st) else None
    | TLBrace \<Rightarrow> if length st < max_depth then Some (PObj0, st) else None
    | _ \<Rightarrow> None)"

definition after_step :: "json \<Rightarrow> tok \<Rightarrow> frame list \<Rightarrow> (pstate \<times> frame list) option" where
  "after_step v t st = (case st of
      [] \<Rightarrow> None
    | FArr vs # st' \<Rightarrow>
        if t = TComma then Some (PVal, FArr (v # vs) # st')
        else if t = TRBrack then Some (PAfter (JArr (rev (v # vs))), st') else None
    | FObj ps k # st' \<Rightarrow>
        if t = TComma then Some (PKey ((k, v) # ps), st')
        else if t = TRBrace then Some (PAfter (JObj (rev ((k, v) # ps))), st') else None)"

definition parse_step :: "pstate \<Rightarrow> tok \<Rightarrow> frame list \<Rightarrow> (pstate \<times> frame list) option" where
  "parse_step p t st = (case p of
      PVal \<Rightarrow> value_step t st
    | PArr0 \<Rightarrow> if t = TRBrack then Some (PAfter (JArr []), st) else value_step t (FArr [] # st)
    | PObj0 \<Rightarrow> (case t of TRBrace \<Rightarrow> Some (PAfter (JObj []), st)
                | TStr k \<Rightarrow> Some (PColon [] k, st) | _ \<Rightarrow> None)
    | PKey ps \<Rightarrow> (case t of TStr k \<Rightarrow> Some (PColon ps k, st) | _ \<Rightarrow> None)
    | PColon ps k \<Rightarrow> if t = TColon then Some (PVal, FObj ps k # st) else None
    | PAfter v \<Rightarrow> after_step v t st)"

fun parse :: "pstate \<Rightarrow> frame list \<Rightarrow> tok list \<Rightarrow> json option" where
  "parse p st [] = (case p of PAfter v \<Rightarrow> if st = [] then Some v else None | _ \<Rightarrow> None)"
| "parse p st (t # ts) = (case parse_step p t st of None \<Rightarrow> None
     | Some (p', st') \<Rightarrow> parse p' st' ts)"

definition unmarshal :: "string \<Rightarrow> json option" where
  "unmarshal s = (case scan LBase s of None \<Rightarrow> None | Some ts \<Rightarrow> parse PVal [] ts)"

subsection \<open>Decoding into Go variables\<close>

text \<open>
  \<open>None\<close> stands for a non-nil error of \<open>Unmarshal\<close>: the services use nothing of what a
  failed call has stored. A JSON null leaves a scalar variable as it is.
\<close>

fun dec_string :: "json \<Rightarrow> string \<Rightarrow> string option" where
  "dec_string (JStr s) _ = Some s"
| "dec_string JNull old = Some old"
| "dec_string _ _ = None"

fun dec_bool :: "json \<Rightarrow> bool \<Rightarrow> bool option" where
  "dec_bool (JBool b) _ = Some b"
| "dec_bool JNull old = Some old"
| "dec_bool _ _ = None"

text \<open>\<open>strconv.ParseUint(s, 10, 64)\<close> and \<open>ParseInt(s, 10, 64)\<close>, on a JSON number.\<close>

definition parse_uint :: "string \<Rightarrow> uint64 option" where
  "parse_uint s = (if s \<noteq> [] \<and> list_all is_digit s \<and> read_digits s < 2 ^ 64
                   then Some (of_nat (read_digits s)) else None)"

definition parse_int :: "string \<Rightarrow> int64 option" where
  "parse_int s =
     (let (neg, ds) = strip_sign s; v = (if neg then - int (read_digits ds) else int (read_digits ds))
      in if ds \<noteq> [] \<and> list_all is_digit ds \<and> - (2 ^ 63) \<le> v \<and> v < 2 ^ 63
         then Some (word_of_int v) else None)"

fun dec_uint :: "json \<Rightarrow> uint64 \<Rightarrow> uint64 option" where
  "dec_uint (JNum s) _ = parse_uint s"
| "dec_uint JNull old = Some old"
| "dec_uint _ _ = None"

fun dec_int :: "json \<Rightarrow> int64 \<Rightarrow> int64 option" where
  "dec_int (JNum s) _ = parse_int s"
| "dec_int JNull old = Some old"
| "dec_int _ _ = None"

text \<open>Decoding into a variable of type \<open>any\<close>; a repeated key keeps its last value.\<close>

primrec dec_any :: "json \<Rightarrow> gval option" where
  "dec_any JNull = Some GNil"
| "dec_any (JBool b) = Some (GBool b)"
| "dec_any (JNum s) = (case parse_float s of (x, ok) \<Rightarrow> if ok then Some (GFloat x) else None)"
| "dec_any (JStr s) = Some (GStr s)"
| "dec_any (JArr vs) = map_option GArr (those (map dec_any vs))"
| "dec_any (JObj ps) =
     map_option (\<lambda>qs. GMap (foldl (\<lambda>m (k, v). AList.update k v m) [] qs))
       (those (map (\<lambda>(k, v). map_option (Pair k) v) (map (map_prod id dec_any) ps)))"

text \<open>
  Decoding into a variable of type \<open>map[string]any\<close> (\<open>None\<close> inside is the nil map): null
  stores nil, an object is merged into the map that is there.
\<close>

fun dec_map :: "json \<Rightarrow> (string \<times> gval) list option \<Rightarrow> (string \<times> gval) list option option" where
  "dec_map JNull _ = Some None"
| "dec_map (JObj ps) old = (case dec_any (JObj ps) of
      Some (GMap m) \<Rightarrow>
        Some (Some (foldl (\<lambda>m (k, v). AList.update k v m) (case old of None \<Rightarrow> [] | Some m0 \<Rightarrow> m0) m))
    | _ \<Rightarrow> None)"
| "dec_map _ _ = None"

text \<open>
  The field a key is decoded into: the field of that name, else the first whose name is
  equal to the key up to case folding (which takes U+017F to S and U+212A to K).
\<close>

definition to_upper :: "char \<Rightarrow> char" where
  "to_upper c = (if 97 \<le> (of_char c :: nat) \<and> (of_char c :: nat) \<le> 122
                 then char_of ((of_char c :: nat) - 32) else c)"

fun fold_name :: "string \<Rightarrow> string" where
  "fold_name [] = []"
| "fold_name (c # cs) =
     (if c = CHR 0xC5 \<and> take 1 cs = [CHR 0xBF] then CHR ''S'' # fold_name (drop 1 cs)
      else if c = CHR 0xE2 \<and> take 2 cs = [CHR 0x84, CHR 0xAA] then CHR ''K'' # fold_name (drop 2 cs)
      else to_upper c # fold_name cs)"

definition resolve :: "string list \<Rightarrow> string \<Rightarrow> string option" where
  "resolve names k = (if k \<in> set names then Some k
                      else find (\<lambda>n. fold_name n = fold_name k) names)"

fun decode_fields :: "string list \<Rightarrow> (string \<Rightarrow> json \<Rightarrow> 'r \<Rightarrow> 'r option)
    \<Rightarrow> (string \<times> json) list \<Rightarrow> 'r \<Rightarrow> 'r option" where
  "decode_fields names set_field [] r = Some r"
| "decode_fields names set_field ((k, v) # ps) r = (case resolve names k of
      None \<Rightarrow> decode_fields names set_field ps r
    | Some n \<Rightarrow> (case set_field n v r of
        None \<Rightarrow> None | Some r' \<Rightarrow> decode_fields names set_field ps r'))"

text \<open>Decoding into a struct: null leaves it as it is.\<close>

fun decode_struct :: "string list \<Rightarrow> (string \<Rightarrow> json \<Rightarrow> 'r \<Rightarrow> 'r option) \<Rightarrow> json \<Rightarrow> 'r \<Rightarrow> 'r option" where
  "decode_struct names set_field (JObj ps) r = decode_fields names set_field ps r"
| "decode_struct names set_field JNull r = Some r"
| "decode_struct names set_field _ r = None"

end
