(* ===== verification/GoJsonProps.thy ===== *)
theory GoJsonProps
  imports GoJson
begin

section \<open>encoding/json: what is printed reads back\<close>

text \<open>
  The round trips of the model of \<open>encoding/json\<close>: the content of a string literal
  (\<open>unquote_escape\<close>), the tokens of a printed document (\<open>scan_print\<close>), the document of
  its tokens (\<open>parse_toks\<close>), and together \<open>unmarshal_print\<close>: \<open>Unmarshal\<close> reads back
  every document that \<open>Marshal\<close> prints, when its strings are UTF-8 and it is nested no
  deeper than the package allows. The components' round trips rest on the last one.
\<close>

subsection \<open>Round trip of strings\<close>

lemma rune_at_props:
  assumes "rune_at s = n" and "n \<noteq> 0"
  shows "n \<le> length s \<and> 2 \<le> n \<and> rune_at (take n s @ t) = n"
proof -
  consider "s = []" | a where "s = [a]" | a b where "s = [a, b]" | a b c where "s = [a, b, c]"
    | a b c d r where "s = a # b # c # d # r"
    by (metis neq_Nil_conv)
  then show ?thesis
  proof cases
    case 1
    with assms show ?thesis by (simp add: rune_at_def)
  next
    case 2
    with assms show ?thesis by (simp add: rune_at_def)
  next
    case 3
    with assms show ?thesis by (auto simp: rune_at_def split: if_splits)
  next
    case 4
    with assms show ?thesis by (auto simp: rune_at_def split: if_splits)
  next
    case 5
    with assms show ?thesis by (auto simp: rune_at_def split: if_splits)
  qed
qed

lemma hex_val_digit: "d < 16 \<Longrightarrow> hex_val (hex_digit d) = Some d"
  by (auto simp: hex_val_def hex_digit_def to_lower_def Let_def)

lemma unquote_plain: "ascii c \<Longrightarrow> c \<noteq> CHR 0x5C \<Longrightarrow> unquote (c # t) = c # unquote t"
  by (simp add: unquote.simps(2))

lemma unquote_u:
  "\<not> is_surrogate (hex4 [a, b, c, d]) \<Longrightarrow>
   unquote (CHR 0x5C # CHR ''u'' # a # b # c # d # t) = utf8_enc (hex4 [a, b, c, d]) @ unquote t"
  by (simp add: unquote.simps(2))

lemma hex4_digits:
  "a < 16 \<Longrightarrow> b < 16 \<Longrightarrow> c < 16 \<Longrightarrow> d < 16 \<Longrightarrow>
   hex4 [hex_digit a, hex_digit b, hex_digit c, hex_digit d] = ((a * 16 + b) * 16 + c) * 16 + d"
  by (simp add: hex4_def hex_val_digit)

lemma unquote_esc_u:
  assumes "ascii c"
  shows "unquote (esc_u c @ t) = c # unquote t"
proof -
  have d: "(of_char c :: nat) < 128" using assms by (simp add: ascii_def)
  have z: "hex_digit 0 = CHR ''0''" by code_simp
  have h: "hex4 [CHR ''0'', CHR ''0'', hex_digit (of_char c div 16), hex_digit (of_char c mod 16)] = of_char c"
    using d hex4_digits [of 0 0 "of_char c div 16" "of_char c mod 16"] by (simp add: z)
  then have "unquote (esc_u c @ t) = utf8_enc (of_char c) @ unquote t"
    unfolding esc_u_def using d by (simp add: unquote_u is_surrogate_def)
  then show ?thesis using d by (simp add: utf8_enc_def)
qed

lemma unquote_simple:
  "e \<noteq> CHR ''u'' \<Longrightarrow> unquote (CHR 0x5C # e # t) = unesc_simple e # unquote t"
  by (simp add: unquote.simps(2))

lemma esc_ascii_cases:
  "(c = CHR 0x22 \<or> c = CHR 0x5C) \<or> c \<in> {CHR 0x08, CHR 0x0C, CHR 0x0A, CHR 0x0D, CHR 0x09} \<or>
   esc_ascii c = esc_u c \<or> (esc_ascii c = [c] \<and> c \<noteq> CHR 0x5C \<and> c \<noteq> CHR 0x22 \<and> 32 \<le> (of_char c :: nat))"
  by (simp add: esc_ascii_def)

lemma unquote_esc_ascii:
  assumes "ascii c"
  shows "unquote (esc_ascii c @ t) = c # unquote t"
proof -
  consider "c = CHR 0x22 \<or> c = CHR 0x5C" | "c \<in> {CHR 0x08, CHR 0x0C, CHR 0x0A, CHR 0x0D, CHR 0x09}"
    | "esc_ascii c = esc_u c" | "esc_ascii c = [c]" "c \<noteq> CHR 0x5C"
    using esc_ascii_cases [of c] by blast
  then show ?thesis
  proof cases
    case 1
    then show ?thesis by (auto simp: esc_ascii_def unquote_simple unesc_simple_def)
  next
    case 2
    then show ?thesis by (auto simp: esc_ascii_def unquote_simple unesc_simple_def)
  next
    case 3
    with assms show ?thesis by (simp add: unquote_esc_u)
  next
    case 4
    with assms show ?thesis by (simp add: unquote_plain)
  qed
qed

lemma unquote_sep:
  "unquote (CHR 0x5C # ''u2028'' @ t) = [CHR 0xE2, CHR 0x80, CHR 0xA8] @ unquote t"
  "unquote (CHR 0x5C # ''u2029'' @ t) = [CHR 0xE2, CHR 0x80, CHR 0xA9] @ unquote t"
proof -
  have "hex4 ''2028'' = 8232" "hex4 ''2029'' = 8233"
    "utf8_enc 8232 = [CHR 0xE2, CHR 0x80, CHR 0xA8]" "utf8_enc 8233 = [CHR 0xE2, CHR 0x80, CHR 0xA9]"
    by code_simp+
  then show "unquote (CHR 0x5C # ''u2028'' @ t) = [CHR 0xE2, CHR 0x80, CHR 0xA8] @ unquote t"
    and "unquote (CHR 0x5C # ''u2029'' @ t) = [CHR 0xE2, CHR 0x80, CHR 0xA9] @ unquote t"
    by (simp_all add: unquote_u is_surrogate_def)
qed

lemma unquote_rune:
  assumes "\<not> ascii c" and "rune_at (c # cs) = n" and "n \<noteq> 0"
  shows "unquote (take n (c # cs) @ t) = take n (c # cs) @ unquote t"
proof -
  from rune_at_props [OF assms(2,3)] have len: "n \<le> Suc (length cs)" and n2: "2 \<le> n"
    and at: "rune_at (take n (c # cs) @ t) = n" by auto
  then obtain m where m: "n = Suc m" by (cases n) auto
  have ne: "c \<noteq> CHR 0x5C" using assms(1) by (auto simp: ascii_def)
  have tk: "take n (c # cs) = c # take m cs" and len': "length (take m cs) = m"
    using len m by simp_all
  have "rune_at (c # take m cs @ t) = Suc m" using at tk m by simp
  then show ?thesis
    using assms(1) ne len' unfolding tk by (simp add: unquote.simps(2))
qed

lemma unquote_esc_rune:
  assumes "\<not> ascii c" and "rune_at (c # cs) = n" and "n \<noteq> 0"
  shows "unquote (esc_rune (take n (c # cs)) @ t) = take n (c # cs) @ unquote t"
  using unquote_rune [OF assms, of t] unquote_sep [of t] by (simp add: esc_rune_def)

lemma unquote_escape: "valid_utf8 s \<Longrightarrow> unquote (escape s) = s"
proof (induction s rule: escape.induct)
  case 1
  then show ?case by simp
next
  case (2 c cs)
  show ?case
  proof (cases "ascii c")
    case True
    with 2 show ?thesis by (simp add: unquote_esc_ascii)
  next
    case False
    with 2 have n: "rune_at (c # cs) \<noteq> 0"
      and IH: "unquote (escape (drop (rune_at (c # cs) - 1) cs)) = drop (rune_at (c # cs) - 1) cs"
      by simp_all
    then show ?thesis
      using False unquote_esc_rune [OF False refl n] by (cases "rune_at (c # cs)") simp_all
  qed
qed

lemma scan_raw:
  "\<forall>c \<in> set u. 32 \<le> (of_char c :: nat) \<and> c \<noteq> CHR 0x22 \<and> c \<noteq> CHR 0x5C \<Longrightarrow>
   scan (LStr acc) (u @ t) = scan (LStr (rev u @ acc)) t"
  by (induction u arbitrary: acc) auto

lemma scan_u:
  "hex_val a \<noteq> None \<Longrightarrow> hex_val b \<noteq> None \<Longrightarrow> hex_val c \<noteq> None \<Longrightarrow> hex_val d \<noteq> None \<Longrightarrow>
   scan (LStr acc) (CHR 0x5C # CHR ''u'' # a # b # c # d # t) =
   scan (LStr (d # c # b # a # CHR ''u'' # CHR 0x5C # acc)) t"
  by auto

lemma hex_chars:
  "hex_val (CHR ''0'') \<noteq> None" "hex_val (CHR ''2'') \<noteq> None" "hex_val (CHR ''8'') \<noteq> None"
  "hex_val (CHR ''9'') \<noteq> None" "hex_val (CHR ''f'') \<noteq> None" "hex_val (CHR ''d'') \<noteq> None"
  by code_simp+

lemma scan_esc_ascii:
  assumes "ascii c"
  shows "scan (LStr acc) (esc_ascii c @ t) = scan (LStr (rev (esc_ascii c) @ acc)) t"
proof -
  have h: "hex_val (hex_digit (of_char c div 16)) \<noteq> None" "hex_val (hex_digit (of_char c mod 16)) \<noteq> None"
    using assms by (simp_all add: ascii_def hex_val_digit)
  consider "c = CHR 0x22 \<or> c = CHR 0x5C" | "c \<in> {CHR 0x08, CHR 0x0C, CHR 0x0A, CHR 0x0D, CHR 0x09}"
    | "esc_ascii c = esc_u c" | "esc_ascii c = [c]" "c \<noteq> CHR 0x5C" "c \<noteq> CHR 0x22" "32 \<le> (of_char c :: nat)"
    using esc_ascii_cases [of c] by blast
  then show ?thesis
  proof cases
    case 1
    then show ?thesis by (auto simp: esc_ascii_def)
  next
    case 2
    then show ?thesis by (auto simp: esc_ascii_def)
  next
    case 3
    with h hex_chars show ?thesis by (auto simp: esc_u_def)
  next
    case 4
    then show ?thesis by simp
  qed
qed

lemma rune_bytes:
  assumes "rune_at s = n" and "n \<noteq> 0"
  shows "\<forall>c \<in> set (take n s). 128 \<le> (of_char c :: nat)"
proof -
  consider "s = []" | a where "s = [a]" | a b where "s = [a, b]" | a b c where "s = [a, b, c]"
    | a b c d r where "s = a # b # c # d # r"
    by (metis neq_Nil_conv)
  then show ?thesis
    by cases (use assms in \<open>auto simp: rune_at_def cont_def split: if_splits\<close>)
qed

lemma big_byte: "128 \<le> (of_char c :: nat) \<Longrightarrow> 32 \<le> (of_char c :: nat) \<and> c \<noteq> CHR 0x22 \<and> c \<noteq> CHR 0x5C"
  by auto

lemma scan_esc_rune:
  assumes "rune_at s = n" and "n \<noteq> 0"
  shows "scan (LStr acc) (esc_rune (take n s) @ t) = scan (LStr (rev (esc_rune (take n s)) @ acc)) t"
proof -
  have "scan (LStr acc) (take n s @ t) = scan (LStr (rev (take n s) @ acc)) t"
    using rune_bytes [OF assms] big_byte by (blast intro: scan_raw)
  then show ?thesis
    using hex_chars by (auto simp: esc_rune_def)
qed

lemma scan_escape: "scan (LStr acc) (escape s @ t) = scan (LStr (rev (escape s) @ acc)) t"
proof (induction s arbitrary: acc rule: escape.induct)
  case 1
  then show ?case by simp
next
  case (2 c cs)
  consider "ascii c" | "\<not> ascii c" "rune_at (c # cs) = 0" | "\<not> ascii c" "rune_at (c # cs) \<noteq> 0"
    by blast
  then show ?case
  proof cases
    case 1
    with 2 show ?thesis by (simp add: scan_esc_ascii)
  next
    case 2
    with "2.IH" hex_chars show ?thesis by auto
  next
    case 3
    with "2.IH" scan_esc_rune [OF refl 3(2)] show ?thesis by simp
  qed
qed

lemma scan_quote:
  "scan LBase (quote s @ t) = map_option ((#) (TStr (unquote (escape s)))) (scan LBase t)"
proof -
  have "start (CHR 0x22) = Some ([], LStr [])" by code_simp
  then show ?thesis
    by (simp add: quote_def scan_escape)
qed


subsection \<open>Round trip of documents\<close>

text \<open>The documents \<open>Marshal\<close> makes: valid strings and numbers, nested at most 10000 deep.\<close>

primrec wf_json :: "json \<Rightarrow> bool" where
  "wf_json JNull = True"
| "wf_json (JBool b) = True"
| "wf_json (JNum s) = valid_number s"
| "wf_json (JStr s) = valid_utf8 s"
| "wf_json (JArr vs) = (\<forall>b \<in> set (map wf_json vs). b)"
| "wf_json (JObj ps) = (\<forall>(k, b) \<in> set (map (map_prod id wf_json) ps). valid_utf8 k \<and> b)"

primrec depth_json :: "json \<Rightarrow> nat" where
  "depth_json JNull = 0"
| "depth_json (JBool b) = 0"
| "depth_json (JNum s) = 0"
| "depth_json (JStr s) = 0"
| "depth_json (JArr vs) = Suc (foldr max (map depth_json vs) 0)"
| "depth_json (JObj ps) = Suc (foldr (\<lambda>(k, d). max d) (map (map_prod id depth_json) ps) 0)"

primrec toks :: "json \<Rightarrow> tok list" where
  "toks JNull = [TNull]"
| "toks (JBool b) = [if b then TTrue else TFalse]"
| "toks (JNum s) = [TNum s]"
| "toks (JStr s) = [TStr s]"
| "toks (JArr vs) = TLBrack # join [TComma] (map toks vs) @ [TRBrack]"
| "toks (JObj ps) = TLBrace # join [TComma]
     (map (\<lambda>(k, ts). TStr k # TColon # ts) (map (map_prod id toks) ps)) @ [TRBrace]"

definition at_delim :: "string \<Rightarrow> bool" where
  "at_delim t \<longleftrightarrow> t = [] \<or> hd t \<in> {CHR '','', CHR '']'', CHR ''}''}"

lemma list_all_num: "list_all is_digit s \<Longrightarrow> list_all num_char s"
  by (auto simp: num_char_def list_all_iff)

lemma num_exp: "valid_exp s \<Longrightarrow> list_all num_char s"
proof (cases s)
  case (Cons c cs)
  assume "valid_exp s"
  with Cons have c: "num_char c" and "list_all is_digit (snd (strip_sign cs))"
    by (auto simp: valid_exp_def num_char_def Let_def)
  then have "list_all num_char cs"
    by (cases cs) (auto simp: num_char_def list_all_iff split: if_splits)
  with c Cons show ?thesis by simp
qed simp

lemma num_takeWhile:
  "list_all num_char (dropWhile is_digit s) \<Longrightarrow> list_all num_char s"
proof -
  have "list_all num_char (takeWhile is_digit s)"
    by (rule list_all_num) (auto simp: list_all_iff dest: set_takeWhileD)
  then show "list_all num_char (dropWhile is_digit s) \<Longrightarrow> list_all num_char s"
    by (metis list_all_append takeWhile_dropWhile_id)
qed

lemma num_frac: "valid_frac s \<Longrightarrow> list_all num_char s"
proof (cases s)
  case (Cons c cs)
  assume "valid_frac s"
  with Cons have "(c = CHR ''.'' \<and> valid_exp (dropWhile is_digit cs)) \<or> valid_exp s"
    by (auto simp: valid_frac_def split: if_splits)
  then have "(c = CHR ''.'' \<and> list_all num_char cs) \<or> list_all num_char s"
    using num_exp num_takeWhile by blast
  with Cons show ?thesis by (auto simp: num_char_def)
qed simp

lemma valid_number_chars:
  assumes "valid_number s"
  obtains c cs where "s = c # cs" "is_digit c \<or> c = CHR ''-''" "list_all num_char cs"
proof (cases s)
  case Nil
  with assms show ?thesis by (simp add: valid_number_def)
next
  case (Cons c cs)
  define t where "t = (if c = CHR ''-'' then cs else c # cs)"
  have t: "takeWhile is_digit t \<noteq> []" "valid_frac (dropWhile is_digit t)"
    using assms by (simp_all add: Cons valid_number_def t_def Let_def split del: if_split)
  then have all: "list_all num_char t" using num_frac num_takeWhile by blast
  have "is_digit c \<or> c = CHR ''-''"
    using t(1) by (cases "is_digit c") (auto simp: t_def split: if_splits)
  moreover have "list_all num_char cs"
    using all Cons by (auto simp: t_def split: if_splits)
  ultimately show ?thesis using Cons that by blast
qed

lemma start_num:
  assumes "is_digit c \<or> c = CHR ''-''"
  shows "start c = Some ([], LNum [c])"
proof -
  have "\<forall>d \<in> set ''{}[]:, '' \<union> {CHR 0x09, CHR 0x0A, CHR 0x0D, CHR 0x22, CHR ''-''}. \<not> is_digit d"
    by code_simp
  with assms show ?thesis by (auto simp: start_def punct_def is_ws_def)
qed

lemma scan_num_chars:
  "list_all num_char u \<Longrightarrow> scan (LNum acc) (u @ t) = scan (LNum (rev u @ acc)) t"
  by (induction u arbitrary: acc) auto

lemma scan_number:
  assumes "valid_number s" and "at_delim t"
  shows "scan LBase (s @ t) = map_option ((#) (TNum s)) (scan LBase t)"
proof -
  obtain c cs where s: "s = c # cs" "is_digit c \<or> c = CHR ''-''" "list_all num_char cs"
    using assms(1) by (rule valid_number_chars)
  from s(2) have "start c = Some ([], LNum [c])" by (rule start_num)
  then have 1: "scan LBase (s @ t) = scan (LNum (rev s)) t"
    using s(1,3) by (simp add: scan_num_chars)
  have d: "\<not> num_char (CHR '','')" "\<not> num_char (CHR '']'')" "\<not> num_char (CHR ''}'')" by code_simp+
  show ?thesis
  proof (cases t)
    case Nil
    with 1 assms(1) show ?thesis by simp
  next
    case (Cons a as)
    with assms(2) have a: "a \<in> {CHR '','', CHR '']'', CHR ''}''}" by (simp add: at_delim_def)
    have "\<not> num_char a" using a d by auto
    moreover obtain b where "start a = Some ([b], LBase)"
      using a by (auto simp: start_def punct_def)
    ultimately show ?thesis using 1 Cons assms(1)
      by (cases "scan LBase as") auto
  qed
qed

lemma append_funs:
  "(@) (x # xs) = (\<lambda>z. x # xs @ z)" "(@) (xs @ ys) = (\<lambda>z. xs @ ys @ z)" "(@) [] = (\<lambda>z. z)"
  by (simp_all add: fun_eq_iff)

lemma scan_punct:
  assumes "punct c = Some t"
  shows "scan LBase (c # cs) = map_option ((#) t) (scan LBase cs)"
  using assms by (simp add: start_def append_funs)

lemma punct_chars:
  "punct (CHR '','') = Some TComma" "punct (CHR '']'') = Some TRBrack" "punct (CHR ''}'') = Some TRBrace"
  "punct (CHR ''['') = Some TLBrack" "punct (CHR ''{'') = Some TLBrace" "punct (CHR '':'') = Some TColon"
  by (simp_all add: punct_def)

lemmas scan_puncts = punct_chars [THEN scan_punct]

lemma scan_word:
  assumes "w \<in> {''null'', ''true'', ''false''}" and "at_delim t"
  shows "scan LBase (w @ t) = map_option ((#) (the (word_tok w))) (scan LBase t)"
proof -
  have st: "start (CHR ''n'') = Some ([], LWord ''n'')" "start (CHR ''t'') = Some ([], LWord ''t'')"
    "start (CHR ''f'') = Some ([], LWord ''f'')" by code_simp+
  have wc: "\<forall>c \<in> set ''nultruefase''. word_char c" "\<not> word_char (CHR '','')" "\<not> word_char (CHR '']'')"
    "\<not> word_char (CHR ''}'')" by code_simp+
  have 1: "scan LBase (w @ t) = scan (LWord (rev w)) t"
    using assms(1) st wc by auto
  have tok: "\<exists>k. word_tok w = Some k" using assms(1) by (auto simp: word_tok_def)
  show ?thesis
  proof (cases t)
    case Nil
    with 1 tok show ?thesis by auto
  next
    case (Cons a as)
    with assms(2) have a: "a \<in> {CHR '','', CHR '']'', CHR ''}''}" by (simp add: at_delim_def)
    have "\<not> word_char a" using a wc by auto
    moreover obtain b where "start a = Some ([b], LBase)"
      using a by (auto simp: start_def punct_def)
    ultimately show ?thesis using 1 Cons tok
      by (cases "scan LBase as") auto
  qed
qed

lemma delim_chars: "at_delim (CHR '','' # t)" "at_delim (CHR '']'' # t)" "at_delim (CHR ''}'' # t)"
  by (simp_all add: at_delim_def)

text \<open>Items separated by commas and closed by a bracket scan item by item.\<close>

lemma scan_join:
  assumes "\<And>x t. x \<in> set xs \<Longrightarrow> at_delim t \<Longrightarrow>
      scan LBase (f x @ t) = map_option ((@) (g x)) (scan LBase t)"
    and "punct c = Some k" and "c = CHR '']'' \<or> c = CHR ''}''"
  shows "scan LBase (join '','' (map f xs) @ c # t) =
      map_option ((@) (join [TComma] (map g xs) @ [k])) (scan LBase t)"
proof -
  have c: "scan LBase (c # t) = map_option ((#) k) (scan LBase t)" for t
    using assms(2) by (rule scan_punct)
  have dc: "at_delim (c # t)" for t using assms(3) delim_chars by auto
  have ?thesis if "xs \<noteq> []"
    using that assms(1)
  proof (induction xs rule: list_nonempty_induct)
    case (single x)
    then show ?case using c dc
      by (simp add: option.map_comp o_def append_funs)
  next
    case (cons x xs)
    then obtain y ys where xs: "xs = y # ys" by (cases xs) auto
    have "scan LBase (f x @ CHR '','' # join '','' (map f xs) @ c # t) =
        map_option ((@) (g x)) (scan LBase (CHR '','' # join '','' (map f xs) @ c # t))"
      using cons.prems delim_chars by simp
    also have "\<dots> = map_option ((@) (g x @ [TComma] @ join [TComma] (map g xs) @ [k])) (scan LBase t)"
      using cons scan_puncts(1) by (simp add: option.map_comp o_def append_funs)
    finally show ?case by (simp add: xs append_funs)
  qed
  then show ?thesis using c by (cases xs) (simp_all add: option.map_comp o_def append_funs)
qed

lemma scan_print:
  "wf_json j \<Longrightarrow> at_delim t \<Longrightarrow> scan LBase (print_json j @ t) = map_option ((@) (toks j)) (scan LBase t)"
proof (induction j arbitrary: t)
  case JNull
  then show ?case using scan_word [of "''null''" t] by (simp add: word_tok_def)
next
  case (JBool b)
  then show ?case using scan_word [of "''true''" t] scan_word [of "''false''" t]
    by (cases b) (simp_all add: word_tok_def)
next
  case (JNum s)
  then show ?case by (simp add: scan_number)
next
  case (JStr s)
  then show ?case by (simp add: scan_quote unquote_escape)
next
  case (JArr vs)
  have "scan LBase (join '','' (map print_json vs) @ CHR '']'' # t) =
      map_option ((@) (join [TComma] (map toks vs) @ [TRBrack])) (scan LBase t)"
    using JArr by (intro scan_join punct_chars) auto
  then show ?case using scan_puncts(4) by (simp add: option.map_comp o_def append_funs)
next
  case (JObj ps)
  let ?f = "\<lambda>(k, v). quote k @ CHR '':'' # print_json v"
  let ?g = "\<lambda>(k, v). TStr k # TColon # toks v"
  have "scan LBase (join '','' (map ?f ps) @ CHR ''}'' # t) =
      map_option ((@) (join [TComma] (map ?g ps) @ [TRBrace])) (scan LBase t)"
  proof (intro scan_join punct_chars)
    fix x t'
    assume x: "x \<in> set ps" and t': "at_delim (t' :: string)"
    obtain k v where kv: "x = (k, v)" by (cases x)
    have "valid_utf8 k" "wf_json v" using JObj.prems(1) x kv by auto
    moreover from this have "scan LBase (print_json v @ t') = map_option ((@) (toks v)) (scan LBase t')"
      using JObj.IH [of x v] x kv t' by simp
    ultimately show "scan LBase (?f x @ t') = map_option ((@) (?g x)) (scan LBase t')"
      using scan_puncts(6) by (simp add: kv scan_quote unquote_escape option.map_comp o_def append_funs)
  qed auto
  moreover have "print_json (JObj ps) = CHR ''{'' # join '','' (map ?f ps) @ ''}''"
    "toks (JObj ps) = TLBrace # join [TComma] (map ?g ps) @ [TRBrace]"
    by (simp_all add: o_def case_prod_unfold)
  ultimately show ?case using scan_puncts(5)
    by (simp add: option.map_comp o_def append_funs del: print_json.simps toks.simps)
qed


lemma toks_first: "\<exists>t ts. toks j = t # ts \<and> t \<noteq> TRBrack"
  by (cases j) auto

lemma join_Cons: "xs \<noteq> [] \<Longrightarrow> join sep (x # xs) = x @ sep @ join sep xs"
  by (cases xs) auto

lemma depth_member: "v \<in> set vs \<Longrightarrow> depth_json v \<le> foldr max (map depth_json vs) 0"
  by (induction vs) auto

lemma depth_obj_member:
  "(k, v) \<in> set ps \<Longrightarrow> depth_json v \<le> foldr (\<lambda>(k, d). max d) (map (map_prod id depth_json) ps) 0"
  by (induction ps) auto

lemma parse_items:
  assumes "\<And>v st ts. v \<in> set vs \<Longrightarrow> length st \<le> n \<Longrightarrow> parse PVal st (toks v @ ts) = parse (PAfter v) st ts"
    and "vs \<noteq> []" and "Suc (length st) \<le> n"
  shows "parse PVal (FArr acc # st) (join [TComma] (map toks vs) @ TRBrack # ts) =
    parse (PAfter (JArr (rev acc @ vs))) st ts"
  using assms(2,1)
proof (induction vs arbitrary: acc rule: list_nonempty_induct)
  case (single v)
  then show ?case using assms(3) by (simp add: parse_step_def after_step_def)
next
  case (cons v vs)
  have "parse PVal (FArr (v # acc) # st) (join [TComma] (map toks vs) @ TRBrack # ts) =
      parse (PAfter (JArr (rev (v # acc) @ vs))) st ts"
    using cons.prems by (intro cons.IH) auto
  then show ?case using cons assms(3)
    by (simp add: join_Cons parse_step_def after_step_def)
qed

lemma parse_members:
  assumes "\<And>k v st ts. (k, v) \<in> set ps \<Longrightarrow> length st \<le> n \<Longrightarrow> parse PVal st (toks v @ ts) = parse (PAfter v) st ts"
    and "ps \<noteq> []" and "Suc (length st) \<le> n"
  shows "parse (PKey acc) st (join [TComma] (map (\<lambda>(k, v). TStr k # TColon # toks v) ps) @ TRBrace # ts) =
    parse (PAfter (JObj (rev acc @ ps))) st ts"
  using assms(2,1)
proof (induction ps arbitrary: acc rule: list_nonempty_induct)
  case (single p)
  then show ?case using assms(3) by (cases p) (simp add: parse_step_def after_step_def)
next
  case (cons p ps)
  have "parse (PKey (p # acc)) st (join [TComma] (map (\<lambda>(k, v). TStr k # TColon # toks v) ps) @ TRBrace # ts) =
      parse (PAfter (JObj (rev (p # acc) @ ps))) st ts"
    using cons.prems by (intro cons.IH) auto
  moreover obtain k v where p: "p = (k, v)" by (cases p)
  moreover from p have "parse PVal (FObj acc k # st) (toks v @ us) = parse (PAfter v) (FObj acc k # st) us" for us
    using cons.prems assms(3) by (intro cons.prems [of k v]) auto
  ultimately show ?case using cons.hyps
    by (simp add: join_Cons parse_step_def after_step_def)
qed

lemma parse_toks:
  "depth_json j + length st \<le> max_depth \<Longrightarrow> parse PVal st (toks j @ ts) = parse (PAfter j) st ts"
proof (induction j arbitrary: st ts)
  case (JArr vs)
  let ?n = "max_depth - foldr max (map depth_json vs) 0"
  have IH: "parse PVal st' (toks v @ ts') = parse (PAfter v) st' ts'"
    if "v \<in> set vs" "length st' \<le> ?n" for v st' ts'
    using JArr.IH [OF that(1), of st' ts'] depth_member [OF that(1)] that(2) JArr.prems by simp
  have st: "length st < max_depth" "Suc (length st) \<le> ?n" using JArr.prems by simp_all
  show ?case
  proof (cases vs)
    case Nil
    with st show ?thesis by (simp add: parse_step_def value_step_def)
  next
    case (Cons w ws)
    obtain t us where t: "join [TComma] (map toks vs) = t # us" "t \<noteq> TRBrack"
      using toks_first [of w] Cons by (cases ws) auto
    have "parse PVal (FArr [] # st) (join [TComma] (map toks vs) @ TRBrack # ts) =
        parse (PAfter (JArr (rev [] @ vs))) st ts"
      using IH st(2) Cons by (intro parse_items) auto
    then show ?thesis using t st(1) by (simp add: parse_step_def value_step_def)
  qed
next
  case (JObj ps)
  let ?n = "max_depth - foldr (\<lambda>(k, d). max d) (map (map_prod id depth_json) ps) 0"
  have IH: "parse PVal st' (toks v @ ts') = parse (PAfter v) st' ts'"
    if "(k, v) \<in> set ps" "length st' \<le> ?n" for k v st' ts'
    using JObj.IH [OF that(1), of v st' ts'] depth_obj_member [OF that(1)] that(2) JObj.prems by simp
  have st: "length st < max_depth" "Suc (length st) \<le> ?n" using JObj.prems by simp_all
  have tk: "toks (JObj ps) = TLBrace # join [TComma] (map (\<lambda>(k, v). TStr k # TColon # toks v) ps) @ [TRBrace]"
    by (simp add: o_def case_prod_unfold)
  show ?case
  proof (cases ps)
    case Nil
    with st show ?thesis by (simp add: parse_step_def value_step_def)
  next
    case (Cons p qs)
    obtain k us where t: "join [TComma] (map (\<lambda>(k, v). TStr k # TColon # toks v) ps) = TStr k # us"
      using Cons by (cases p; cases qs) auto
    have "parse (PKey []) st (join [TComma] (map (\<lambda>(k, v). TStr k # TColon # toks v) ps) @ TRBrace # ts) =
        parse (PAfter (JObj (rev [] @ ps))) st ts"
      using IH st(2) Cons by (intro parse_members) auto
    then show ?thesis using t st(1)
      by (simp add: tk parse_step_def value_step_def del: toks.simps)
  qed
qed (simp_all add: parse_step_def value_step_def)

lemma unmarshal_print:
  assumes "wf_json j" and "depth_json j \<le> max_depth"
  shows "unmarshal (print_json j) = Some j"
proof -
  have "scan LBase (print_json j) = Some (toks j)"
    using scan_print [OF assms(1), of "[]"] by (simp add: at_delim_def)
  moreover have "parse PVal [] (toks j) = Some j"
    using parse_toks [of j "[]" "[]"] assms(2) by simp
  ultimately show ?thesis by (simp add: unmarshal_def)
qed

subsection \<open>Printed integers\<close>

lemma show_nat_zero: "hd (show_nat n) = CHR ''0'' \<Longrightarrow> n = 0"
proof (induction n rule: show_nat.induct)
  case (1 n)
  have z0: "digit_char 0 = CHR ''0''" by code_simp
  have z: "digit_char d = CHR ''0'' \<longleftrightarrow> d = 0" if "d < 10" for d
    using digit_val_char [OF that] digit_val_char [of 0] z0 by (metis zero_less_numeral)
  show ?case
  proof (cases "n < 10")
    case True
    with 1 z [of n] show ?thesis by (subst (asm) show_nat.simps) simp
  next
    case False
    with 1 have "n div 10 = 0" by (simp add: show_nat.simps [of n])
    with False show ?thesis by simp
  qed
qed

lemma show_nat_0: "show_nat 0 = ''0''"
  by code_simp

lemma valid_number_nat: "valid_number (show_nat n)"
proof -
  have all: "takeWhile is_digit (show_nat n) = show_nat n" "dropWhile is_digit (show_nat n) = []"
    using show_nat_digits [of n] by simp_all
  have "hd (show_nat n) \<noteq> CHR ''-''" using show_nat_hd_digit [of n] minus_not_digit by metis
  then have "(case show_nat n of [] \<Rightarrow> show_nat n | c # cs \<Rightarrow> if c = CHR ''-'' then cs else show_nat n) = show_nat n"
    by (cases "show_nat n") auto
  then show ?thesis
    using show_nat_zero [of n] unfolding valid_number_def Let_def
    by (simp only: all) (auto simp: valid_frac_def show_nat_0)
qed

lemma parse_uint_show: "parse_uint (show_nat (unat w)) = Some w"
proof -
  have "list_all is_digit (show_nat (unat w))" using show_nat_digits by (simp add: list_all_iff)
  moreover have "unat w < 2 ^ 64" using unsigned_less [of w] by simp
  ultimately show ?thesis by (simp add: parse_uint_def read_show_nat)
qed

lemma valid_utf8_ascii: "list_all ascii s \<Longrightarrow> valid_utf8 s"
  by (induction s) auto

end
