(* ===== verification/Auth.thy ===== *)
theory Auth
  imports GoJsonProps
begin

section \<open>Authentication: request contexts and the JWT middleware\<close>

text \<open>
  \<open>api-gateway/internal/auth/claims.go\<close> (the user and roles a request's context carries) and
  \<open>api-gateway/internal/middleware/authmiddleware.go\<close> (the middleware that puts them there).

  A \<open>ctx\<close> is the chain of values added by \<open>context.WithValue\<close>, innermost first. The JWT
  library is not part of the repository: \<open>jwt_parse\<close>, an argument of \<open>Handle\<close>, stands for
  \<open>jwt.Parse\<close> with the middleware's key function and options; it returns an error or a token.
\<close>

subsection \<open>claims.go\<close>

datatype context_key = UserIDKey | RolesKey

datatype context_val = CString string | CStrings "string list"

type_synonym ctx = "(context_key \<times> context_val) list"

definition WithUserID :: "ctx \<Rightarrow> string \<Rightarrow> ctx" where
  "WithUserID ctx i = (UserIDKey, CString i) # ctx"

definition WithRoles :: "ctx \<Rightarrow> string list \<Rightarrow> ctx" where
  "WithRoles ctx roles = (RolesKey, CStrings roles) # ctx"

definition UserIDFromCtx :: "ctx \<Rightarrow> string" where
  "UserIDFromCtx ctx = (case map_of ctx UserIDKey of Some (CString v) \<Rightarrow> v | _ \<Rightarrow> '''')"

definition RolesFromCtx :: "ctx \<Rightarrow> string list" where
  "RolesFromCtx ctx = (case map_of ctx RolesKey of Some (CStrings v) \<Rightarrow> v | _ \<Rightarrow> [])"

fun has_role_in :: "string list \<Rightarrow> string \<Rightarrow> bool" where
  "has_role_in [] role = False"
| "has_role_in (r # rs) role = (if r = role then True else has_role_in rs role)"

definition HasRole :: "ctx \<Rightarrow> string \<Rightarrow> bool" where
  "HasRole ctx role = has_role_in (RolesFromCtx ctx) role"

lemma has_role_in_set [simp]: "has_role_in rs role \<longleftrightarrow> role \<in> set rs"
  by (induction rs) auto

lemma HasRole_iff: "HasRole ctx role \<longleftrightarrow> role \<in> set (RolesFromCtx ctx)"
  by (simp add: HasRole_def)

lemma context_simps [simp]:
  "UserIDFromCtx (WithUserID ctx u) = u"
  "UserIDFromCtx (WithRoles ctx rs) = UserIDFromCtx ctx"
  "RolesFromCtx (WithRoles ctx rs) = rs"
  "RolesFromCtx (WithUserID ctx u) = RolesFromCtx ctx"
  by (simp_all add: UserIDFromCtx_def RolesFromCtx_def WithUserID_def WithRoles_def)

subsection \<open>authmiddleware.go\<close>

record http_response =
  rs_status :: nat
  rs_content_type :: string
  rs_body :: string

type_synonym 'w http_handler = "ctx \<Rightarrow> 'w \<Rightarrow> http_response \<times> 'w"

datatype token_claims = MapClaims "(string \<times> gval) list" | OtherClaims

record token =
  tok_Valid :: bool
  tok_Claims :: token_claims

text \<open>The argument is the value of \<open>r.Header.Get("Authorization")\<close>, empty if absent.\<close>

definition bearerToken :: "string \<Rightarrow> string" where
  "bearerToken h = (if has_prefix h ''Bearer '' then drop 7 h else '''')"

fun role_strings :: "gval list \<Rightarrow> string list" where
  "role_strings [] = []"
| "role_strings (GStr s # rs) = s # role_strings rs"
| "role_strings (_ # rs) = role_strings rs"

definition realmRoles :: "(string \<times> gval) list \<Rightarrow> string list" where
  "realmRoles claims = (case map_of claims ''realm_access'' of
      Some (GMap ra) \<Rightarrow> (case map_of ra ''roles'' of
          Some (GArr raw) \<Rightarrow> role_strings raw | _ \<Rightarrow> [])
    | _ \<Rightarrow> [])"

definition writeUnauthorized :: "string \<Rightarrow> http_response" where
  \<open>writeUnauthorized msg = \<lparr>rs_status = 401, rs_content_type = ''application/json'',
     rs_body = ''{"code":401,"message":"'' @ msg @ ''"}''\<rparr>\<close>

text \<open>\<open>kf\<close> is the fetched key set, absent when its initialisation failed.\<close>

definition NewJWTMiddleware :: "error + 'k \<Rightarrow> 'k option" where
  "NewJWTMiddleware fetched = (case fetched of Inl e \<Rightarrow> None | Inr k \<Rightarrow> Some k)"

definition Handle :: "('k \<Rightarrow> string \<Rightarrow> error + token) \<Rightarrow> 'k option \<Rightarrow> 'w http_handler \<Rightarrow> string \<Rightarrow> 'w http_handler" where
  "Handle jwt_parse kf nxt authorization ctx w =
     (let tokenStr = bearerToken authorization
      in if tokenStr = '''' then (writeUnauthorized ''missing token'', w)
         else case kf of
           None \<Rightarrow> (writeUnauthorized ''auth service unavailable'', w)
         | Some k \<Rightarrow> (case jwt_parse k tokenStr of
             Inl e \<Rightarrow> (writeUnauthorized ''invalid token'', w)
           | Inr token \<Rightarrow>
               if \<not> tok_Valid token then (writeUnauthorized ''invalid token'', w)
               else (case tok_Claims token of
                   OtherClaims \<Rightarrow> (writeUnauthorized ''invalid claims'', w)
                 | MapClaims claims \<Rightarrow>
                     let userID = (case map_of claims ''sub'' of Some (GStr s) \<Rightarrow> s | _ \<Rightarrow> '''');
                         roles = realmRoles claims;
                         ctx1 = WithUserID ctx userID;
                         ctx2 = WithRoles ctx1 roles
                     in nxt ctx2 w)))"

subsection \<open>Only authenticated requests pass\<close>

definition claims_user :: "(string \<times> gval) list \<Rightarrow> string" where
  "claims_user claims = (case map_of claims ''sub'' of Some (GStr s) \<Rightarrow> s | _ \<Rightarrow> '''')"

definition claims_roles :: "(string \<times> gval) list \<Rightarrow> string set" where
  "claims_roles claims = {r. \<exists>ra raw. map_of claims ''realm_access'' = Some (GMap ra) \<and>
     map_of ra ''roles'' = Some (GArr raw) \<and> GStr r \<in> set raw}"

lemma set_role_strings: "r \<in> set (role_strings raw) \<longleftrightarrow> GStr r \<in> set raw"
  by (induction raw rule: role_strings.induct) auto

lemma set_realmRoles: "set (realmRoles claims) = claims_roles claims"
proof -
  have "r \<in> set (realmRoles claims) \<longleftrightarrow> r \<in> claims_roles claims" for r
    unfolding realmRoles_def claims_roles_def
    by (auto simp: set_role_strings split: option.splits gval.splits; metis)
  then show ?thesis by blast
qed

lemma bearerToken_iff: "bearerToken h = t \<and> t \<noteq> '''' \<longleftrightarrow> h = ''Bearer '' @ t \<and> t \<noteq> ''''"
  by (auto simp: bearerToken_def has_prefix_iff)

text \<open>The request is accepted with these claims.\<close>

definition accepted :: "('k \<Rightarrow> string \<Rightarrow> error + token) \<Rightarrow> 'k option \<Rightarrow> string \<Rightarrow> (string \<times> gval) list \<Rightarrow> bool" where
  "accepted jwt_parse kf authorization claims \<longleftrightarrow>
     (\<exists>k t token. kf = Some k \<and> t \<noteq> '''' \<and> authorization = ''Bearer '' @ t \<and>
        jwt_parse k t = Inr token \<and> tok_Valid token \<and> tok_Claims token = MapClaims claims)"

lemma Handle_accepted:
  assumes "accepted jwt_parse kf authorization claims"
  shows "Handle jwt_parse kf nxt authorization ctx w =
    nxt (WithRoles (WithUserID ctx (claims_user claims)) (realmRoles claims)) w"
proof -
  obtain k t token where h: "kf = Some k" "t \<noteq> ''''" "authorization = ''Bearer '' @ t"
    "jwt_parse k t = Inr token" "tok_Valid token" "tok_Claims token = MapClaims claims"
    using assms by (auto simp: accepted_def)
  then have "bearerToken authorization = t" using bearerToken_iff by blast
  with h show ?thesis by (simp add: Handle_def claims_user_def Let_def)
qed

lemma Handle_rejected:
  assumes "\<nexists>claims. accepted jwt_parse kf authorization claims"
  shows "\<exists>msg. Handle jwt_parse kf nxt authorization ctx w = (writeUnauthorized msg, w)"
proof -
  define t where "t = bearerToken authorization"
  have a: "authorization = ''Bearer '' @ t" if "t \<noteq> ''''"
    using that bearerToken_iff t_def by blast
  show ?thesis
  proof (cases kf)
    case None
    then show ?thesis by (auto simp: Handle_def Let_def)
  next
    case (Some k)
    show ?thesis
    proof (cases "jwt_parse k t")
      case (Inl e)
      with Some show ?thesis by (auto simp: Handle_def t_def [symmetric] Let_def)
    next
      case (Inr token)
      have "t = '''' \<or> \<not> tok_Valid token \<or> tok_Claims token = OtherClaims"
        using assms a Some Inr by (cases "tok_Claims token") (auto simp: accepted_def)
      with Some Inr show ?thesis by (auto simp: Handle_def t_def [symmetric] Let_def)
    qed
  qed
qed

text \<open>C28: the protected handler runs exactly for a request whose \<open>Authorization\<close> header is
  \<open>Bearer t\<close> with a token \<open>t\<close> that the JWT library accepts as valid with map claims, and then in
  a context whose user is the token's \<open>sub\<close> and whose roles are the strings under
  \<open>realm_access.roles\<close>; any other request gets a 401 response and changes nothing.\<close>

theorem middleware_authenticates:
  "(accepted jwt_parse kf authorization claims \<longrightarrow>
      (\<exists>ctx'. Handle jwt_parse kf nxt authorization ctx w = nxt ctx' w \<and>
         UserIDFromCtx ctx' = claims_user claims \<and>
         (\<forall>role. HasRole ctx' role = (role \<in> claims_roles claims)))) \<and>
   ((\<nexists>c. accepted jwt_parse kf authorization c) \<longrightarrow>
      (\<exists>msg. Handle jwt_parse kf nxt authorization ctx w = (writeUnauthorized msg, w)))"
proof (intro conjI impI)
  assume "accepted jwt_parse kf authorization claims"
  then have "Handle jwt_parse kf nxt authorization ctx w =
    nxt (WithRoles (WithUserID ctx (claims_user claims)) (realmRoles claims)) w"
    by (rule Handle_accepted)
  then show "\<exists>ctx'. Handle jwt_parse kf nxt authorization ctx w = nxt ctx' w \<and>
         UserIDFromCtx ctx' = claims_user claims \<and>
         (\<forall>role. HasRole ctx' role = (role \<in> claims_roles claims))"
    by (intro exI conjI allI, assumption) (simp_all add: HasRole_iff set_realmRoles)
next
  assume "\<nexists>c. accepted jwt_parse kf authorization c"
  then show "\<exists>msg. Handle jwt_parse kf nxt authorization ctx w = (writeUnauthorized msg, w)"
    by (rule Handle_rejected)
qed

theorem middleware_authenticates_witness:
  "(\<exists>ctx'. Handle (\<lambda>k t. Inr \<lparr>tok_Valid = True, tok_Claims = MapClaims [(''sub'', GStr ''u1'')]\<rparr>) (Some ())
       (\<lambda>ctx w. (writeUnauthorized (UserIDFromCtx ctx), w)) ''Bearer x'' [] (0 :: nat) =
         (writeUnauthorized (UserIDFromCtx ctx'), 0) \<and> UserIDFromCtx ctx' = ''u1'') \<and>
   (\<exists>msg. Handle (\<lambda>k t. Inl ''expired'' :: error + token) (Some ())
       (\<lambda>ctx w. (writeUnauthorized (UserIDFromCtx ctx), w)) ''Bearer x'' [] (0 :: nat) = (writeUnauthorized msg, 0))"
proof -
  have "accepted (\<lambda>k t. Inr \<lparr>tok_Valid = True, tok_Claims = MapClaims [(''sub'', GStr ''u1'')]\<rparr>) (Some ()) ''Bearer x''
      [(''sub'', GStr ''u1'')]"
    by (auto simp: accepted_def)
  moreover have "claims_user [(''sub'', GStr ''u1'')] = ''u1''" by (simp add: claims_user_def)
  moreover have "\<nexists>c. accepted (\<lambda>k t. Inl ''expired'' :: error + token) (Some ()) ''Bearer x'' c"
    by (simp add: accepted_def)
  ultimately show ?thesis
    using middleware_authenticates [of "\<lambda>k t. Inr \<lparr>tok_Valid = True, tok_Claims = MapClaims [(''sub'', GStr ''u1'')]\<rparr>"
        "Some ()" "''Bearer x''" "[(''sub'', GStr ''u1'')]" "\<lambda>ctx w. (writeUnauthorized (UserIDFromCtx ctx), w)" "[]" "0 :: nat"]
      middleware_authenticates [of "\<lambda>k t. Inl ''expired'' :: error + token" "Some ()" "''Bearer x''" "[]"
        "\<lambda>ctx w. (writeUnauthorized (UserIDFromCtx ctx), w)" "[]" "0 :: nat"]
    by auto
qed

end
