(* ===== verification/Store.thy ===== *)
theory Store
  imports GoJsonProps
begin

section \<open>The services' shared state: PostgreSQL tables, Redis, RabbitMQ\<close>

text \<open>
  The state the three services share, and the calls by which they read and write it.

  \<^item> \<open>Workflow\<close>, \<open>Execution\<close>, \<open>StepLog\<close>: the rows of \<open>api-gateway/model/models.go\<close>. The
    structs of \<open>execution-engine/internal/model/models.go\<close> and of
    \<open>scheduler-service/cron/scheduler.go\<close> are projections of the same tables. Of
    \<open>gorm.Model\<close> the rows keep \<open>ID\<close> and \<open>DeletedAt\<close>; \<open>CreatedAt\<close> and \<open>UpdatedAt\<close> are
    written by gorm and read by no code of the repository.
  \<^item> \<open>table\<close>: a table, its rows in insertion order under their primary keys (a PostgreSQL
    bigint, positive), and the next value of its key sequence.
  \<^item> \<open>db_first\<close>, \<open>db_find\<close>, \<open>db_create\<close>, \<open>db_updates\<close>, \<open>db_delete\<close>: what the code relies
    on of gorm. Each takes, as its first argument, the failure the database reports in this
    call, if any: the failures are inputs of the model, so that a theorem over all of them
    covers every combination of failing calls.
  \<^item> \<open>world\<close>: the tables, the Redis cache and the log of what was published on the Redis
    channels and on the RabbitMQ exchanges.

  A soft-deleted row stays in its table and is invisible to \<open>First\<close>, \<open>Find\<close> and
  \<open>Updates\<close>.
\<close>

subsection \<open>Rows\<close>

record workflow =
  wf_ID :: uint64
  wf_DeletedAt :: "time option"
  wf_UserID :: string
  wf_Name :: string
  wf_TriggerType :: string
  wf_TriggerConfig :: string
  wf_Steps :: string
  wf_IsActive :: bool

record execution =
  ex_ID :: uint64
  ex_DeletedAt :: "time option"
  ex_WorkflowID :: uint64
  ex_Status :: string
  ex_StartedAt :: time
  ex_FinishedAt :: "time option"
  ex_TriggerPayload :: string

record step_log =
  sl_ID :: uint64
  sl_ExecutionID :: uint64
  sl_StepID :: string
  sl_StepType :: string
  sl_Status :: string
  sl_Input :: string
  sl_Output :: string
  sl_Error :: string
  sl_DurationMs :: int64

definition live_wf :: "workflow \<Rightarrow> bool" where
  "live_wf w \<longleftrightarrow> wf_DeletedAt w = None"

definition live_ex :: "execution \<Rightarrow> bool" where
  "live_ex e \<longleftrightarrow> ex_DeletedAt e = None"

subsection \<open>Tables\<close>

record 'r table =
  rows :: "(int \<times> 'r) list"
  next_key :: int

definition empty_table :: "'r table" where
  "empty_table = \<lparr>rows = [], next_key = 1\<rparr>"

definition lookup :: "'r table \<Rightarrow> int \<Rightarrow> 'r option" where
  "lookup t k = map_of (rows t) k"

definition insert_row :: "(uint64 \<Rightarrow> 'r) \<Rightarrow> 'r table \<Rightarrow> 'r table" where
  "insert_row mk t = t\<lparr>rows := rows t @ [(next_key t, mk (word_of_int (next_key t)))],
                       next_key := next_key t + 1\<rparr>"

definition modify_row :: "int \<Rightarrow> ('r \<Rightarrow> 'r) \<Rightarrow> 'r table \<Rightarrow> 'r table" where
  "modify_row k f t = t\<lparr>rows := map (\<lambda>(i, r). (i, if i = k then f r else r)) (rows t)\<rparr>"

text \<open>The key sequence of a \<open>bigserial\<close> column ends at its largest value.\<close>

definition key_limit :: int where
  "key_limit = 2 ^ 63"

definition table_ok :: "('r \<Rightarrow> uint64) \<Rightarrow> 'r table \<Rightarrow> bool" where
  "table_ok key t \<longleftrightarrow> distinct (map fst (rows t)) \<and> 1 \<le> next_key t \<and> next_key t \<le> key_limit \<and>
     (\<forall>(k, r) \<in> set (rows t). 1 \<le> k \<and> k < next_key t \<and> key r = word_of_int k)"

subsection \<open>gorm\<close>

datatype db_error = RecordNotFound | DbError error

fun db_message :: "db_error \<Rightarrow> error" where
  "db_message RecordNotFound = ''record not found''"
| "db_message (DbError e) = e"

text \<open>\<open>db.First(&r, key)\<close>\<close>

definition db_first :: "error option \<Rightarrow> ('r \<Rightarrow> bool) \<Rightarrow> 'r table \<Rightarrow> int \<Rightarrow> db_error + 'r" where
  "db_first fault live t k = (case fault of
      Some e \<Rightarrow> Inl (DbError e)
    | None \<Rightarrow> (case lookup t k of
        Some r \<Rightarrow> if live r then Inr r else Inl RecordNotFound
      | None \<Rightarrow> Inl RecordNotFound))"

text \<open>
  \<open>db.Where(cond).Find(&rs)\<close>. Without an \<open>ORDER BY\<close> PostgreSQL returns the rows in an order
  of its own: the argument \<open>order\<close> rearranges them.
\<close>

definition db_find :: "error option \<Rightarrow> ('r list \<Rightarrow> 'r list) \<Rightarrow> ('r \<Rightarrow> bool) \<Rightarrow> 'r table \<Rightarrow> error + 'r list" where
  "db_find fault order cond t = (case fault of
      Some e \<Rightarrow> Inl e
    | None \<Rightarrow> Inr (order (filter cond (map snd (rows t)))))"

text \<open>\<open>db.Create(&r)\<close>: the new row's key and the table with it.\<close>

definition db_create :: "error option \<Rightarrow> (uint64 \<Rightarrow> 'r) \<Rightarrow> 'r table \<Rightarrow> error + uint64 \<times> 'r table" where
  "db_create fault mk t = (case fault of
      Some e \<Rightarrow> Inl e
    | None \<Rightarrow> if next_key t < key_limit then Inr (word_of_int (next_key t), insert_row mk t)
        else Inl ''nextval: reached maximum value of sequence'')"

text \<open>\<open>db.Model(&r).Updates(m)\<close>, on the row of key \<open>k\<close> unless it is soft-deleted.\<close>

definition db_updates :: "error option \<Rightarrow> ('r \<Rightarrow> bool) \<Rightarrow> int \<Rightarrow> ('r \<Rightarrow> 'r) \<Rightarrow> 'r table \<Rightarrow> error + 'r table" where
  "db_updates fault live k f t = (case fault of
      Some e \<Rightarrow> Inl e
    | None \<Rightarrow> Inr (modify_row k (\<lambda>r. if live r then f r else r) t))"

text \<open>The key of a row as the database sees it.\<close>

definition db_key :: "uint64 \<Rightarrow> int" where
  "db_key w = uint w"

subsection \<open>The shared state\<close>

record database =
  workflows :: "workflow table"
  executions :: "execution table"
  step_logs :: "step_log table"

text \<open>The values of an AMQP table.\<close>

datatype amqp_val = AStr string | AInt32 "32 word" | AInt64 int64
  | AList "amqp_val list" | ATable "(string \<times> amqp_val) list" | AOther

type_synonym amqp_table = "(string \<times> amqp_val) list"

text \<open>A message published on RabbitMQ: the exchange, the routing key, the headers, the body.\<close>

record publishing =
  pub_exchange :: string
  pub_key :: string
  pub_headers :: amqp_table
  pub_body :: string

text \<open>
  The Redis cache maps a key to its value and the time to live it was set with: an entry can
  disappear at any time (\<open>cache_expire\<close>).
\<close>

record world =
  db :: database
  cache :: "string \<rightharpoonup> string \<times> int"
  pubsub :: "(string \<times> string) list"
  mq :: "publishing list"

definition cache_expire :: "string \<Rightarrow> world \<Rightarrow> world" where
  "cache_expire k w = w\<lparr>cache := (cache w)(k := None)\<rparr>"

definition empty_world :: world where
  "empty_world = \<lparr>db = \<lparr>workflows = empty_table, executions = empty_table, step_logs = empty_table\<rparr>,
     cache = Map.empty, pubsub = [], mq = []\<rparr>"

text \<open>
  The state's well-formedness: each table's keys are distinct, positive, below its sequence,
  and stored in the rows; an execution refers to a workflow row, a step log to an execution
  row.
\<close>

definition refs_ok :: "database \<Rightarrow> bool" where
  "refs_ok d \<longleftrightarrow>
     (\<forall>(k, e) \<in> set (rows (executions d)). lookup (workflows d) (db_key (ex_WorkflowID e)) \<noteq> None) \<and>
     (\<forall>(k, l) \<in> set (rows (step_logs d)). lookup (executions d) (db_key (sl_ExecutionID l)) \<noteq> None)"

definition db_ok :: "database \<Rightarrow> bool" where
  "db_ok d \<longleftrightarrow> table_ok wf_ID (workflows d) \<and> table_ok ex_ID (executions d) \<and>
     table_ok sl_ID (step_logs d) \<and> refs_ok d"

subsection \<open>The interface of a table\<close>

text \<open>
  What the services use of a table: a lookup by key, an insertion under a fresh key, a
  modification of one row, and a well-formedness that both keep.
\<close>

locale row_store =
  fixes look :: "'t \<Rightarrow> int \<Rightarrow> 'r option"
    and ins :: "(uint64 \<Rightarrow> 'r) \<Rightarrow> 't \<Rightarrow> 't"
    and upd :: "int \<Rightarrow> ('r \<Rightarrow> 'r) \<Rightarrow> 't \<Rightarrow> 't"
    and fresh :: "'t \<Rightarrow> int"
    and ok :: "'t \<Rightarrow> bool"
    and key :: "'r \<Rightarrow> uint64"
  assumes look_fresh: "ok t \<Longrightarrow> look t (fresh t) = None"
    and look_ins: "ok t \<Longrightarrow> look (ins mk t) k = (if k = fresh t then Some (mk (word_of_int k)) else look t k)"
    and look_upd: "look (upd k f t) j = (if j = k then map_option f (look t j) else look t j)"
    and look_key: "ok t \<Longrightarrow> look t k = Some r \<Longrightarrow> db_key (key r) = k \<and> 1 \<le> k \<and> k < fresh t"
    and ok_ins: "ok t \<Longrightarrow> fresh t < key_limit \<Longrightarrow> (\<And>w. key (mk w) = w) \<Longrightarrow> ok (ins mk t)"
    and ok_upd: "ok t \<Longrightarrow> (\<And>r. key (f r) = key r) \<Longrightarrow> ok (upd k f t)"
begin

lemma look_ins_old: "ok t \<Longrightarrow> look t k \<noteq> None \<Longrightarrow> look (ins mk t) k = look t k"
  using look_fresh by (auto simp: look_ins)

lemma look_ins_some: "ok t \<Longrightarrow> look t k = Some r \<Longrightarrow> look (ins mk t) k = Some r"
  using look_ins_old by simp

lemma look_upd_same: "look t k = Some r \<Longrightarrow> look (upd k f t) k = Some (f r)"
  by (simp add: look_upd)

lemma look_upd_other: "j \<noteq> k \<Longrightarrow> look (upd k f t) j = look t j"
  by (simp add: look_upd)

lemma look_upd_None [simp]: "look (upd k f t) j = None \<longleftrightarrow> look t j = None"
  by (simp add: look_upd)

lemma look_inj:
  assumes "ok t" and "look t i = Some r" and "look t j = Some s" and "key r = key s"
  shows "i = j"
  using look_key [OF assms(1,2)] look_key [OF assms(1,3)] assms(4) by simp

end

lemma db_key_word: "1 \<le> k \<Longrightarrow> k < key_limit \<Longrightarrow> db_key (word_of_int k) = k"
  by (simp add: db_key_def key_limit_def uint_word_of_int)

lemma map_of_append_fresh: "k \<notin> fst ` set xs \<Longrightarrow> map_of (xs @ [(k, r)]) j = (if j = k then Some r else map_of xs j)"
  by (induction xs) (auto simp: map_of_eq_None_iff)

interpretation rs: row_store lookup insert_row modify_row next_key "table_ok key" key
  for key :: "'r \<Rightarrow> uint64"
proof
  fix t :: "'r table" and k j :: int and mk :: "uint64 \<Rightarrow> 'r" and f :: "'r \<Rightarrow> 'r" and r :: 'r
  assume ok: "table_ok key t"
  have new: "next_key t \<notin> fst ` set (rows t)"
    using ok by (auto simp: table_ok_def)
  then show "lookup t (next_key t) = None"
    by (simp add: lookup_def map_of_eq_None_iff)
  from new show "lookup (insert_row mk t) k = (if k = next_key t then Some (mk (word_of_int k)) else lookup t k)"
    by (simp add: lookup_def insert_row_def map_of_append_fresh del: map_of_append)
  show "db_key (key r) = k \<and> 1 \<le> k \<and> k < next_key t" if "lookup t k = Some r"
    using map_of_SomeD [of "rows t" k r] that ok
    by (auto simp: lookup_def table_ok_def db_key_word)
  show "table_ok key (insert_row mk t)" if "next_key t < key_limit" "\<And>w. key (mk w) = w"
    using ok new that by (auto simp: table_ok_def insert_row_def)
  show "table_ok key (modify_row k f t)" if "\<And>r. key (f r) = key r"
  proof -
    have "map fst (rows (modify_row k f t)) = map fst (rows t)"
      by (auto simp: modify_row_def)
    then have "distinct (map fst (rows (modify_row k f t)))"
      using ok by (simp add: table_ok_def)
    moreover have "\<forall>(i, r) \<in> set (rows (modify_row k f t)). 1 \<le> i \<and> i < next_key t \<and> key r = word_of_int i"
      using ok that by (auto simp: table_ok_def modify_row_def)
    ultimately show ?thesis using ok by (simp add: table_ok_def modify_row_def)
  qed
next
  fix t :: "'r table" and k j :: int and f :: "'r \<Rightarrow> 'r"
  show "lookup (modify_row k f t) j = (if j = k then map_option f (lookup t j) else lookup t j)"
    by (simp add: lookup_def modify_row_def map_of_map_snd [where f = "\<lambda>i r. if i = k then f r else r"])
       (cases "map_of (rows t) j"; simp)
qed

lemma lookup_row: "table_ok key (t :: 'r table) \<Longrightarrow> (k, r) \<in> set (rows t) \<longleftrightarrow> lookup t k = Some r"
  by (auto simp: table_ok_def lookup_def dest: map_of_SomeD)

subsection \<open>The calls keep the database well-formed\<close>

lemma lookup_key_eq:
  "table_ok key (t :: 'r table) \<Longrightarrow> lookup t k = Some r \<Longrightarrow> db_key (key r) = k"
  by (rule rs.look_key [THEN conjunct1])

lemma db_firstD:
  assumes "db_first f live t k = Inr r"
  shows "lookup t k = Some r" "live r" "f = None"
  using assms by (auto simp: db_first_def split: option.splits if_splits)

lemma db_first_None:
  "db_first None live t k = (case lookup t k of
      Some r \<Rightarrow> if live r then Inr r else Inl RecordNotFound | None \<Rightarrow> Inl RecordNotFound)"
  by (simp add: db_first_def)

lemma lookup_range: "table_ok key (t :: 'r table) \<Longrightarrow> r \<in> snd ` set (rows t) \<longleftrightarrow> (\<exists>k. lookup t k = Some r)"
  using lookup_row by force

lemma row_sint:
  assumes t: "table_ok key (t :: 'r table)" and l: "lookup t k = Some r"
  shows "sint (key r) = k"
proof -
  have k: "db_key (key r) = k" "1 \<le> k" "k < next_key t" "next_key t \<le> key_limit"
    using rs.look_key [OF t l] t by (auto simp: table_ok_def)
  then have "key r = word_of_int k" by (metis db_key_def word_of_int_uint)
  then show ?thesis using k by (simp add: key_limit_def sint_sbintrunc' signed_take_bit_int_eq_self)
qed

lemma new_sint:
  assumes t: "table_ok key (t :: 'r table)" and c: "db_create f mk t = Inr (i, t')"
  shows "sint i = next_key t"
  using c t by (auto simp: db_create_def table_ok_def key_limit_def sint_sbintrunc' signed_take_bit_int_eq_self
      split: option.splits if_splits)

lemma refs_okD:
  assumes "db_ok d"
  shows "lookup (executions d) k = Some e \<Longrightarrow> lookup (workflows d) (db_key (ex_WorkflowID e)) \<noteq> None"
    and "lookup (step_logs d) k = Some l \<Longrightarrow> lookup (executions d) (db_key (sl_ExecutionID l)) \<noteq> None"
  using assms by (auto simp: db_ok_def refs_ok_def lookup_def dest!: map_of_SomeD)

lemma refs_okI:
  assumes "table_ok ex_ID (executions d)" and "table_ok sl_ID (step_logs d)"
    and "\<And>k e. lookup (executions d) k = Some e \<Longrightarrow> lookup (workflows d) (db_key (ex_WorkflowID e)) \<noteq> None"
    and "\<And>k l. lookup (step_logs d) k = Some l \<Longrightarrow> lookup (executions d) (db_key (sl_ExecutionID l)) \<noteq> None"
  shows "refs_ok d"
  using assms(3,4) unfolding refs_ok_def lookup_row [OF assms(1), symmetric] lookup_row [OF assms(2), symmetric]
  by blast

lemma db_createD:
  assumes "db_create f mk t = Inr (w, t')"
  shows "w = word_of_int (next_key t)" "t' = insert_row mk t" "next_key t < key_limit"
  using assms by (auto simp: db_create_def split: option.splits if_splits)

lemma db_ok_create_workflow:
  assumes ok: "db_ok d" and c: "db_create f mk (workflows d) = Inr (w, t')"
    and id: "\<And>w. wf_ID (mk w) = w"
  shows "db_ok (d\<lparr>workflows := t'\<rparr>)"
proof -
  note [simp] = db_createD [OF c]
  have t: "table_ok wf_ID (workflows d)" "table_ok ex_ID (executions d)" "table_ok sl_ID (step_logs d)"
    using ok by (auto simp: db_ok_def)
  have "table_ok wf_ID (insert_row mk (workflows d))"
    using t(1) id db_createD(3) [OF c] by (intro rs.ok_ins) auto
  moreover have "refs_ok (d\<lparr>workflows := insert_row mk (workflows d)\<rparr>)"
    using t refs_okD [OF ok] by (intro refs_okI) (auto simp: rs.look_ins [OF t(1)])
  ultimately show ?thesis using t by (simp add: db_ok_def)
qed

lemma db_ok_create_execution:
  assumes ok: "db_ok d" and c: "db_create f mk (executions d) = Inr (w, t')"
    and id: "\<And>w. ex_ID (mk w) = w" and wf: "\<And>w. ex_WorkflowID (mk w) = wid"
    and ex: "lookup (workflows d) (db_key wid) \<noteq> None"
  shows "db_ok (d\<lparr>executions := t'\<rparr>)"
proof -
  note [simp] = db_createD [OF c]
  have t: "table_ok wf_ID (workflows d)" "table_ok ex_ID (executions d)" "table_ok sl_ID (step_logs d)"
    using ok by (auto simp: db_ok_def)
  have "table_ok ex_ID (insert_row mk (executions d))"
    using t(2) id db_createD(3) [OF c] by (intro rs.ok_ins) auto
  moreover from this have "refs_ok (d\<lparr>executions := insert_row mk (executions d)\<rparr>)"
    using t refs_okD [OF ok] ex wf
    by (intro refs_okI) (auto simp: rs.look_ins [OF t(2)] split: if_splits)
  ultimately show ?thesis using t by (simp add: db_ok_def)
qed

lemma db_ok_create_step_log:
  assumes ok: "db_ok d" and c: "db_create f mk (step_logs d) = Inr (w, t')"
    and id: "\<And>w. sl_ID (mk w) = w" and ref: "\<And>w. sl_ExecutionID (mk w) = xid"
    and ex: "lookup (executions d) (db_key xid) \<noteq> None"
  shows "db_ok (d\<lparr>step_logs := t'\<rparr>)"
proof -
  note [simp] = db_createD [OF c]
  have t: "table_ok wf_ID (workflows d)" "table_ok ex_ID (executions d)" "table_ok sl_ID (step_logs d)"
    using ok by (auto simp: db_ok_def)
  have "table_ok sl_ID (insert_row mk (step_logs d))"
    using t(3) id db_createD(3) [OF c] by (intro rs.ok_ins) auto
  moreover from this have "refs_ok (d\<lparr>step_logs := insert_row mk (step_logs d)\<rparr>)"
    using t refs_okD [OF ok] ex ref
    by (intro refs_okI) (auto simp: rs.look_ins [OF t(3)] split: if_splits)
  ultimately show ?thesis using t by (simp add: db_ok_def)
qed

lemma db_ok_modify_workflow:
  assumes ok: "db_ok d" and id: "\<And>r. wf_ID (f r) = wf_ID r"
  shows "db_ok (d\<lparr>workflows := modify_row k f (workflows d)\<rparr>)"
proof -
  have t: "table_ok wf_ID (workflows d)" "table_ok ex_ID (executions d)" "table_ok sl_ID (step_logs d)"
    using ok by (auto simp: db_ok_def)
  have "refs_ok (d\<lparr>workflows := modify_row k f (workflows d)\<rparr>)"
    using t refs_okD [OF ok] by (intro refs_okI) auto
  then show ?thesis using t id by (simp add: db_ok_def rs.ok_upd)
qed

lemma db_ok_modify_execution:
  assumes ok: "db_ok d" and id: "\<And>r. ex_ID (f r) = ex_ID r"
    and wf: "\<And>r. ex_WorkflowID (f r) = ex_WorkflowID r"
  shows "db_ok (d\<lparr>executions := modify_row k f (executions d)\<rparr>)"
proof -
  have t: "table_ok wf_ID (workflows d)" "table_ok ex_ID (executions d)" "table_ok sl_ID (step_logs d)"
    using ok by (auto simp: db_ok_def)
  have t': "table_ok ex_ID (modify_row k f (executions d))" using t(2) id by (rule rs.ok_upd)
  moreover have "refs_ok (d\<lparr>executions := modify_row k f (executions d)\<rparr>)"
  proof (rule refs_okI)
    fix j e
    assume "lookup (executions (d\<lparr>executions := modify_row k f (executions d)\<rparr>)) j = Some e"
    then show "lookup (workflows (d\<lparr>executions := modify_row k f (executions d)\<rparr>)) (db_key (ex_WorkflowID e)) \<noteq> None"
      using refs_okD(1) [OF ok] wf by (auto simp: rs.look_upd split: if_splits)
  qed (use t t' refs_okD [OF ok] in auto)
  ultimately show ?thesis using t by (simp add: db_ok_def)
qed

end
