(* ===== verification/Workflows.thy ===== *)
theory Workflows
  imports Store Auth
begin

section \<open>Workflow CRUD: workflowlogic.go\<close>

text \<open>
  \<open>api-gateway/internal/logic/workflowlogic.go\<close>, with the request and response types of
  \<open>api-gateway/internal/types/types.go\<close>. Each handler takes the failures of its calls, the
  request's context, the request and the shared state, and returns the response or the error
  with the new state.

  \<open>jsonb\<close> is what PostgreSQL and \<open>gorm.io/datatypes\<close> make of the bytes written to a jsonb
  column: the text that reading the column returns, or the error for text that is not JSON.
  \<open>order\<close> is the order in which PostgreSQL returns the rows of a query without \<open>ORDER BY\<close>.
\<close>

subsection \<open>Requests, responses, failures\<close>

record CreateWorkflowReq =
  cr_Name :: string
  cr_TriggerType :: string
  cr_TriggerConfig :: string
  cr_Steps :: string

record UpdateWorkflowReq =
  ur_Id :: int64
  ur_Name :: string
  ur_TriggerType :: string
  ur_TriggerConfig :: string
  ur_Steps :: string
  ur_IsActive :: bool

record WorkflowItem =
  it_Id :: int64
  it_Name :: string
  it_TriggerType :: string
  it_TriggerConfig :: string
  it_Steps :: string
  it_IsActive :: bool

record ListWorkflowsResp =
  lw_Items :: "WorkflowItem list"
  lw_Total :: int64

text \<open>
  The failures of one handler call: the database's on a read and on a write, RabbitMQ's on
  a publish, Redis' on a read, a write and a deletion.
\<close>

record faults =
  f_read :: "error option"
  f_write :: "error option"
  f_publish :: "error option"
  f_cget :: "error option"
  f_cset :: "error option"
  f_cdel :: "error option"

definition no_faults :: faults where
  "no_faults = \<lparr>f_read = None, f_write = None, f_publish = None,
     f_cget = None, f_cset = None, f_cdel = None\<rparr>"

subsection \<open>Redis\<close>

definition redis_get :: "error option \<Rightarrow> string \<Rightarrow> world \<Rightarrow> error + string" where
  "redis_get fault k w = (case fault of
      Some e \<Rightarrow> Inl e
    | None \<Rightarrow> (case cache w k of None \<Rightarrow> Inl ''redis: nil'' | Some (v, _) \<Rightarrow> Inr v))"

text \<open>The code ignores the errors of \<open>SetEx\<close> and \<open>Del\<close>.\<close>

definition redis_setex :: "error option \<Rightarrow> string \<Rightarrow> string \<Rightarrow> int \<Rightarrow> world \<Rightarrow> world" where
  "redis_setex fault k v ttl w = (case fault of
      Some e \<Rightarrow> w | None \<Rightarrow> w\<lparr>cache := (cache w)(k \<mapsto> (v, ttl))\<rparr>)"

definition redis_del :: "error option \<Rightarrow> string \<Rightarrow> world \<Rightarrow> world" where
  "redis_del fault k w = (case fault of
      Some e \<Rightarrow> w | None \<Rightarrow> w\<lparr>cache := (cache w)(k := None)\<rparr>)"

definition set_workflows :: "workflow table \<Rightarrow> world \<Rightarrow> world" where
  "set_workflows t w = w\<lparr>db := (db w)\<lparr>workflows := t\<rparr>\<rparr>"

subsection \<open>Helpers\<close>

definition toWorkflowItem :: "workflow \<Rightarrow> WorkflowItem" where
  "toWorkflowItem wk = \<lparr>it_Id = wf_ID wk, it_Name = wf_Name wk, it_TriggerType = wf_TriggerType wk,
     it_TriggerConfig = wf_TriggerConfig wk, it_Steps = wf_Steps wk, it_IsActive = wf_IsActive wk\<rparr>"

text \<open>\<open>json.Marshal\<close> and \<open>json.Unmarshal\<close> of a \<open>WorkflowItem\<close>, by its field tags.\<close>

definition item_json :: "WorkflowItem \<Rightarrow> json" where
  "item_json it = JObj
     [(''id'', JNum (show_int (sint (it_Id it)))), (''name'', JStr (it_Name it)),
      (''triggerType'', JStr (it_TriggerType it)), (''triggerConfig'', JStr (it_TriggerConfig it)),
      (''steps'', JStr (it_Steps it)), (''isActive'', JBool (it_IsActive it))]"

definition marshal_item :: "WorkflowItem \<Rightarrow> string" where
  "marshal_item it = print_json (item_json it)"

definition item_fields :: "string list" where
  "item_fields = [''id'', ''name'', ''triggerType'', ''triggerConfig'', ''steps'', ''isActive'']"

definition set_item_field :: "string \<Rightarrow> json \<Rightarrow> WorkflowItem \<Rightarrow> WorkflowItem option" where
  "set_item_field n v it =
     (if n = ''id'' then map_option (\<lambda>x. it\<lparr>it_Id := x\<rparr>) (dec_int v (it_Id it))
      else if n = ''name'' then map_option (\<lambda>x. it\<lparr>it_Name := x\<rparr>) (dec_string v (it_Name it))
      else if n = ''triggerType'' then map_option (\<lambda>x. it\<lparr>it_TriggerType := x\<rparr>) (dec_string v (it_TriggerType it))
      else if n = ''triggerConfig'' then map_option (\<lambda>x. it\<lparr>it_TriggerConfig := x\<rparr>) (dec_string v (it_TriggerConfig it))
      else if n = ''steps'' then map_option (\<lambda>x. it\<lparr>it_Steps := x\<rparr>) (dec_string v (it_Steps it))
      else map_option (\<lambda>x. it\<lparr>it_IsActive := x\<rparr>) (dec_bool v (it_IsActive it)))"

definition zero_item :: WorkflowItem where
  "zero_item = \<lparr>it_Id = 0, it_Name = [], it_TriggerType = [], it_TriggerConfig = [], it_Steps = [],
     it_IsActive = False\<rparr>"

definition unmarshal_item :: "string \<Rightarrow> WorkflowItem option" where
  "unmarshal_item s = (case unmarshal s of None \<Rightarrow> None
     | Some j \<Rightarrow> decode_struct item_fields set_item_field j zero_item)"

definition cache_key :: "int64 \<Rightarrow> string" where
  "cache_key i = ''workflow:'' @ show_int (sint i)"

definition ownerCheck :: "ctx \<Rightarrow> string \<Rightarrow> error option" where
  "ownerCheck ctx ownerID =
     (if ownerID = [] then None
      else if UserIDFromCtx ctx \<noteq> ownerID then Some ''forbidden'' else None)"

text \<open>The same method on \<open>GetWorkflowLogic\<close>, \<open>UpdateWorkflowLogic\<close> and \<open>DeleteWorkflowLogic\<close>.\<close>

definition checkOwnershipModel :: "ctx \<Rightarrow> workflow \<Rightarrow> error option" where
  "checkOwnershipModel ctx wk = (if HasRole ctx ''admin'' then None else ownerCheck ctx (wf_UserID wk))"

definition checkOwnership :: "error option \<Rightarrow> ctx \<Rightarrow> int64 \<Rightarrow> world \<Rightarrow> error option" where
  "checkOwnership fault ctx workflowID w =
     (if HasRole ctx ''admin'' then None
      else case db_first fault live_wf (workflows (db w)) (sint workflowID) of
        Inl e \<Rightarrow> Some ''workflow not found''
      | Inr wk \<Rightarrow> ownerCheck ctx (wf_UserID wk))"

text \<open>The error a handler returns when loading the workflow failed.\<close>

definition load_error :: "db_error \<Rightarrow> error" where
  "load_error e = (case e of RecordNotFound \<Rightarrow> ''workflow not found'' | DbError m \<Rightarrow> m)"

subsection \<open>Handlers\<close>

definition CreateWorkflow :: "(string \<Rightarrow> error + string) \<Rightarrow> faults \<Rightarrow> ctx \<Rightarrow> CreateWorkflowReq \<Rightarrow> world
    \<Rightarrow> (error + int64) \<times> world" where
  "CreateWorkflow jsonb F ctx req w =
     (case jsonb (cr_TriggerConfig req) of Inl e \<Rightarrow> (Inl e, w)
      | Inr tc \<Rightarrow> (case jsonb (cr_Steps req) of Inl e \<Rightarrow> (Inl e, w)
      | Inr st \<Rightarrow> (case db_create (f_write F)
            (\<lambda>i. \<lparr>wf_ID = i, wf_DeletedAt = None, wf_UserID = UserIDFromCtx ctx, wf_Name = cr_Name req,
              wf_TriggerType = cr_TriggerType req, wf_TriggerConfig = tc, wf_Steps = st, wf_IsActive = True\<rparr>)
            (workflows (db w)) of
          Inl e \<Rightarrow> (Inl e, w)
        | Inr (i, t) \<Rightarrow> (Inr i, set_workflows t w))))"

definition ListWorkflows :: "(workflow list \<Rightarrow> workflow list) \<Rightarrow> faults \<Rightarrow> ctx \<Rightarrow> world \<Rightarrow> error + ListWorkflowsResp" where
  "ListWorkflows order F ctx w =
     (let cond = (if \<not> HasRole ctx ''admin''
                  then let userID = UserIDFromCtx ctx
                       in (\<lambda>wk. (wf_UserID wk = userID \<or> wf_UserID wk = []) \<and> live_wf wk)
                  else live_wf)
      in case db_find (f_read F) order cond (workflows (db w)) of
           Inl e \<Rightarrow> Inl e
         | Inr wfs \<Rightarrow> let items = map toWorkflowItem wfs
                      in Inr \<lparr>lw_Items = items, lw_Total = of_nat (length items)\<rparr>)"

definition GetWorkflow :: "faults \<Rightarrow> ctx \<Rightarrow> int64 \<Rightarrow> world \<Rightarrow> (error + WorkflowItem) \<times> world" where
  "GetWorkflow F ctx i w =
     (let key = cache_key i;
          miss = (case db_first (f_read F) live_wf (workflows (db w)) (sint i) of
              Inl e \<Rightarrow> (Inl (load_error e), w)
            | Inr wk \<Rightarrow> (case checkOwnershipModel ctx wk of
                Some e \<Rightarrow> (Inl e, w)
              | None \<Rightarrow> let item = toWorkflowItem wk
                        in (Inr item, redis_setex (f_cset F) key (marshal_item item) (5 * minute) w)))
      in case redis_get (f_cget F) key w of
           Inl _ \<Rightarrow> miss
         | Inr cached \<Rightarrow> (case unmarshal_item cached of
             None \<Rightarrow> miss
           | Some item \<Rightarrow> (case checkOwnership (f_read F) ctx (it_Id item) w of
               Some e \<Rightarrow> (Inl e, w)
             | None \<Rightarrow> (Inr item, w))))"

text \<open>The columns \<open>UpdateWorkflow\<close> writes, with the two jsonb columns as PostgreSQL stores them.\<close>

definition apply_updates :: "UpdateWorkflowReq \<Rightarrow> string \<Rightarrow> string \<Rightarrow> workflow \<Rightarrow> workflow" where
  "apply_updates req tc st wk =
     (let wk = wk\<lparr>wf_IsActive := ur_IsActive req\<rparr>;
          wk = (if ur_Name req \<noteq> [] then wk\<lparr>wf_Name := ur_Name req\<rparr> else wk);
          wk = (if ur_TriggerType req \<noteq> [] then wk\<lparr>wf_TriggerType := ur_TriggerType req\<rparr> else wk);
          wk = (if ur_TriggerConfig req \<noteq> [] then wk\<lparr>wf_TriggerConfig := tc\<rparr> else wk);
          wk = (if ur_Steps req \<noteq> [] then wk\<lparr>wf_Steps := st\<rparr> else wk)
      in wk)"

definition jsonb_if :: "(string \<Rightarrow> error + string) \<Rightarrow> string \<Rightarrow> error + string" where
  "jsonb_if jsonb s = (if s \<noteq> [] then jsonb s else Inr [])"

definition UpdateWorkflow :: "(string \<Rightarrow> error + string) \<Rightarrow> faults \<Rightarrow> ctx \<Rightarrow> UpdateWorkflowReq \<Rightarrow> world
    \<Rightarrow> (error + bool) \<times> world" where
  "UpdateWorkflow jsonb F ctx req w =
     (case db_first (f_read F) live_wf (workflows (db w)) (sint (ur_Id req)) of
        Inl e \<Rightarrow> (Inl (load_error e), w)
      | Inr wk \<Rightarrow> (case checkOwnershipModel ctx wk of
          Some e \<Rightarrow> (Inl e, w)
        | None \<Rightarrow> (case jsonb_if jsonb (ur_TriggerConfig req) of Inl e \<Rightarrow> (Inl e, w)
        | Inr tc \<Rightarrow> (case jsonb_if jsonb (ur_Steps req) of Inl e \<Rightarrow> (Inl e, w)
        | Inr st \<Rightarrow> (case db_updates (f_write F) live_wf (db_key (wf_ID wk)) (apply_updates req tc st)
              (workflows (db w)) of
            Inl e \<Rightarrow> (Inl e, w)
          | Inr t \<Rightarrow> (Inr True, redis_del (f_cdel F) (cache_key (ur_Id req)) (set_workflows t w)))))))"

definition DeleteWorkflow :: "time \<Rightarrow> faults \<Rightarrow> ctx \<Rightarrow> int64 \<Rightarrow> world \<Rightarrow> (error + bool) \<times> world" where
  "DeleteWorkflow now F ctx i w =
     (case db_first (f_read F) live_wf (workflows (db w)) (sint i) of
        Inl e \<Rightarrow> (Inl (load_error e), w)
      | Inr wk \<Rightarrow> (case checkOwnershipModel ctx wk of
          Some e \<Rightarrow> (Inl e, w)
        | None \<Rightarrow> (case db_updates (f_write F) live_wf (db_key (wf_ID wk))
              (\<lambda>r. r\<lparr>wf_DeletedAt := Some now\<rparr>) (workflows (db w)) of
            Inl e \<Rightarrow> (Inl e, w)
          | Inr t \<Rightarrow> (Inr True, redis_del (f_cdel F) (cache_key i) (set_workflows t w)))))"

subsection \<open>The cached text of a workflow reads back\<close>

definition item_utf8 :: "WorkflowItem \<Rightarrow> bool" where
  "item_utf8 it \<longleftrightarrow> valid_utf8 (it_Name it) \<and> valid_utf8 (it_TriggerType it) \<and>
     valid_utf8 (it_TriggerConfig it) \<and> valid_utf8 (it_Steps it)"

lemma show_int_sign: "i < 0 \<Longrightarrow> show_int i = CHR ''-'' # show_nat (nat (- i))"
  "0 \<le> i \<Longrightarrow> show_int i = show_nat (nat i)"
  by (simp_all add: show_int_def)

lemma strip_sign_nat: "strip_sign (show_nat n) = (False, show_nat n)"
proof -
  have "hd (show_nat n) \<noteq> CHR ''-'' \<and> hd (show_nat n) \<noteq> CHR ''+''"
    using show_nat_hd_digit [of n] by (auto simp: is_digit_def)
  then show ?thesis by (cases "show_nat n") auto
qed

lemma parse_int_show: "parse_int (show_int (sint w)) = Some (w :: int64)"
proof -
  have b: "- (2 ^ 63) \<le> sint w" "sint w < 2 ^ 63"
    using sint_greater_eq [of w] sint_less [of w] by simp_all
  have d: "list_all is_digit (show_nat n)" for n using show_nat_digits by (simp add: list_all_iff)
  show ?thesis
  proof (cases "sint w < 0")
    case True
    then have "strip_sign (show_int (sint w)) = (True, show_nat (nat (- sint w)))"
      by (simp add: show_int_sign)
    then show ?thesis using b True d by (simp add: parse_int_def read_show_nat)
  next
    case False
    then have "strip_sign (show_int (sint w)) = (False, show_nat (nat (sint w)))"
      by (simp add: show_int_sign strip_sign_nat)
    then show ?thesis using b False d by (simp add: parse_int_def read_show_nat)
  qed
qed

lemma valid_number_int: "valid_number (show_int i)"
proof (cases "i < 0")
  case True
  have "valid_number (show_nat (nat (- i)))" by (rule valid_number_nat)
  moreover have "(case show_nat (nat (- i)) of [] \<Rightarrow> [] | c # cs \<Rightarrow> if c = CHR ''-'' then cs else c # cs) = show_nat (nat (- i))"
    using show_nat_hd_digit [of "nat (- i)"] minus_not_digit by (cases "show_nat (nat (- i))") auto
  ultimately show ?thesis using True
    by (auto simp: show_int_sign valid_number_def Let_def split: list.splits if_splits)
next
  case False
  then show ?thesis by (simp add: show_int_sign valid_number_nat)
qed

lemma utf8_literals:
  "valid_utf8 ''id''" "valid_utf8 ''name''" "valid_utf8 ''triggerType''" "valid_utf8 ''triggerConfig''"
  "valid_utf8 ''steps''" "valid_utf8 ''isActive''"
  by code_simp+

lemma unmarshal_marshal_item:
  assumes "item_utf8 it"
  shows "unmarshal_item (marshal_item it) = Some it"
proof -
  have "wf_json (item_json it)"
    using assms utf8_literals by (simp add: item_json_def item_utf8_def valid_number_int)
  moreover have "depth_json (item_json it) \<le> max_depth"
    by (simp add: item_json_def max_depth_def)
  ultimately have "unmarshal (marshal_item it) = Some (item_json it)"
    unfolding marshal_item_def by (rule unmarshal_print)
  then show ?thesis
    by (simp add: unmarshal_item_def item_json_def resolve_def item_fields_def set_item_field_def
        parse_int_show zero_item_def)
qed

end
