(* ===== verification/WorkflowProps.thy ===== *)
theory WorkflowProps
  imports Workflows "HOL-Library.Multiset"
begin

section \<open>Workflow CRUD: what holds of it\<close>

text \<open>
  The lemmas and properties of the handlers of \<open>Workflows\<close>: the Redis cache beside the
  database (locale \<open>side_cache\<close>), reading through it, access control, and the effect of each
  write on every later read.
\<close>

subsection \<open>The cache agrees with the database\<close>

text \<open>
  A cache beside a store: every cached value is the store's present value for its key. What
  the client needs of the cache is that a write is seen under its key only, and a deletion
  removes its key only.
\<close>

definition coherent :: "('w \<Rightarrow> string \<Rightarrow> string option) \<Rightarrow> (string \<Rightarrow> string \<Rightarrow> bool) \<Rightarrow> 'w \<Rightarrow> bool" where
  "coherent look truth w \<longleftrightarrow> (\<forall>k v. look w k = Some v \<longrightarrow> truth k v)"

locale side_cache =
  fixes look :: "'w \<Rightarrow> string \<Rightarrow> string option"
    and put :: "string \<Rightarrow> string \<Rightarrow> 'w \<Rightarrow> 'w"
    and del :: "string \<Rightarrow> 'w \<Rightarrow> 'w"
  assumes look_put: "look (put k v w) j = (if j = k then Some v else look w j)"
    and look_del: "look (del k w) j = (if j = k then None else look w j)"
begin

lemma coherent_put: "coherent look T w \<Longrightarrow> T k v \<Longrightarrow> coherent look T (put k v w)"
  by (simp add: coherent_def look_put)

lemma coherent_del:
  assumes "coherent look T w" and "\<And>j v. j \<noteq> k \<Longrightarrow> T j v \<Longrightarrow> T' j v"
  shows "coherent look T' (del k w)"
  using assms by (auto simp: coherent_def look_del split: if_splits)

lemma coherent_grow:
  assumes "coherent look T w" and "\<And>j v. T j v \<Longrightarrow> T' j v" and "look w' = look w"
  shows "coherent look T' w'"
  using assms by (simp add: coherent_def)

lemma coherent_hit: "coherent look T w \<Longrightarrow> look w k = Some v \<Longrightarrow> T k v"
  by (simp add: coherent_def)

end

definition cache_look :: "world \<Rightarrow> string \<Rightarrow> string option" where
  "cache_look w k = map_option fst (cache w k)"

interpretation rc: side_cache cache_look "\<lambda>k v. redis_setex None k v (5 * minute)" "redis_del None"
  by unfold_locales (auto simp: cache_look_def redis_setex_def redis_del_def)

text \<open>The cached text of a live workflow under its key.\<close>

definition cached_truth :: "database \<Rightarrow> string \<Rightarrow> string \<Rightarrow> bool" where
  "cached_truth d k v \<longleftrightarrow> (\<exists>j wk. lookup (workflows d) j = Some wk \<and> live_wf wk \<and>
     k = ''workflow:'' @ show_int j \<and> v = marshal_item (toWorkflowItem wk))"

definition cache_ok :: "world \<Rightarrow> bool" where
  "cache_ok w \<longleftrightarrow> coherent cache_look (cached_truth (db w)) w"

definition gateway_ok :: "world \<Rightarrow> bool" where
  "gateway_ok w \<longleftrightarrow> db_ok (db w) \<and> cache_ok w"

lemma db_redis [simp]:
  "db (redis_setex f k v ttl w) = db w" "db (redis_del f k w) = db w"
  "db (set_workflows t w) = (db w)\<lparr>workflows := t\<rparr>"
  "cache_look (set_workflows t w) = cache_look w"
  by (auto simp: redis_setex_def redis_del_def set_workflows_def cache_look_def fun_eq_iff split: option.splits)

lemma gateway_ok_table: "gateway_ok w \<Longrightarrow> table_ok wf_ID (workflows (db w))"
  by (simp add: gateway_ok_def db_ok_def)

lemma loaded_key:
  assumes "gateway_ok w" and "db_first f live (workflows (db w)) k = Inr wk"
  shows "db_key (wf_ID wk) = k"
  using lookup_key_eq [OF gateway_ok_table [OF assms(1)] db_firstD(1) [OF assms(2)]] .

lemma cache_ok_create:
  assumes ok: "gateway_ok w" and c: "db_create f mk (workflows (db w)) = Inr (i, t)"
  shows "cache_ok (set_workflows t w)"
  unfolding cache_ok_def
proof (rule rc.coherent_grow)
  show "coherent cache_look (cached_truth (db w)) w" using ok by (simp add: gateway_ok_def cache_ok_def)
  show "cached_truth (db (set_workflows t w)) j v" if "cached_truth (db w) j v" for j v
    using that rs.look_ins_some [OF gateway_ok_table [OF ok]] db_createD(2) [OF c]
    by (auto simp: cached_truth_def)
qed simp

lemma cache_ok_modify:
  assumes ok: "gateway_ok w"
  shows "cache_ok (redis_del None (''workflow:'' @ show_int k) (set_workflows (modify_row k f (workflows (db w))) w))"
  unfolding cache_ok_def
proof (rule rc.coherent_del)
  show "coherent cache_look (cached_truth (db w)) (set_workflows (modify_row k f (workflows (db w))) w)"
    using ok by (simp add: gateway_ok_def cache_ok_def coherent_def)
next
  fix j v
  assume "j \<noteq> ''workflow:'' @ show_int k" and "cached_truth (db w) j v"
  then obtain i wk where h: "lookup (workflows (db w)) i = Some wk" "live_wf wk"
    "j = ''workflow:'' @ show_int i" "v = marshal_item (toWorkflowItem wk)" and "i \<noteq> k"
    unfolding cached_truth_def by blast
  then show "cached_truth (db (redis_del None (''workflow:'' @ show_int k)
      (set_workflows (modify_row k f (workflows (db w))) w))) j v"
    by (auto simp: cached_truth_def rs.look_upd_other)
qed

lemma CreateWorkflow_ok:
  assumes "gateway_ok w"
  shows "gateway_ok (snd (CreateWorkflow jsonb F ctx req w))"
  using assms cache_ok_create [OF assms] db_ok_create_workflow [of "db w"]
  by (fastforce simp: CreateWorkflow_def gateway_ok_def split: sum.splits)

lemma GetWorkflow_ok:
  assumes ok: "gateway_ok w"
  shows "gateway_ok (snd (GetWorkflow F ctx i w))"
proof -
  have "gateway_ok (redis_setex (f_cset F) (cache_key i) (marshal_item (toWorkflowItem wk)) (5 * minute) w)"
    if l: "db_first (f_read F) live_wf (workflows (db w)) (sint i) = Inr wk" for wk
  proof (cases "f_cset F")
    case None
    have "cached_truth (db w) (cache_key i) (marshal_item (toWorkflowItem wk))"
      using db_firstD [OF l] by (auto simp: cached_truth_def cache_key_def)
    then have "coherent cache_look (cached_truth (db w))
        (redis_setex None (cache_key i) (marshal_item (toWorkflowItem wk)) (5 * minute) w)"
      using ok by (intro rc.coherent_put) (simp_all add: gateway_ok_def cache_ok_def)
    with None ok show ?thesis by (simp add: gateway_ok_def cache_ok_def)
  next
    case (Some e)
    with ok show ?thesis by (simp add: redis_setex_def)
  qed
  then show ?thesis using ok
    by (auto simp: GetWorkflow_def Let_def split: sum.splits option.splits)
qed

lemma modify_ok:
  assumes ok: "gateway_ok w" and l: "db_first f live_wf (workflows (db w)) (sint i) = Inr wk"
    and u: "db_updates f' live_wf (db_key (wf_ID wk)) g (workflows (db w)) = Inr t"
    and id: "\<And>r. wf_ID (g r) = wf_ID r"
  shows "gateway_ok (redis_del None (cache_key i) (set_workflows t w))"
proof -
  have t: "t = modify_row (sint i) (\<lambda>r. if live_wf r then g r else r) (workflows (db w))"
    using u loaded_key [OF ok l] by (auto simp: db_updates_def split: option.splits)
  have "db_ok ((db w)\<lparr>workflows := t\<rparr>)"
    unfolding t using ok id by (intro db_ok_modify_workflow) (auto simp: gateway_ok_def)
  moreover have "cache_ok (redis_del None (cache_key i) (set_workflows t w))"
    unfolding t cache_key_def by (rule cache_ok_modify [OF ok])
  ultimately show ?thesis by (simp add: gateway_ok_def)
qed

lemma apply_updates_id [simp]: "wf_ID (apply_updates req tc st r) = wf_ID r"
  "wf_DeletedAt (apply_updates req tc st r) = wf_DeletedAt r"
  "wf_UserID (apply_updates req tc st r) = wf_UserID r"
  by (simp_all add: apply_updates_def Let_def)

lemma UpdateWorkflow_ok:
  assumes "gateway_ok w" and "f_cdel F = None"
  shows "gateway_ok (snd (UpdateWorkflow jsonb F ctx req w))"
  using assms modify_ok [OF assms(1), where i = "ur_Id req"]
  by (auto simp: UpdateWorkflow_def split: sum.splits option.splits)

lemma DeleteWorkflow_ok:
  assumes "gateway_ok w" and "f_cdel F = None"
  shows "gateway_ok (snd (DeleteWorkflow now F ctx i w))"
  using assms modify_ok [OF assms(1), where i = i]
  by (auto simp: DeleteWorkflow_def split: sum.splits option.splits)


subsection \<open>Reading\<close>

definition can_access :: "ctx \<Rightarrow> workflow \<Rightarrow> bool" where
  "can_access ctx wk \<longleftrightarrow> HasRole ctx ''admin'' \<or> wf_UserID wk = [] \<or> wf_UserID wk = UserIDFromCtx ctx"

text \<open>The texts of the live workflows are UTF-8, as PostgreSQL's text columns require.\<close>

definition texts_utf8 :: "database \<Rightarrow> bool" where
  "texts_utf8 d \<longleftrightarrow> (\<forall>k wk. lookup (workflows d) k = Some wk \<longrightarrow> item_utf8 (toWorkflowItem wk))"

text \<open>What a caller reads of a workflow: its item, or why not.\<close>

definition visible_item :: "ctx \<Rightarrow> int \<Rightarrow> database \<Rightarrow> error + WorkflowItem" where
  "visible_item ctx k d = (case lookup (workflows d) k of
      Some wk \<Rightarrow> if live_wf wk then if can_access ctx wk then Inr (toWorkflowItem wk) else Inl ''forbidden''
                else Inl ''workflow not found''
    | None \<Rightarrow> Inl ''workflow not found'')"

lemma ownership_access: "checkOwnershipModel ctx wk = (if can_access ctx wk then None else Some ''forbidden'')"
  by (auto simp: checkOwnershipModel_def ownerCheck_def can_access_def)

lemma GetWorkflow_visible:
  assumes ok: "gateway_ok w" and u: "texts_utf8 (db w)" and r: "f_read F = None"
  shows "fst (GetWorkflow F ctx i w) = visible_item ctx (sint i) (db w)"
proof (cases "redis_get (f_cget F) (cache_key i) w")
  case (Inl e)
  then show ?thesis
    by (simp add: GetWorkflow_def r db_first_None visible_item_def load_error_def ownership_access
        Let_def split: option.split)
next
  case (Inr v)
  then have "cache_look w (cache_key i) = Some v"
    by (auto simp: redis_get_def cache_look_def split: option.splits)
  then have "cached_truth (db w) (cache_key i) v"
    using ok by (intro rc.coherent_hit [where T = "cached_truth (db w)"]) (simp_all add: gateway_ok_def cache_ok_def)
  then obtain wk where wk: "lookup (workflows (db w)) (sint i) = Some wk" "live_wf wk"
    "v = marshal_item (toWorkflowItem wk)"
    by (auto simp: cached_truth_def cache_key_def)
  have um: "unmarshal_item v = Some (toWorkflowItem wk)"
    using u wk unmarshal_marshal_item by (auto simp: texts_utf8_def)
  have k: "db_key (wf_ID wk) = sint i" "1 \<le> sint i" "sint i < next_key (workflows (db w))"
    using rs.look_key [OF gateway_ok_table [OF ok] wk(1)] by auto
  have "sint (it_Id (toWorkflowItem wk)) = sint i"
  proof -
    have "uint (wf_ID wk) = sint i" using k(1) by (simp add: db_key_def)
    then have "wf_ID wk = word_of_int (sint i)" by (metis word_of_int_uint)
    then show ?thesis by (simp add: toWorkflowItem_def)
  qed
  then have "checkOwnership None ctx (it_Id (toWorkflowItem wk)) w = checkOwnershipModel ctx wk"
    using wk by (simp add: checkOwnership_def checkOwnershipModel_def db_first_None)
  with Inr um wk r show ?thesis
    by (simp add: GetWorkflow_def visible_item_def ownership_access Let_def)
qed

lemma ListWorkflows_eq:
  "ListWorkflows order F ctx w =
    (case db_find (f_read F) order (\<lambda>wk. live_wf wk \<and> can_access ctx wk) (workflows (db w)) of
       Inl e \<Rightarrow> Inl e
     | Inr wks \<Rightarrow> Inr \<lparr>lw_Items = map toWorkflowItem wks, lw_Total = of_nat (length wks)\<rparr>)"
proof -
  have cond: "(if \<not> HasRole ctx ''admin''
       then let userID = UserIDFromCtx ctx in (\<lambda>wk. (wf_UserID wk = userID \<or> wf_UserID wk = []) \<and> live_wf wk)
       else live_wf) = (\<lambda>wk. live_wf wk \<and> can_access ctx wk)"
    by (auto simp: can_access_def fun_eq_iff)
  show ?thesis unfolding ListWorkflows_def cond by (auto simp: Let_def split: sum.split)
qed

lemma ListWorkflows_visible:
  assumes "ListWorkflows order F ctx w = Inr resp" and "\<And>xs. mset (order xs) = mset xs"
  shows "mset (lw_Items resp) =
      image_mset toWorkflowItem (mset (filter (\<lambda>wk. live_wf wk \<and> can_access ctx wk) (map snd (rows (workflows (db w))))))"
    and "lw_Total resp = of_nat (length (lw_Items resp))"
  using assms by (auto simp: ListWorkflows_eq db_find_def mset_map split: option.splits)

lemma perm_set:
  assumes "\<And>xs. mset (order xs) = mset xs"
  shows "set (order xs) = set xs"
  using assms by (metis set_mset_mset)

lemma ListWorkflows_items:
  assumes ok: "gateway_ok w" and l: "ListWorkflows order F ctx w = Inr resp"
    and p: "\<And>xs. mset (order xs) = mset xs"
  shows "item \<in> set (lw_Items resp) \<longleftrightarrow> (\<exists>k. visible_item ctx k (db w) = Inr item)"
proof -
  have "set (lw_Items resp) = toWorkflowItem ` set (filter (\<lambda>wk. live_wf wk \<and> can_access ctx wk) (map snd (rows (workflows (db w)))))"
    using l perm_set [OF p] by (auto simp: ListWorkflows_eq db_find_def simp del: set_filter split: option.splits)
  also have "\<dots> = {toWorkflowItem wk | k wk. lookup (workflows (db w)) k = Some wk \<and> live_wf wk \<and> can_access ctx wk}"
    using lookup_range [OF gateway_ok_table [OF ok]] by auto
  finally show ?thesis
    by (auto simp: visible_item_def split: option.splits if_splits)
qed

subsection \<open>Writing\<close>

text \<open>A handler that returns an error has changed nothing.\<close>

lemma workflow_error_unchanged:
  "fst (CreateWorkflow jsonb F ctx creq w) = Inl e \<Longrightarrow> snd (CreateWorkflow jsonb F ctx creq w) = w"
  "fst (GetWorkflow F ctx i w) = Inl e \<Longrightarrow> snd (GetWorkflow F ctx i w) = w"
  "fst (UpdateWorkflow jsonb F ctx req w) = Inl e \<Longrightarrow> snd (UpdateWorkflow jsonb F ctx req w) = w"
  "fst (DeleteWorkflow now F ctx i w) = Inl e \<Longrightarrow> snd (DeleteWorkflow now F ctx i w) = w"
  by (auto simp: CreateWorkflow_def GetWorkflow_def UpdateWorkflow_def DeleteWorkflow_def Let_def
      split: sum.splits option.splits)

lemma db_updates_live:
  assumes "db_updates f live k g t = Inr t'" and "lookup t k = Some r" and "live r"
  shows "lookup t' j = (if j = k then Some (g r) else lookup t j)"
  using assms by (auto simp: db_updates_def rs.look_upd split: option.splits)

text \<open>A successful update or deletion: the row it needs, the access it needs, what it writes.\<close>

lemma UpdateWorkflow_done:
  assumes ok: "gateway_ok w" and d: "UpdateWorkflow jsonb F ctx req w = (Inr b, w')"
  obtains wk tc st t where
    "lookup (workflows (db w)) (sint (ur_Id req)) = Some wk" "live_wf wk" "can_access ctx wk" "b = True"
    "jsonb_if jsonb (ur_TriggerConfig req) = Inr tc" "jsonb_if jsonb (ur_Steps req) = Inr st"
    "\<And>j. lookup t j = (if j = sint (ur_Id req) then Some (apply_updates req tc st wk)
                         else lookup (workflows (db w)) j)"
    "w' = redis_del (f_cdel F) (cache_key (ur_Id req)) (set_workflows t w)"
proof -
  obtain wk where l: "db_first (f_read F) live_wf (workflows (db w)) (sint (ur_Id req)) = Inr wk"
    using d by (auto simp: UpdateWorkflow_def split: sum.splits)
  then obtain tc st t where h: "can_access ctx wk" "b = True"
    "jsonb_if jsonb (ur_TriggerConfig req) = Inr tc" "jsonb_if jsonb (ur_Steps req) = Inr st"
    "db_updates (f_write F) live_wf (db_key (wf_ID wk)) (apply_updates req tc st) (workflows (db w)) = Inr t"
    "w' = redis_del (f_cdel F) (cache_key (ur_Id req)) (set_workflows t w)"
    using d by (auto simp: UpdateWorkflow_def ownership_access split: sum.splits option.splits if_splits)
  show ?thesis
    using that [OF db_firstD(1) [OF l] db_firstD(2) [OF l] h(1-4) _ h(6)]
      db_updates_live [OF h(5)] db_firstD [OF l] loaded_key [OF ok l] by simp
qed

lemma DeleteWorkflow_done:
  assumes ok: "gateway_ok w" and d: "DeleteWorkflow now F ctx i w = (Inr b, w')"
  obtains wk t where
    "lookup (workflows (db w)) (sint i) = Some wk" "live_wf wk" "can_access ctx wk" "b = True"
    "\<And>j. lookup t j = (if j = sint i then Some (wk\<lparr>wf_DeletedAt := Some now\<rparr>)
                         else lookup (workflows (db w)) j)"
    "w' = redis_del (f_cdel F) (cache_key i) (set_workflows t w)"
proof -
  obtain wk where l: "db_first (f_read F) live_wf (workflows (db w)) (sint i) = Inr wk"
    using d by (auto simp: DeleteWorkflow_def split: sum.splits)
  then obtain t where h: "can_access ctx wk" "b = True"
    "db_updates (f_write F) live_wf (db_key (wf_ID wk)) (\<lambda>r. r\<lparr>wf_DeletedAt := Some now\<rparr>) (workflows (db w)) = Inr t"
    "w' = redis_del (f_cdel F) (cache_key i) (set_workflows t w)"
    using d by (auto simp: DeleteWorkflow_def ownership_access split: sum.splits option.splits if_splits)
  show ?thesis
    using that [OF db_firstD(1) [OF l] db_firstD(2) [OF l] h(1,2) _ h(4)]
      db_updates_live [OF h(3)] db_firstD [OF l] loaded_key [OF ok l] by simp
qed

subsection \<open>Runs of the gateway\<close>

text \<open>
  The requests on workflows, and the expiry of a cache entry, with the failures of the calls
  each makes.
\<close>

datatype workflow_op =
    OpCreate ctx CreateWorkflowReq
  | OpList ctx
  | OpGet ctx int64
  | OpUpdate ctx UpdateWorkflowReq
  | OpDelete time ctx int64
  | OpExpire string

fun workflow_step :: "(string \<Rightarrow> error + string) \<Rightarrow> faults \<times> workflow_op \<Rightarrow> world \<Rightarrow> world" where
  "workflow_step jsonb (F, OpCreate ctx req) w = snd (CreateWorkflow jsonb F ctx req w)"
| "workflow_step jsonb (F, OpList ctx) w = w"
| "workflow_step jsonb (F, OpGet ctx i) w = snd (GetWorkflow F ctx i w)"
| "workflow_step jsonb (F, OpUpdate ctx req) w = snd (UpdateWorkflow jsonb F ctx req w)"
| "workflow_step jsonb (F, OpDelete now ctx i) w = snd (DeleteWorkflow now F ctx i w)"
| "workflow_step jsonb (F, OpExpire k) w = cache_expire k w"

definition workflow_run :: "(string \<Rightarrow> error + string) \<Rightarrow> (faults \<times> workflow_op) list \<Rightarrow> world \<Rightarrow> world" where
  "workflow_run jsonb ops w = fold (workflow_step jsonb) ops w"

lemma cache_expire_del: "cache_expire k w = redis_del None k w"
  by (simp add: cache_expire_def redis_del_def)

lemma expire_ok: "gateway_ok w \<Longrightarrow> gateway_ok (cache_expire k w)"
  unfolding cache_expire_del gateway_ok_def cache_ok_def
  by (auto intro!: rc.coherent_del)

lemma workflow_step_ok:
  assumes "gateway_ok w" and "f_cdel F = None"
  shows "gateway_ok (workflow_step jsonb (F, op) w)"
  using assms
  by (cases op) (simp_all add: CreateWorkflow_ok GetWorkflow_ok UpdateWorkflow_ok DeleteWorkflow_ok expire_ok)

lemma empty_ok: "gateway_ok empty_world"
  by (simp add: gateway_ok_def db_ok_def cache_ok_def coherent_def cache_look_def empty_world_def
      table_ok_def refs_ok_def empty_table_def key_limit_def lookup_def)

lemma workflow_run_ok:
  assumes "gateway_ok w" and "\<forall>(F, op) \<in> set ops. f_cdel F = None"
  shows "gateway_ok (workflow_run jsonb ops w)"
  using assms
proof (induction ops arbitrary: w)
  case Nil
  then show ?case by (simp add: workflow_run_def)
next
  case (Cons a ops)
  obtain F op where a: "a = (F, op)" by (cases a)
  with Cons have "gateway_ok (workflow_step jsonb a w)" by (auto intro: workflow_step_ok)
  then have "gateway_ok (workflow_run jsonb ops (workflow_step jsonb a w))"
    using Cons by auto
  then show ?case by (simp add: workflow_run_def)
qed

subsection \<open>Deleted workflows stay deleted\<close>

definition dead :: "int \<Rightarrow> world \<Rightarrow> bool" where
  "dead k w \<longleftrightarrow> (\<exists>wk. lookup (workflows (db w)) k = Some wk \<and> \<not> live_wf wk)"

lemma dead_load: "dead k w \<Longrightarrow> db_first None live_wf (workflows (db w)) k = Inl RecordNotFound"
  by (auto simp: dead_def db_first_None)

lemma dead_no_load: "dead k w \<Longrightarrow> db_first f live_wf (workflows (db w)) k \<noteq> Inr wk"
  by (auto simp: dead_def db_first_def split: option.splits if_splits)

lemma dead_writers:
  assumes "dead (sint i) w" and "f_read F = None"
  shows "DeleteWorkflow now F ctx i w = (Inl ''workflow not found'', w)"
    and "ur_Id req = i \<Longrightarrow> UpdateWorkflow jsonb F ctx req w = (Inl ''workflow not found'', w)"
  using assms by (auto simp: DeleteWorkflow_def UpdateWorkflow_def dead_load load_error_def)

lemma dead_Get:
  assumes ok: "gateway_ok w" and d: "dead (sint i) w" and r: "f_read F = None"
  shows "GetWorkflow F ctx i w = (Inl ''workflow not found'', w)"
proof (cases "redis_get (f_cget F) (cache_key i) w")
  case (Inl e)
  then show ?thesis using dead_load [OF d] r by (simp add: GetWorkflow_def load_error_def Let_def)
next
  case (Inr v)
  then have "cache_look w (cache_key i) = Some v"
    by (auto simp: redis_get_def cache_look_def split: option.splits)
  then have "cached_truth (db w) (cache_key i) v"
    using ok by (intro rc.coherent_hit [where T = "cached_truth (db w)"]) (simp_all add: gateway_ok_def cache_ok_def)
  with d show ?thesis by (auto simp: dead_def cached_truth_def cache_key_def)
qed

lemma dead_create:
  assumes "gateway_ok w" and "dead k w"
  shows "dead k (snd (CreateWorkflow jsonb F ctx req w))"
  using assms(2) rs.look_ins_some [OF gateway_ok_table [OF assms(1)]]
  by (auto simp: CreateWorkflow_def dead_def dest!: db_createD(2) split: sum.splits)

lemma dead_modify:
  assumes "db_updates f live_wf j g (workflows (db w)) = Inr t" and "dead k w"
  shows "dead k (redis_del f' c (set_workflows t w))"
proof -
  obtain wk where wk: "lookup (workflows (db w)) k = Some wk" "\<not> live_wf wk"
    using assms(2) by (auto simp: dead_def)
  have "t = modify_row j (\<lambda>r. if live_wf r then g r else r) (workflows (db w))"
    using assms(1) by (auto simp: db_updates_def split: option.splits)
  then have "lookup t k = Some wk"
    using wk by (cases "k = j") (simp_all add: rs.look_upd)
  with wk show ?thesis by (simp add: dead_def)
qed

lemma dead_step:
  assumes "gateway_ok w" and "dead k w"
  shows "dead k (workflow_step jsonb (F, op) w)"
proof (cases op)
  case (OpGet ctx i)
  have "db (snd (GetWorkflow F ctx i w)) = db w"
    by (auto simp: GetWorkflow_def Let_def split: sum.splits option.splits)
  with assms OpGet show ?thesis by (simp add: dead_def)
next
  case (OpUpdate ctx req)
  then show ?thesis using assms dead_modify
    by (auto simp: UpdateWorkflow_def split: sum.splits option.splits)
next
  case (OpDelete now ctx i)
  then show ?thesis using assms dead_modify
    by (auto simp: DeleteWorkflow_def split: sum.splits option.splits)
next
  case (OpExpire c)
  with assms show ?thesis by (simp add: dead_def cache_expire_def)
qed (use assms dead_create in auto)

lemma dead_run:
  assumes "gateway_ok w" and "dead k w" and "\<forall>(F, op) \<in> set ops. f_cdel F = None"
  shows "dead k (workflow_run jsonb ops w) \<and> gateway_ok (workflow_run jsonb ops w)"
  using assms
proof (induction ops arbitrary: w)
  case (Cons a ops)
  obtain F op where a: "a = (F, op)" by (cases a)
  have "dead k (workflow_run jsonb ops (workflow_step jsonb a w)) \<and>
      gateway_ok (workflow_run jsonb ops (workflow_step jsonb a w))"
    using Cons.prems dead_step workflow_step_ok by (intro Cons.IH) (auto simp: a)
  then show ?case by (simp add: workflow_run_def)
qed (simp add: workflow_run_def)

lemma DeleteWorkflow_dead:
  assumes "gateway_ok w" and "DeleteWorkflow now F ctx i w = (Inr b, w')"
  shows "dead (sint i) w'"
  by (rule DeleteWorkflow_done [OF assms]) (simp add: dead_def live_wf_def)

subsection \<open>Other workflows are not touched\<close>

lemma visible_cong:
  "lookup (workflows d') k = lookup (workflows d) k \<Longrightarrow> visible_item ctx k d' = visible_item ctx k d"
  by (simp add: visible_item_def)

lemma UpdateWorkflow_other:
  assumes "gateway_ok w" and "UpdateWorkflow jsonb F ctx req w = (Inr b, w')" and "k \<noteq> sint (ur_Id req)"
  shows "visible_item c k (db w') = visible_item c k (db w)"
  by (rule visible_cong, rule UpdateWorkflow_done [OF assms(1,2)]) (use assms(3) in simp)

lemma DeleteWorkflow_other:
  assumes "gateway_ok w" and "DeleteWorkflow now F ctx i w = (Inr b, w')" and "k \<noteq> sint i"
  shows "visible_item c k (db w') = visible_item c k (db w)"
  by (rule visible_cong, rule DeleteWorkflow_done [OF assms(1,2)]) (use assms(3) in simp)

lemma CreateWorkflow_done:
  assumes ok: "gateway_ok w" and c: "CreateWorkflow jsonb F ctx req w = (Inr i, w')"
  obtains tc st where
    "jsonb (cr_TriggerConfig req) = Inr tc" "jsonb (cr_Steps req) = Inr st"
    "sint i = next_key (workflows (db w))" "lookup (workflows (db w)) (sint i) = None"
    "\<And>k. lookup (workflows (db w')) k = (if k = sint i
        then Some \<lparr>wf_ID = i, wf_DeletedAt = None, wf_UserID = UserIDFromCtx ctx, wf_Name = cr_Name req,
              wf_TriggerType = cr_TriggerType req, wf_TriggerConfig = tc, wf_Steps = st, wf_IsActive = True\<rparr>
        else lookup (workflows (db w)) k)"
    "cache w' = cache w"
proof -
  let ?mk = "\<lambda>tc st i. \<lparr>wf_ID = i, wf_DeletedAt = None, wf_UserID = UserIDFromCtx ctx, wf_Name = cr_Name req,
              wf_TriggerType = cr_TriggerType req, wf_TriggerConfig = tc, wf_Steps = st, wf_IsActive = True\<rparr>"
  obtain tc st t where h: "jsonb (cr_TriggerConfig req) = Inr tc" "jsonb (cr_Steps req) = Inr st"
    "db_create (f_write F) (?mk tc st) (workflows (db w)) = Inr (i, t)" "w' = set_workflows t w"
    using c by (auto simp: CreateWorkflow_def split: sum.splits)
  note n = db_createD [OF h(3)]
  have "1 \<le> next_key (workflows (db w))" using gateway_ok_table [OF ok] by (simp add: table_ok_def)
  then have i: "sint i = next_key (workflows (db w))"
    using n(1,3) by (simp add: key_limit_def sint_sbintrunc' signed_take_bit_int_eq_self)
  have w: "word_of_int (next_key (workflows (db w))) = i" using n(1) by simp
  show ?thesis
    using that [OF h(1,2) i] rs.look_fresh [OF gateway_ok_table [OF ok]] i w h(4) n(2)
      rs.look_ins [OF gateway_ok_table [OF ok]]
    by (simp add: set_workflows_def)
qed

subsection \<open>A sample state\<close>

text \<open>
  Two workflows, of alice and without an owner, and a deleted one of bob; a cache that holds
  the first. The hypotheses of the properties are checked on it.
\<close>

definition sample_workflow :: "uint64 \<Rightarrow> string \<Rightarrow> time option \<Rightarrow> workflow" where
  "sample_workflow i u d = \<lparr>wf_ID = i, wf_DeletedAt = d, wf_UserID = u, wf_Name = ''w'',
     wf_TriggerType = ''manual'', wf_TriggerConfig = ''{}'', wf_Steps = ''[]'', wf_IsActive = True\<rparr>"

definition sample_db :: database where
  "sample_db = \<lparr>workflows = \<lparr>rows = [(1, sample_workflow 1 ''alice'' None), (2, sample_workflow 2 [] None),
       (3, sample_workflow 3 ''bob'' (Some 7))], next_key = 4\<rparr>,
     executions = empty_table, step_logs = empty_table\<rparr>"

definition sample_world :: world where
  "sample_world = \<lparr>db = sample_db,
     cache = [''workflow:1'' \<mapsto> (marshal_item (toWorkflowItem (sample_workflow 1 ''alice'' None)), 5 * minute)],
     pubsub = [], mq = []\<rparr>"

definition sample_ctx :: "string \<Rightarrow> ctx" where
  "sample_ctx u = WithRoles (WithUserID [] u) []"

definition sample_jsonb :: "string \<Rightarrow> error + string" where
  "sample_jsonb s = (if s = [] then Inr [] else case unmarshal s of Some j \<Rightarrow> Inr (print_json j)
     | None \<Rightarrow> Inl ''invalid input syntax for type json'')"

lemma lookup_sample: "lookup (workflows sample_db) k =
  (if k = 1 then Some (sample_workflow 1 ''alice'' None) else if k = 2 then Some (sample_workflow 2 [] None)
   else if k = 3 then Some (sample_workflow 3 ''bob'' (Some 7)) else None)"
  by (simp add: lookup_def sample_db_def)

lemma sample_db_ok: "db_ok sample_db"
  by (auto simp: db_ok_def sample_db_def table_ok_def refs_ok_def empty_table_def key_limit_def
      sample_workflow_def lookup_def)

lemma sample_item_utf8: "item_utf8 (toWorkflowItem (sample_workflow i u d))"
proof -
  have "valid_utf8 ''w''" "valid_utf8 ''manual''" "valid_utf8 ''{}''" "valid_utf8 ''[]''"
    by code_simp+
  then show ?thesis
    by (simp only: item_utf8_def toWorkflowItem_def sample_workflow_def workflow.simps WorkflowItem.simps simp_thms)
qed

lemma sample_utf8: "texts_utf8 sample_db"
  using sample_item_utf8 by (auto simp: texts_utf8_def lookup_sample split: if_splits)

lemma sample_ok: "gateway_ok sample_world"
proof -
  have k: "''workflow:1'' = ''workflow:'' @ show_int 1" by code_simp
  have "cached_truth sample_db ''workflow:1'' (marshal_item (toWorkflowItem (sample_workflow 1 ''alice'' None)))"
    unfolding cached_truth_def using k
    by (intro exI [of _ 1] exI [of _ "sample_workflow 1 ''alice'' None"]) (simp add: lookup_sample live_wf_def sample_workflow_def)
  then show ?thesis
    by (auto simp: gateway_ok_def sample_world_def sample_db_ok cache_ok_def coherent_def cache_look_def split: if_splits)
qed

definition sample_req :: UpdateWorkflowReq where
  "sample_req = \<lparr>ur_Id = 1, ur_Name = ''n'', ur_TriggerType = [], ur_TriggerConfig = [], ur_Steps = [],
     ur_IsActive = False\<rparr>"

definition sample_create :: CreateWorkflowReq where
  "sample_create = \<lparr>cr_Name = ''c'', cr_TriggerType = ''cron'', cr_TriggerConfig = ''{ }'', cr_Steps = ''[ ]''\<rparr>"

lemma pair_fst: "fst p = a \<Longrightarrow> p = (a, snd p)"
  by auto

lemma sample_update: "UpdateWorkflow sample_jsonb no_faults (sample_ctx ''alice'') sample_req sample_world =
  (Inr True, snd (UpdateWorkflow sample_jsonb no_faults (sample_ctx ''alice'') sample_req sample_world))"
  by (rule pair_fst) code_simp

lemma texts_utf8I:
  assumes "list_all (\<lambda>(k, wk). item_utf8 (toWorkflowItem wk)) (rows (workflows d))"
  shows "texts_utf8 d"
  using assms by (auto simp: texts_utf8_def lookup_def list_all_iff dest!: map_of_SomeD)

lemma live_key: "table_ok wf_ID (workflows d) \<Longrightarrow> lookup (workflows d) k = Some wk \<Longrightarrow> sint (wf_ID wk) = k"
  by (rule row_sint)

lemma distinct_items:
  assumes t: "table_ok wf_ID (workflows d)"
  shows "distinct (map toWorkflowItem (map snd (rows (workflows d))))"
proof -
  have "\<forall>(k, wk) \<in> set (rows (workflows d)). sint (it_Id (toWorkflowItem wk)) = k"
    using lookup_row [OF t] live_key [OF t] by (auto simp: toWorkflowItem_def)
  then have "map (\<lambda>it. sint (it_Id it)) (map toWorkflowItem (map snd (rows (workflows d)))) = map fst (rows (workflows d))"
    by auto
  then have "distinct (map (\<lambda>it. sint (it_Id it)) (map toWorkflowItem (map snd (rows (workflows d)))))"
    using t by (simp only: table_ok_def)
  then show ?thesis using distinct_map by blast
qed

lemma distinct_map_filterI: "distinct (map f xs) \<Longrightarrow> distinct (map f (filter P xs))"
  by (rule distinct_map_filter)

lemma cached_hit:
  assumes "gateway_ok w" and "cache_look w (cache_key i) = Some v" and "lookup (workflows (db w)) (sint i) = Some wk"
  shows "v = marshal_item (toWorkflowItem wk)"
proof -
  have "cached_truth (db w) (cache_key i) v"
    using assms(1,2) by (intro rc.coherent_hit [where T = "cached_truth (db w)"]) (simp_all add: gateway_ok_def cache_ok_def)
  with assms(3) show ?thesis by (auto simp: cached_truth_def cache_key_def)
qed

lemma GetWorkflow_hit:
  assumes "cache_look w (cache_key i) = Some (marshal_item (toWorkflowItem wk))" and "item_utf8 (toWorkflowItem wk)"
    and "lookup (workflows (db w)) (sint i) = Some wk'" and "live_wf wk'" and "wf_UserID wk' = wf_UserID wk"
    and "sint (it_Id (toWorkflowItem wk)) = sint i" and "f_read F = None" and "f_cget F = None"
  shows "fst (GetWorkflow F ctx i w) = (if can_access ctx wk then Inr (toWorkflowItem wk) else Inl ''forbidden'')"
proof -
  have "redis_get (f_cget F) (cache_key i) w = Inr (marshal_item (toWorkflowItem wk))"
    using assms(1,8) by (auto simp: redis_get_def cache_look_def)
  moreover have "checkOwnership None ctx (it_Id (toWorkflowItem wk)) w = checkOwnershipModel ctx wk"
    using assms(3-6) by (simp add: checkOwnership_def checkOwnershipModel_def db_first_None)
  ultimately show ?thesis
    using unmarshal_marshal_item [OF assms(2)] assms(7) by (simp add: GetWorkflow_def ownership_access Let_def)
qed

subsection \<open>Properties\<close>



text \<open>The gateway keeps its state well-formed: after any sequence of requests and cache
  expiries in which no cache deletion fails, every table's keys are distinct and match their
  rows, every reference resolves, and each cached text is the present item of the live
  workflow whose key it is stored under.\<close>

theorem gateway_invariant:
  assumes "gateway_ok w" and "\<forall>(F, op) \<in> set ops. f_cdel F = None"
  shows "gateway_ok (workflow_run jsonb ops w)"
  using assms by (rule workflow_run_ok)

definition sample_ops :: "(faults \<times> workflow_op) list" where
  "sample_ops = [(no_faults, OpGet (sample_ctx ''alice'') 2),
     (no_faults, OpUpdate (sample_ctx ''alice'')
        \<lparr>ur_Id = 1, ur_Name = ''n'', ur_TriggerType = [], ur_TriggerConfig = [], ur_Steps = [], ur_IsActive = False\<rparr>),
     (no_faults, OpDelete 9 (sample_ctx ''alice'') 2)]"

theorem gateway_invariant_witness:
  "gateway_ok (workflow_run sample_jsonb sample_ops sample_world)"
  by (rule gateway_invariant [OF sample_ok]) (simp add: sample_ops_def no_faults_def)

text \<open>C12: access control. On a live workflow, a caller who is neither its owner nor an admin,
  when it has an owner, gets \<open>forbidden\<close> from reading, updating and deleting it, and changes
  nothing; a caller with access reads its item and can delete it, and an update succeeds when its jsonb values
  are accepted.\<close>

theorem access_control:
  assumes "gateway_ok w" and "texts_utf8 (db w)" and "f_read F = None" and "f_write F = None"
    and "lookup (workflows (db w)) (sint i) = Some wk" and "live_wf wk" and "ur_Id req = i"
  shows "(\<not> can_access ctx wk \<longrightarrow>
            GetWorkflow F ctx i w = (Inl ''forbidden'', w) \<and>
            UpdateWorkflow jsonb F ctx req w = (Inl ''forbidden'', w) \<and>
            DeleteWorkflow now F ctx i w = (Inl ''forbidden'', w)) \<and>
         (can_access ctx wk \<longrightarrow>
            fst (GetWorkflow F ctx i w) = Inr (toWorkflowItem wk) \<and>
            fst (DeleteWorkflow now F ctx i w) = Inr True \<and>
            (jsonb_if jsonb (ur_TriggerConfig req) = Inr tc \<and> jsonb_if jsonb (ur_Steps req) = Inr st \<longrightarrow>
             fst (UpdateWorkflow jsonb F ctx req w) = Inr True))"
proof -
  have g: "fst (GetWorkflow F ctx i w) = (if can_access ctx wk then Inr (toWorkflowItem wk) else Inl ''forbidden'')"
    using GetWorkflow_visible [OF assms(1-3)] assms(5,6) by (simp add: visible_item_def)
  have d: "db_first (f_read F) live_wf (workflows (db w)) (sint i) = Inr wk"
    using assms(3,5,6) by (simp add: db_first_None)
  have u: "db_updates (f_write F) live_wf k f t = Inr (modify_row k (\<lambda>r. if live_wf r then f r else r) t)" for k f t
    using assms(4) by (simp add: db_updates_def)
  show ?thesis
    using g d workflow_error_unchanged(2) assms(7)
    by (auto simp: UpdateWorkflow_def DeleteWorkflow_def ownership_access prod_eq_iff u)
qed

theorem access_control_witness:
  "DeleteWorkflow 9 no_faults (sample_ctx ''bob'') 1 sample_world = (Inl ''forbidden'', sample_world) \<and>
   fst (DeleteWorkflow 9 no_faults (sample_ctx ''alice'') 1 sample_world) = Inr True"
proof -
  let ?req = "\<lparr>ur_Id = 1, ur_Name = ''n'', ur_TriggerType = [], ur_TriggerConfig = [], ur_Steps = [], ur_IsActive = False\<rparr>"
  let ?wk = "sample_workflow 1 ''alice'' None"
  have h: "gateway_ok sample_world" "texts_utf8 (db sample_world)" "f_read no_faults = None" "f_write no_faults = None"
    "lookup (workflows (db sample_world)) (sint (1 :: int64)) = Some ?wk" "live_wf ?wk" "ur_Id ?req = 1"
    using sample_ok sample_utf8
    by (simp_all add: sample_world_def no_faults_def lookup_sample live_wf_def sample_workflow_def)
  have "\<not> can_access (sample_ctx ''bob'') ?wk" "can_access (sample_ctx ''alice'') ?wk"
    by code_simp+
  then show ?thesis
    using access_control [OF h, of "sample_ctx ''bob''" sample_jsonb 9 "[]" "[]"]
      access_control [OF h, of "sample_ctx ''alice''" sample_jsonb 9 "[]" "[]"] by blast
qed

text \<open>C29: an update is read back: after a successful update every caller with access gets the
  item with the new values, whatever the cache held before. A field that was empty in the
  request keeps its value; \<open>isActive\<close> is always overwritten, so an update that leaves it out
  deactivates the workflow.\<close>

theorem update_then_get:
  assumes "gateway_ok w" and "UpdateWorkflow jsonb F ctx req w = (Inr b, w')" and "f_cdel F = None"
    and "texts_utf8 (db w')" and "f_read G = None"
  shows "\<exists>wk tc st. lookup (workflows (db w)) (sint (ur_Id req)) = Some wk \<and> can_access ctx wk \<and>
     jsonb_if jsonb (ur_TriggerConfig req) = Inr tc \<and> jsonb_if jsonb (ur_Steps req) = Inr st \<and>
     fst (GetWorkflow G c (ur_Id req) w') =
       (if can_access c wk
        then Inr \<lparr>it_Id = ur_Id req,
          it_Name = (if ur_Name req = [] then wf_Name wk else ur_Name req),
          it_TriggerType = (if ur_TriggerType req = [] then wf_TriggerType wk else ur_TriggerType req),
          it_TriggerConfig = (if ur_TriggerConfig req = [] then wf_TriggerConfig wk else tc),
          it_Steps = (if ur_Steps req = [] then wf_Steps wk else st),
          it_IsActive = ur_IsActive req\<rparr>
        else Inl ''forbidden'')"
proof (rule UpdateWorkflow_done [OF assms(1,2)])
  fix wk tc st t
  assume h: "lookup (workflows (db w)) (sint (ur_Id req)) = Some wk" "live_wf wk" "can_access ctx wk"
    "jsonb_if jsonb (ur_TriggerConfig req) = Inr tc" "jsonb_if jsonb (ur_Steps req) = Inr st"
    "\<And>j. lookup t j = (if j = sint (ur_Id req) then Some (apply_updates req tc st wk)
                         else lookup (workflows (db w)) j)"
    "w' = redis_del (f_cdel F) (cache_key (ur_Id req)) (set_workflows t w)"
  have ok: "gateway_ok w'" using UpdateWorkflow_ok [OF assms(1,3)] assms(2) by (metis snd_conv)
  have i: "wf_ID wk = ur_Id req"
    using live_key [OF gateway_ok_table [OF assms(1)] h(1)] by (rule signed_word_eqI)
  have "lookup (workflows (db w')) (sint (ur_Id req)) = Some (apply_updates req tc st wk)"
    using h(6,7) by simp
  then have "fst (GetWorkflow G c (ur_Id req) w') =
    (if can_access c wk then Inr (toWorkflowItem (apply_updates req tc st wk)) else Inl ''forbidden'')"
    using GetWorkflow_visible [OF ok assms(4,5)] h(2) by (simp add: visible_item_def live_wf_def can_access_def)
  then have "fst (GetWorkflow G c (ur_Id req) w') =
       (if can_access c wk
        then Inr \<lparr>it_Id = ur_Id req,
          it_Name = (if ur_Name req = [] then wf_Name wk else ur_Name req),
          it_TriggerType = (if ur_TriggerType req = [] then wf_TriggerType wk else ur_TriggerType req),
          it_TriggerConfig = (if ur_TriggerConfig req = [] then wf_TriggerConfig wk else tc),
          it_Steps = (if ur_Steps req = [] then wf_Steps wk else st),
          it_IsActive = ur_IsActive req\<rparr>
        else Inl ''forbidden'')"
    using i by (simp add: toWorkflowItem_def apply_updates_def Let_def)
  then show ?thesis
    using h(1,3,4,5) by - (rule exI [of _ wk], rule exI [of _ tc], rule exI [of _ st], intro conjI)
qed


theorem update_then_get_witness:
  "fst (GetWorkflow no_faults (sample_ctx ''alice'') 1
      (snd (UpdateWorkflow sample_jsonb no_faults (sample_ctx ''alice'') sample_req sample_world))) =
    Inr \<lparr>it_Id = 1, it_Name = ''n'', it_TriggerType = ''manual'', it_TriggerConfig = ''{}'', it_Steps = ''[]'', it_IsActive = False\<rparr>"
proof -
  have u: "texts_utf8 (db (snd (UpdateWorkflow sample_jsonb no_faults (sample_ctx ''alice'') sample_req sample_world)))"
    by (rule texts_utf8I) code_simp
  have "can_access (sample_ctx ''alice'') (sample_workflow 1 ''alice'' None)" by code_simp
  then show ?thesis
    using update_then_get [OF sample_ok sample_update _ u, of no_faults "sample_ctx ''alice''"]
    by (auto simp: no_faults_def sample_req_def lookup_sample sample_world_def sample_workflow_def)
qed



text \<open>C31: a created workflow is there: creation gives it a key no row had, stores the
  caller as its owner and marks it active; any reader with access then gets the request's name and trigger type,
  the jsonb texts as PostgreSQL returns them, and every other workflow reads as before.\<close>

theorem create_then_get:
  assumes "gateway_ok w" and "CreateWorkflow jsonb F ctx req w = (Inr i, w')"
    and "texts_utf8 (db w')" and "f_read G = None"
  shows "lookup (workflows (db w)) (sint i) = None \<and>
    (\<exists>tc st. jsonb (cr_TriggerConfig req) = Inr tc \<and> jsonb (cr_Steps req) = Inr st \<and>
       fst (GetWorkflow G c i w') =
         (if HasRole c ''admin'' \<or> UserIDFromCtx ctx = [] \<or> UserIDFromCtx c = UserIDFromCtx ctx
          then Inr \<lparr>it_Id = i, it_Name = cr_Name req, it_TriggerType = cr_TriggerType req,
                it_TriggerConfig = tc, it_Steps = st, it_IsActive = True\<rparr>
          else Inl ''forbidden'')) \<and>
    (\<forall>k. k \<noteq> sint i \<longrightarrow> visible_item c k (db w') = visible_item c k (db w))"
proof (rule CreateWorkflow_done [OF assms(1,2)])
  fix tc st
  assume h: "jsonb (cr_TriggerConfig req) = Inr tc" "jsonb (cr_Steps req) = Inr st"
    "lookup (workflows (db w)) (sint i) = None"
    "\<And>k. lookup (workflows (db w')) k = (if k = sint i
        then Some \<lparr>wf_ID = i, wf_DeletedAt = None, wf_UserID = UserIDFromCtx ctx, wf_Name = cr_Name req,
              wf_TriggerType = cr_TriggerType req, wf_TriggerConfig = tc, wf_Steps = st, wf_IsActive = True\<rparr>
        else lookup (workflows (db w)) k)"
  have ok: "gateway_ok w'" using CreateWorkflow_ok [OF assms(1)] assms(2) by (metis snd_conv)
  have "fst (GetWorkflow G c i w') =
         (if HasRole c ''admin'' \<or> UserIDFromCtx ctx = [] \<or> UserIDFromCtx c = UserIDFromCtx ctx
          then Inr \<lparr>it_Id = i, it_Name = cr_Name req, it_TriggerType = cr_TriggerType req,
                it_TriggerConfig = tc, it_Steps = st, it_IsActive = True\<rparr>
          else Inl ''forbidden'')"
    using GetWorkflow_visible [OF ok assms(3,4)] h(4)
    by (auto simp: visible_item_def live_wf_def can_access_def toWorkflowItem_def)
  moreover have "visible_item c k (db w') = visible_item c k (db w)" if "k \<noteq> sint i" for k
    using h(4) that by (intro visible_cong) simp
  ultimately show ?thesis using h(1-3) by blast
qed

theorem create_then_get_witness:
  "\<exists>i. fst (CreateWorkflow sample_jsonb no_faults (sample_ctx ''bob'') sample_create sample_world) = Inr i \<and>
     fst (GetWorkflow no_faults (sample_ctx ''alice'') i
       (snd (CreateWorkflow sample_jsonb no_faults (sample_ctx ''bob'') sample_create sample_world))) = Inl ''forbidden''"
proof -
  have c: "CreateWorkflow sample_jsonb no_faults (sample_ctx ''bob'') sample_create sample_world =
      (Inr 4, snd (CreateWorkflow sample_jsonb no_faults (sample_ctx ''bob'') sample_create sample_world))"
    by (rule pair_fst) code_simp
  have u: "texts_utf8 (db (snd (CreateWorkflow sample_jsonb no_faults (sample_ctx ''bob'') sample_create sample_world)))"
    by (rule texts_utf8I) code_simp
  have x: "\<not> (HasRole (sample_ctx ''alice'') ''admin'' \<or> UserIDFromCtx (sample_ctx ''bob'') = [] \<or>
      UserIDFromCtx (sample_ctx ''alice'') = UserIDFromCtx (sample_ctx ''bob''))"
    by code_simp
  have f: "fst (CreateWorkflow sample_jsonb no_faults (sample_ctx ''bob'') sample_create sample_world) = Inr 4"
    using c by (metis fst_conv)
  show ?thesis
    using create_then_get [OF sample_ok c u, of no_faults "sample_ctx ''alice''"] x f
    by (auto simp: no_faults_def)
qed



text \<open>A cache deletion that fails leaves the old item readable: an update whose
  \<open>Del\<close> fails (the code ignores that error) succeeds, and a workflow that was cached is still
  read with its old values.\<close>

theorem failed_invalidation_is_stale:
  assumes "gateway_ok w" and "texts_utf8 (db w)"
    and "UpdateWorkflow jsonb F ctx req w = (Inr b, w')" and "f_cdel F = Some e"
    and "cache w (cache_key (ur_Id req)) \<noteq> None" and "f_read G = None" and "f_cget G = None"
  shows "fst (GetWorkflow G c (ur_Id req) w') = visible_item c (sint (ur_Id req)) (db w)"
proof (rule UpdateWorkflow_done [OF assms(1,3)])
  fix wk tc st t
  assume h: "lookup (workflows (db w)) (sint (ur_Id req)) = Some wk" "live_wf wk"
    "\<And>j. lookup t j = (if j = sint (ur_Id req) then Some (apply_updates req tc st wk)
                         else lookup (workflows (db w)) j)"
    "w' = redis_del (f_cdel F) (cache_key (ur_Id req)) (set_workflows t w)"
  have c: "cache_look w (cache_key (ur_Id req)) = Some (marshal_item (toWorkflowItem wk))"
    using assms(1,5) h(1) cached_hit by (fastforce simp: cache_look_def)
  have w': "w' = set_workflows t w" using h(4) assms(4) by (simp add: redis_del_def)
  have "fst (GetWorkflow G c (ur_Id req) w') =
      (if can_access c wk then Inr (toWorkflowItem wk) else Inl ''forbidden'')"
    using c h(1-3) assms(2) live_key [OF gateway_ok_table [OF assms(1)] h(1)]
    unfolding w' by (intro GetWorkflow_hit [where wk' = "apply_updates req tc st wk", OF _ _ _ _ _ _ assms(6,7)])
      (auto simp: texts_utf8_def live_wf_def toWorkflowItem_def)
  then show ?thesis using h(1,2) by (simp add: visible_item_def)
qed

theorem failed_invalidation_is_stale_witness:
  "fst (GetWorkflow no_faults (sample_ctx ''alice'') 1
      (snd (UpdateWorkflow sample_jsonb (no_faults\<lparr>f_cdel := Some ''timeout''\<rparr>) (sample_ctx ''alice'') sample_req sample_world))) =
    Inr (toWorkflowItem (sample_workflow 1 ''alice'' None))"
proof -
  let ?F = "no_faults\<lparr>f_cdel := Some ''timeout''\<rparr>"
  have u: "UpdateWorkflow sample_jsonb ?F (sample_ctx ''alice'') sample_req sample_world =
      (Inr True, snd (UpdateWorkflow sample_jsonb ?F (sample_ctx ''alice'') sample_req sample_world))"
    by (rule pair_fst) code_simp
  have t: "texts_utf8 (db sample_world)" using sample_utf8 by (simp add: sample_world_def)
  have c: "cache sample_world (cache_key (ur_Id sample_req)) \<noteq> None"
    by code_simp
  have "visible_item (sample_ctx ''alice'') (sint (ur_Id sample_req)) (db sample_world) =
      Inr (toWorkflowItem (sample_workflow 1 ''alice'' None))"
    by code_simp
  then show ?thesis
    using failed_invalidation_is_stale [OF sample_ok t u _ c, of "''timeout''" no_faults "sample_ctx ''alice''"]
    by (simp add: no_faults_def sample_req_def)
qed

end
