(* ===== verification/Queue.thy ===== *)
theory Queue
  imports Store
begin

section \<open>The RabbitMQ publisher: queue/publisher.go\<close>

text \<open>
  \<open>api-gateway/internal/queue/publisher.go\<close>: the carrier that passes trace headers through
  AMQP tables, the message of an execution, the topology of the retry loop and the publisher.

  RabbitMQ and its client library are not in the repository. A declaration is a value of type
  \<open>amqp_decl\<close>, and \<open>amqp\<close>, an argument, says which error the broker returns for it.
  What the propagator of OpenTelemetry writes is a list of calls of the carrier's \<open>Set\<close>, an
  argument as well.
\<close>

subsection \<open>AMQPHeaderCarrier\<close>

definition Get :: "amqp_table \<Rightarrow> string \<Rightarrow> string" where
  "Get c key = (case map_of c key of None \<Rightarrow> []
     | Some v \<Rightarrow> (case v of AStr s \<Rightarrow> s | _ \<Rightarrow> []))"

definition Set :: "string \<Rightarrow> string \<Rightarrow> amqp_table \<Rightarrow> amqp_table" where
  "Set key val c = AList.update key (AStr val) c"

text \<open>Go iterates over a map in no fixed order: \<open>order\<close> is the one of this call.\<close>

definition Keys :: "((string \<times> amqp_val) list \<Rightarrow> (string \<times> amqp_val) list) \<Rightarrow> amqp_table \<Rightarrow> string list" where
  "Keys order c = foldl (\<lambda>keys (k, _). keys @ [k]) [] (order c)"

text \<open>
  What OpenTelemetry's propagators use of a \<open>TextMapCarrier\<close>: a value is read under the key
  it was set, and a set key is listed.
\<close>

locale text_map_carrier =
  fixes get :: "'c \<Rightarrow> string \<Rightarrow> string"
    and set_to :: "string \<Rightarrow> string \<Rightarrow> 'c \<Rightarrow> 'c"
    and keys :: "'c \<Rightarrow> string list"
  assumes get_set: "get (set_to k v c) j = (if j = k then v else get c j)"
    and keys_set: "set (keys (set_to k v c)) = insert k (set (keys c))"
begin

lemma get_fold_other: "k \<notin> fst ` set kvs \<Longrightarrow> get (fold (\<lambda>(k, v). set_to k v) kvs c) k = get c k"
  by (induction kvs arbitrary: c) (auto simp: get_set)

lemma get_fold:
  assumes "distinct (map fst kvs)" and "(k, v) \<in> set kvs"
  shows "get (fold (\<lambda>(k, v). set_to k v) kvs c) k = v"
  using assms
proof (induction kvs arbitrary: c)
  case (Cons kv kvs)
  then show ?case
    by (cases kv) (force simp: get_fold_other get_set)
qed simp

lemma keys_fold: "set (keys (fold (\<lambda>(k, v). set_to k v) kvs c)) = fst ` set kvs \<union> set (keys c)"
  by (induction kvs arbitrary: c) (auto simp: keys_set)

end

lemma Keys_map: "Keys order c = map fst (order c)"
proof -
  have "foldl (\<lambda>keys (k, _). keys @ [k]) ks xs = ks @ map fst xs" for ks :: "string list" and xs :: amqp_table
    by (induction xs arbitrary: ks) auto
  then show ?thesis by (simp add: Keys_def)
qed

interpretation hc: text_map_carrier Get Set "Keys (\<lambda>c. c)"
proof
  show "Get (Set k v c) j = (if j = k then v else Get c j)" for k v c j
    by (simp add: Get_def Set_def update_conv)
  show "set (Keys (\<lambda>c. c) (Set k v c)) = insert k (set (Keys (\<lambda>c. c) c))" for k v c
    by (simp add: Keys_map Set_def dom_update)
qed

subsection \<open>ExecutionMessage\<close>

record ExecutionMessage =
  em_ExecutionID :: uint64
  em_WorkflowID :: uint64
  em_TriggerPayload :: string

definition message_json :: "ExecutionMessage \<Rightarrow> json" where
  "message_json m = JObj [(''executionId'', JNum (show_nat (unat (em_ExecutionID m)))),
     (''workflowId'', JNum (show_nat (unat (em_WorkflowID m)))),
     (''triggerPayload'', JStr (em_TriggerPayload m))]"

definition marshal_message :: "ExecutionMessage \<Rightarrow> string" where
  "marshal_message m = print_json (message_json m)"

definition message_fields :: "string list" where
  "message_fields = [''executionId'', ''workflowId'', ''triggerPayload'']"

definition set_message_field :: "string \<Rightarrow> json \<Rightarrow> ExecutionMessage \<Rightarrow> ExecutionMessage option" where
  "set_message_field n v m =
     (if n = ''executionId'' then map_option (\<lambda>x. m\<lparr>em_ExecutionID := x\<rparr>) (dec_uint v (em_ExecutionID m))
      else if n = ''workflowId'' then map_option (\<lambda>x. m\<lparr>em_WorkflowID := x\<rparr>) (dec_uint v (em_WorkflowID m))
      else map_option (\<lambda>x. m\<lparr>em_TriggerPayload := x\<rparr>) (dec_string v (em_TriggerPayload m)))"

definition zero_message :: ExecutionMessage where
  "zero_message = \<lparr>em_ExecutionID = 0, em_WorkflowID = 0, em_TriggerPayload = []\<rparr>"

definition unmarshal_message :: "string \<Rightarrow> ExecutionMessage option" where
  "unmarshal_message s = (case unmarshal s of None \<Rightarrow> None
     | Some j \<Rightarrow> decode_struct message_fields set_message_field j zero_message)"

lemma message_utf8: "valid_utf8 ''executionId''" "valid_utf8 ''workflowId''" "valid_utf8 ''triggerPayload''"
  by code_simp+

lemma unmarshal_marshal_message:
  assumes "valid_utf8 (em_TriggerPayload m)"
  shows "unmarshal_message (marshal_message m) = Some m"
proof -
  have "wf_json (message_json m)"
    using assms message_utf8 by (simp add: message_json_def valid_number_nat)
  moreover have "depth_json (message_json m) \<le> max_depth"
    by (simp add: message_json_def max_depth_def)
  ultimately have "unmarshal (marshal_message m) = Some (message_json m)"
    unfolding marshal_message_def by (rule unmarshal_print)
  then show ?thesis
    by (simp add: unmarshal_message_def message_json_def resolve_def message_fields_def set_message_field_def
        parse_uint_show zero_message_def)
qed

subsection \<open>Topology\<close>

definition Exchange :: string where "Exchange = ''workflows''"

definition DLX :: string where "DLX = ''workflows.dlx''"

definition QueueRun :: string where "QueueRun = ''execution.run''"

definition QueueRetry :: string where "QueueRetry = ''execution.retry''"

definition RoutingKeyRun :: string where "RoutingKeyRun = ''execution.run''"

definition retryTTLMs :: int where "retryTTLMs = 10000"

definition MaxRetries :: int where "MaxRetries = 3"

text \<open>
  The declarations of the AMQP client, with its arguments: name, kind and the flags durable,
  auto-delete, internal, no-wait of an exchange; name, the flags durable, auto-delete,
  exclusive, no-wait and the arguments of a queue; queue, key, exchange and no-wait of a
  binding.
\<close>

datatype amqp_decl =
    ExchangeDeclare string string bool bool bool bool
  | QueueDeclare string bool bool bool bool amqp_table
  | QueueBind string string string bool

text \<open>
  \<open>declare_seq amqp ds\<close>: the declarations issued in order up to the first one the broker
  refuses, each with the text its error is wrapped in, and the error if there is one.
\<close>

fun declare_seq :: "(amqp_decl \<Rightarrow> error option) \<Rightarrow> (amqp_decl \<times> string) list \<Rightarrow> amqp_decl list \<times> error option" where
  "declare_seq amqp [] = ([], None)"
| "declare_seq amqp ((d, what) # ds) = (case amqp d of
      Some e \<Rightarrow> ([d], Some (what @ '': '' @ e))
    | None \<Rightarrow> (case declare_seq amqp ds of (issued, err) \<Rightarrow> (d # issued, err)))"

text \<open>The verb \<open>%q\<close> of the names that are declared, none of which needs an escape.\<close>

definition quoted :: "string \<Rightarrow> string" where
  "quoted s = CHR 0x22 # s @ [CHR 0x22]"

definition declareTopology :: "(amqp_decl \<Rightarrow> error option) \<Rightarrow> amqp_decl list \<times> error option" where
  "declareTopology amqp = declare_seq amqp
     [(ExchangeDeclare Exchange ''topic'' True False False False, ''exchange '' @ quoted Exchange),
      (ExchangeDeclare DLX ''direct'' True False False False, ''exchange '' @ quoted DLX),
      (QueueDeclare QueueRun True False False False
         [(''x-dead-letter-exchange'', AStr DLX), (''x-dead-letter-routing-key'', AStr RoutingKeyRun)],
       ''queue '' @ quoted QueueRun),
      (QueueBind QueueRun RoutingKeyRun Exchange False, ''bind '' @ quoted QueueRun),
      (QueueDeclare QueueRetry True False False False
         [(''x-message-ttl'', AInt32 (word_of_int retryTTLMs)),
          (''x-dead-letter-exchange'', AStr Exchange), (''x-dead-letter-routing-key'', AStr RoutingKeyRun)],
       ''queue '' @ quoted QueueRetry),
      (QueueBind QueueRetry RoutingKeyRun DLX False, ''bind '' @ quoted QueueRetry)]"

subsection \<open>Publisher\<close>

text \<open>A publisher's two handles: is its connection open, its channel?\<close>

record Publisher =
  p_conn :: bool
  p_ch :: bool

definition Close :: "Publisher \<Rightarrow> Publisher" where
  "Close p = p\<lparr>p_ch := False, p_conn := False\<rparr>"

text \<open>
  \<open>New\<close>: the publisher or the error, what is open of what it opened, and the declarations
  it issued. \<open>dial\<close> and \<open>channel\<close> are the errors of the two calls.
\<close>

definition New :: "error option \<Rightarrow> error option \<Rightarrow> (amqp_decl \<Rightarrow> error option)
    \<Rightarrow> (error + Publisher) \<times> Publisher \<times> amqp_decl list" where
  "New dial channel amqp = (case dial of
      Some e \<Rightarrow> (Inl (''amqp dial: '' @ e), \<lparr>p_conn = False, p_ch = False\<rparr>, [])
    | None \<Rightarrow> (case channel of
        Some e \<Rightarrow> (Inl (''amqp channel: '' @ e), \<lparr>p_conn = False, p_ch = False\<rparr>, [])
      | None \<Rightarrow> let p = \<lparr>p_conn = True, p_ch = True\<rparr> in
          (case declareTopology amqp of
             (issued, Some e) \<Rightarrow> (Inl (''declare topology: '' @ e), Close p, issued)
           | (issued, None) \<Rightarrow> (Inr p, p, issued))))"

text \<open>\<open>inject\<close> is the list of \<open>Set\<close> calls of the propagator for this context.\<close>

definition publish_headers :: "(string \<times> string) list \<Rightarrow> amqp_table" where
  "publish_headers inject = fold (\<lambda>(k, v). Set k v) inject []"

definition Publish :: "error option \<Rightarrow> (string \<times> string) list \<Rightarrow> ExecutionMessage \<Rightarrow> world \<Rightarrow> error option \<times> world" where
  "Publish fault inject msg w =
     (let body = marshal_message msg; headers = publish_headers inject
      in case fault of
           Some e \<Rightarrow> (Some e, w)
         | None \<Rightarrow> (None, w\<lparr>mq := mq w @ [\<lparr>pub_exchange = Exchange, pub_key = RoutingKeyRun,
             pub_headers = headers, pub_body = body\<rparr>]\<rparr>))"

subsection \<open>What is published is what is read\<close>

definition publication :: "(string \<times> string) list \<Rightarrow> ExecutionMessage \<Rightarrow> publishing" where
  "publication inject msg = \<lparr>pub_exchange = Exchange, pub_key = RoutingKeyRun,
     pub_headers = publish_headers inject, pub_body = marshal_message msg\<rparr>"

lemma Publish_eq:
  "Publish fault inject msg w = (case fault of Some e \<Rightarrow> (Some e, w)
     | None \<Rightarrow> (None, w\<lparr>mq := mq w @ [publication inject msg]\<rparr>))"
  by (simp add: Publish_def publication_def Let_def split: option.split)

lemma Get_other: "k \<noteq> j \<Longrightarrow> Get (AList.update j v c) k = Get c k"
  by (simp add: Get_def update_conv)

lemma Get_publish_headers:
  "distinct (map fst inject) \<Longrightarrow> (k, v) \<in> set inject \<Longrightarrow> Get (publish_headers inject) k = v"
  unfolding publish_headers_def by (rule hc.get_fold)

lemma Keys_publish_headers: "set (Keys (\<lambda>c. c) (publish_headers inject)) = fst ` set inject"
  unfolding publish_headers_def hc.keys_fold by (simp add: Keys_def)

text \<open>C35: what the publisher sends is what a worker reads: a successful publish appends one
  message, to the exchange and key of the execution queue, whose body decodes to the message
  with its two keys and its payload, and whose carrier reads back each trace header the
  propagator set, also after RabbitMQ has added its \<open>x-death\<close> header on the way through the
  retry queue; a failed publish sends nothing.\<close>

theorem publish_roundtrip:
  assumes "valid_utf8 (em_TriggerPayload msg)" and "distinct (map fst inject)"
    and "Publish fault inject msg w = (err, w')"
  shows "(fault = None \<longrightarrow> err = None \<and> (\<exists>p. w' = w\<lparr>mq := mq w @ [p]\<rparr> \<and>
            pub_exchange p = Exchange \<and> pub_key p = RoutingKeyRun \<and> unmarshal_message (pub_body p) = Some msg \<and>
            set (Keys (\<lambda>c. c) (pub_headers p)) = fst ` set inject \<and>
            (\<forall>(k, v) \<in> set inject. Get (pub_headers p) k = v \<and>
               (k \<noteq> ''x-death'' \<longrightarrow> Get (AList.update ''x-death'' deaths (pub_headers p)) k = v)))) \<and>
         (\<forall>e. fault = Some e \<longrightarrow> err = Some e \<and> w' = w)"
proof (cases fault)
  case None
  let ?p = "publication inject msg"
  have "w' = w\<lparr>mq := mq w @ [?p]\<rparr>" "err = None"
    using assms(3) None by (auto simp: Publish_eq)
  moreover have "pub_exchange ?p = Exchange" "pub_key ?p = RoutingKeyRun"
    "unmarshal_message (pub_body ?p) = Some msg" "set (Keys (\<lambda>c. c) (pub_headers ?p)) = fst ` set inject"
    using unmarshal_marshal_message [OF assms(1)] Keys_publish_headers by (simp_all add: publication_def)
  moreover have "\<forall>(k, v) \<in> set inject. Get (pub_headers ?p) k = v \<and>
      (k \<noteq> ''x-death'' \<longrightarrow> Get (AList.update ''x-death'' deaths (pub_headers ?p)) k = v)"
    using Get_publish_headers [OF assms(2)] by (auto simp: publication_def Get_other)
  ultimately show ?thesis using None by blast
next
  case (Some e)
  with assms(3) show ?thesis by (auto simp: Publish_eq)
qed

theorem publish_roundtrip_witness:
  "\<exists>p. snd (Publish None [(''traceparent'', ''00-1-2-01'')] \<lparr>em_ExecutionID = 5, em_WorkflowID = 2, em_TriggerPayload = ''{}''\<rparr> empty_world)
       = empty_world\<lparr>mq := [p]\<rparr> \<and>
     unmarshal_message (pub_body p) = Some \<lparr>em_ExecutionID = 5, em_WorkflowID = 2, em_TriggerPayload = ''{}''\<rparr> \<and>
     Get (pub_headers p) ''traceparent'' = ''00-1-2-01''"
proof -
  let ?m = "\<lparr>em_ExecutionID = 5, em_WorkflowID = 2, em_TriggerPayload = ''{}''\<rparr>"
  have u: "valid_utf8 (em_TriggerPayload ?m)" by code_simp
  show ?thesis
    using publish_roundtrip [OF u _ surjective_pairing, of "[(''traceparent'', ''00-1-2-01'')]" None empty_world]
    by (auto simp: empty_world_def)
qed

subsection \<open>The retry loop\<close>

text \<open>
  What the topology relies on of RabbitMQ. Every binding key of the topology is free of
  wildcards, and for such a key a direct and a topic exchange both route a message to the
  queues bound to the exchange with the message's own key. A queue sends a message it
  dead-letters to the exchange and with the key of its two arguments.
\<close>

definition routes_as_declared :: "(string \<Rightarrow> string \<Rightarrow> string list) \<Rightarrow> amqp_decl list \<Rightarrow> bool" where
  "routes_as_declared route ds \<longleftrightarrow> (\<forall>ex key q.
     q \<in> set (route ex key) \<longleftrightarrow> (\<exists>nw. QueueBind q key ex nw \<in> set ds))"

definition dead_letters_as_declared :: "(string \<Rightarrow> (string \<times> string) option) \<Rightarrow> amqp_decl list \<Rightarrow> bool" where
  "dead_letters_as_declared dl ds \<longleftrightarrow> list_all (\<lambda>d. case d of
       QueueDeclare q _ _ _ _ args \<Rightarrow>
         (case (map_of args ''x-dead-letter-exchange'', map_of args ''x-dead-letter-routing-key'') of
            (Some (AStr x), Some (AStr k)) \<Rightarrow> dl q = Some (x, k) | _ \<Rightarrow> True)
     | _ \<Rightarrow> True) ds"

definition ttl_ms :: "string \<Rightarrow> amqp_decl list \<Rightarrow> int option" where
  "ttl_ms q ds = (case concat (map (\<lambda>d. case d of
        QueueDeclare q' _ _ _ _ args \<Rightarrow> if q' = q then [args] else [] | _ \<Rightarrow> []) ds) of
      [] \<Rightarrow> None
    | args # _ \<Rightarrow> (case map_of args ''x-message-ttl'' of Some (AInt32 n) \<Rightarrow> Some (sint n) | _ \<Rightarrow> None))"

lemma declare_seq_ok: "snd (declare_seq amqp ds) = None \<Longrightarrow> fst (declare_seq amqp ds) = map fst ds"
  by (induction ds) (auto split: option.splits prod.splits)

lemma declare_seq_None: "snd (declare_seq amqp ds) = None \<longleftrightarrow> (\<forall>d \<in> fst ` set ds. amqp d = None)"
  by (induction ds) (auto split: option.splits prod.splits)

lemma declare_seq_prefix: "\<exists>rest. map fst ds = fst (declare_seq amqp ds) @ rest"
  by (induction ds) (auto split: option.splits prod.splits)

definition topology :: "amqp_decl list" where
  "topology = fst (declareTopology (\<lambda>d. None))"

lemma topology_eq: "topology =
  [ExchangeDeclare Exchange ''topic'' True False False False,
   ExchangeDeclare DLX ''direct'' True False False False,
   QueueDeclare QueueRun True False False False
     [(''x-dead-letter-exchange'', AStr DLX), (''x-dead-letter-routing-key'', AStr RoutingKeyRun)],
   QueueBind QueueRun RoutingKeyRun Exchange False,
   QueueDeclare QueueRetry True False False False
     [(''x-message-ttl'', AInt32 (word_of_int retryTTLMs)),
      (''x-dead-letter-exchange'', AStr Exchange), (''x-dead-letter-routing-key'', AStr RoutingKeyRun)],
   QueueBind QueueRetry RoutingKeyRun DLX False]"
  by (simp add: topology_def declareTopology_def)

lemma declareTopology_ok: "snd (declareTopology amqp) = None \<Longrightarrow> fst (declareTopology amqp) = topology"
  unfolding declareTopology_def topology_eq by (drule declare_seq_ok) simp

lemma declareTopology_None: "snd (declareTopology amqp) = None \<longleftrightarrow> (\<forall>d \<in> set topology. amqp d = None)"
  by (simp add: declareTopology_def declare_seq_None topology_eq del: declare_seq.simps)

lemma declareTopology_prefix: "\<exists>rest. topology = fst (declareTopology amqp) @ rest"
proof -
  obtain rest where "map fst [(ExchangeDeclare Exchange ''topic'' True False False False, ''exchange '' @ quoted Exchange),
      (ExchangeDeclare DLX ''direct'' True False False False, ''exchange '' @ quoted DLX),
      (QueueDeclare QueueRun True False False False
         [(''x-dead-letter-exchange'', AStr DLX), (''x-dead-letter-routing-key'', AStr RoutingKeyRun)],
       ''queue '' @ quoted QueueRun),
      (QueueBind QueueRun RoutingKeyRun Exchange False, ''bind '' @ quoted QueueRun),
      (QueueDeclare QueueRetry True False False False
         [(''x-message-ttl'', AInt32 (word_of_int retryTTLMs)),
          (''x-dead-letter-exchange'', AStr Exchange), (''x-dead-letter-routing-key'', AStr RoutingKeyRun)],
       ''queue '' @ quoted QueueRetry),
      (QueueBind QueueRetry RoutingKeyRun DLX False, ''bind '' @ quoted QueueRetry)] = fst (declareTopology amqp) @ rest"
    unfolding declareTopology_def using declare_seq_prefix by blast
  then show ?thesis by (simp add: topology_eq)
qed

text \<open>The topology is the retry loop: once every declaration has succeeded, a message
  published by the gateway is routed to the execution queue only; rejected there, it is
  dead-lettered to the retry queue only; and after its ten seconds there it is dead-lettered to
  the execution queue again and to no other.\<close>

theorem retry_loop:
  assumes "snd (declareTopology amqp) = None"
    and "routes_as_declared route (fst (declareTopology amqp))"
    and "dead_letters_as_declared dl (fst (declareTopology amqp))"
  shows "set (route Exchange RoutingKeyRun) = {QueueRun} \<and>
    (\<exists>x k. dl QueueRun = Some (x, k) \<and> set (route x k) = {QueueRetry}) \<and>
    (\<exists>x k. dl QueueRetry = Some (x, k) \<and> set (route x k) = {QueueRun}) \<and>
    ttl_ms QueueRetry (fst (declareTopology amqp)) = Some 10000 \<and>
    ttl_ms QueueRun (fst (declareTopology amqp)) = None"
proof -
  have t: "fst (declareTopology amqp) = topology" using assms(1) by (rule declareTopology_ok)
  have ne: "Exchange \<noteq> DLX" "QueueRun \<noteq> QueueRetry"
    by (simp_all add: Exchange_def DLX_def QueueRun_def QueueRetry_def)
  have r: "q \<in> set (route ex key) \<longleftrightarrow> (ex = Exchange \<and> key = RoutingKeyRun \<and> q = QueueRun) \<or>
      (ex = DLX \<and> key = RoutingKeyRun \<and> q = QueueRetry)" for q ex key
    using assms(2) unfolding t routes_as_declared_def topology_eq by auto
  have d: "dl QueueRun = Some (DLX, RoutingKeyRun)" "dl QueueRetry = Some (Exchange, RoutingKeyRun)"
    using assms(3) unfolding t by (simp_all add: dead_letters_as_declared_def topology_eq)
  have "ttl_ms QueueRetry topology = Some 10000" "ttl_ms QueueRun topology = None"
    by code_simp+
  moreover have "set (route Exchange RoutingKeyRun) = {QueueRun}" "set (route DLX RoutingKeyRun) = {QueueRetry}"
    using ne by (auto simp: r)
  ultimately show ?thesis unfolding t using d by blast
qed

theorem retry_loop_witness:
  "set ((\<lambda>ex key. if key \<noteq> RoutingKeyRun then [] else if ex = Exchange then [QueueRun] else if ex = DLX then [QueueRetry] else [])
     Exchange RoutingKeyRun) = {QueueRun}"
proof -
  let ?route = "\<lambda>ex key. if key \<noteq> RoutingKeyRun then [] else if ex = Exchange then [QueueRun] else if ex = DLX then [QueueRetry] else []"
  let ?dl = "\<lambda>q. if q = QueueRun then Some (DLX, RoutingKeyRun) else if q = QueueRetry then Some (Exchange, RoutingKeyRun) else None"
  have ne: "Exchange \<noteq> DLX" "QueueRun \<noteq> QueueRetry"
    by (simp_all add: Exchange_def DLX_def QueueRun_def QueueRetry_def)
  have n: "snd (declareTopology (\<lambda>d. None)) = None" by (simp add: declareTopology_None)
  have r: "routes_as_declared ?route (fst (declareTopology (\<lambda>d. None)))"
    using ne unfolding declareTopology_ok [OF n] routes_as_declared_def topology_eq by auto
  have d: "dead_letters_as_declared ?dl (fst (declareTopology (\<lambda>d. None)))"
    using ne unfolding declareTopology_ok [OF n] by (simp add: dead_letters_as_declared_def topology_eq)
  show ?thesis using retry_loop [OF n r d] by blast
qed

text \<open>Opening a publisher is all or nothing: \<open>New\<close> returns a publisher exactly when the
  dial, the channel and all six declarations succeed, and it is then open with the whole
  topology declared; otherwise it returns an error, everything it opened is closed, and what it
  declared is an initial part of the topology.\<close>

theorem new_publisher_all_or_nothing:
  "(case New dial channel amqp of
      (Inr p, opened, issued) \<Rightarrow> p_conn p \<and> p_ch p \<and> opened = p \<and> issued = topology \<and>
        dial = None \<and> channel = None \<and> (\<forall>d \<in> set topology. amqp d = None)
    | (Inl e, opened, issued) \<Rightarrow> \<not> p_conn opened \<and> \<not> p_ch opened \<and> (\<exists>rest. topology = issued @ rest) \<and>
        \<not> (dial = None \<and> channel = None \<and> (\<forall>d \<in> set topology. amqp d = None)))"
proof (cases "declareTopology amqp")
  case (Pair issued err)
  then show ?thesis
    using declareTopology_ok [of amqp] declareTopology_None [of amqp] declareTopology_prefix [of amqp]
    by (cases err) (auto simp: New_def Close_def Let_def split: option.split)
qed

theorem new_publisher_all_or_nothing_witness:
  "p_ch (fst (snd (New None None (\<lambda>d. None)))) \<and>
   \<not> p_conn (fst (snd (New None None (\<lambda>d. if d = QueueBind QueueRetry RoutingKeyRun DLX False then Some ''refused'' else None))))"
proof -
  have m: "QueueBind QueueRetry RoutingKeyRun DLX False \<in> set topology" by (simp add: topology_eq)
  show ?thesis
    using new_publisher_all_or_nothing [of None None "\<lambda>d. None"]
      new_publisher_all_or_nothing [of None None "\<lambda>d. if d = QueueBind QueueRetry RoutingKeyRun DLX False then Some ''refused'' else None"] m
    by (auto split: prod.splits sum.splits)
qed

end
