(* ===== verification/GoTime.thy ===== *)
theory GoTime
  imports Prelude
begin

section \<open>time.Time.Format\<close>

text \<open>
  \<open>Format("2006-01-02T15:04:05Z07:00")\<close> of package time, for the instants from the epoch on.
  \<open>zone\<close> is the offset in seconds that the process's time zone has at the instant. The date is
  computed from the number of days since 1 March of the year 0, in 400-year cycles.
\<close>

definition year_of_era :: "nat \<Rightarrow> nat" where
  "year_of_era doe = (doe - doe div 1460 + doe div 36524 - doe div 146096) div 365"

definition day_of_year :: "nat \<Rightarrow> nat \<Rightarrow> nat" where
  "day_of_year doe yoe = doe - (365 * yoe + yoe div 4 - yoe div 100)"

fun month_day :: "nat \<Rightarrow> nat \<times> nat \<Rightarrow> nat \<times> nat \<times> nat" where
  "month_day y (doy, mp) =
     (if mp < 10 then (y, mp + 3, doy - (153 * mp + 2) div 5 + 1)
      else (y + 1, mp - 9, doy - (153 * mp + 2) div 5 + 1))"

definition of_doy :: "nat \<Rightarrow> nat \<Rightarrow> nat \<times> nat \<times> nat" where
  "of_doy y doy = month_day y (doy, (5 * doy + 2) div 153)"

definition of_era :: "nat \<Rightarrow> nat \<Rightarrow> nat \<times> nat \<times> nat" where
  "of_era era doe = of_doy (year_of_era doe + era * 400) (day_of_year doe (year_of_era doe))"

definition civil :: "nat \<Rightarrow> nat \<times> nat \<times> nat" where
  "civil days = of_era ((days + 719468) div 146097) ((days + 719468) mod 146097)"

definition pad_left :: "nat \<Rightarrow> string \<Rightarrow> string" where
  "pad_left n s = replicate (n - length s) (CHR ''0'') @ s"

definition pad :: "nat \<Rightarrow> nat \<Rightarrow> string" where
  "pad n k = pad_left n (show_nat k)"

definition fmt_zone :: "int \<Rightarrow> string" where
  "fmt_zone off = (if off = 0 then ''Z''
     else (if off \<le> -60 then ''-'' else ''+'') @ pad 2 (nat \<bar>off\<bar> div 3600) @ '':'' @ pad 2 (nat \<bar>off\<bar> mod 3600 div 60))"

definition fmt_date :: "nat \<times> nat \<times> nat \<Rightarrow> string" where
  "fmt_date ymd = (case ymd of (y, m, d) \<Rightarrow> pad 4 y @ ''-'' @ pad 2 m @ ''-'' @ pad 2 d)"

definition fmt_clock :: "nat \<Rightarrow> string" where
  "fmt_clock sod = pad 2 (sod div 3600) @ '':'' @ pad 2 (sod mod 3600 div 60) @ '':'' @ pad 2 (sod mod 60)"

definition fmt_secs :: "nat \<Rightarrow> string" where
  "fmt_secs s = fmt_date (civil (s div 86400)) @ ''T'' @ fmt_clock (s mod 86400)"

definition Format :: "int \<Rightarrow> time \<Rightarrow> string" where
  "Format zone t = fmt_secs (nat (t div second + zone)) @ fmt_zone zone"

lemma digit_chars:
  "digit_char 0 = CHR ''0''" "digit_char (Suc 0) = CHR ''1''" "digit_char 2 = CHR ''2''" "digit_char 3 = CHR ''3''"
  "digit_char 4 = CHR ''4''" "digit_char 5 = CHR ''5''" "digit_char 6 = CHR ''6''" "digit_char 7 = CHR ''7''"
  "digit_char 8 = CHR ''8''" "digit_char 9 = CHR ''9''"
  by code_simp+

text \<open>The epoch, a leap day, the end of a century, and two zones.\<close>

lemma Format_samples:
  "Format 0 0 = ''1970-01-01T00:00:00Z''"
  "Format 25200 (951782400 * second) = ''2000-02-29T07:00:00+07:00''"
  "Format 0 (4102444799 * second + 5) = ''2099-12-31T23:59:59Z''"
  "Format (-12600) (1709251199 * second) = ''2024-02-29T20:29:59-03:30''"
  by (simp_all add: Format_def fmt_secs_def fmt_date_def fmt_clock_def civil_def of_era_def of_doy_def
      year_of_era_def day_of_year_def pad_def pad_left_def fmt_zone_def show_nat.simps digit_chars second_def)

end
