(* ===== verification/Executions.thy ===== *)
theory Executions
  imports Queue Workflows GoTime
begin

section \<open>Executions in the gateway: executionlogic.go\<close>

text \<open>
  \<open>api-gateway/internal/logic/executionlogic.go\<close>: triggering a workflow, and reading the
  executions and their step logs. \<open>zone\<close> is the offset of the process's time zone, \<open>now\<close> what
  \<open>time.Now\<close> returns, \<open>inject\<close> what the trace propagator writes for the request's context.
\<close>

subsection \<open>Requests and responses\<close>

record TriggerReq =
  tr_WorkflowId :: int64
  tr_Payload :: string

record TriggerResp =
  ts_Message :: string
  ts_ExecutionId :: int64

record StepLogItem =
  si_Id :: int64
  si_StepID :: string
  si_StepType :: string
  si_Status :: string
  si_Input :: string
  si_Output :: string
  si_Error :: string
  si_DurationMs :: int64

record ExecutionItem =
  ei_Id :: int64
  ei_Status :: string
  ei_StartedAt :: string
  ei_StepLogs :: "StepLogItem list"

record ListExecutionsResp =
  le_Items :: "ExecutionItem list"
  le_Total :: int64

subsection \<open>Handlers\<close>

definition set_executions :: "execution table \<Rightarrow> world \<Rightarrow> world" where
  "set_executions t w = w\<lparr>db := (db w)\<lparr>executions := t\<rparr>\<rparr>"

definition TriggerWorkflow :: "(string \<Rightarrow> error + string) \<Rightarrow> (string \<times> string) list \<Rightarrow> time \<Rightarrow> faults \<Rightarrow> TriggerReq
    \<Rightarrow> world \<Rightarrow> (error + TriggerResp) \<times> world" where
  "TriggerWorkflow jsonb inject now F req w =
     (case db_first (f_read F) live_wf (workflows (db w)) (sint (tr_WorkflowId req)) of
        Inl e \<Rightarrow> (Inl (load_error e), w)
      | Inr wk \<Rightarrow>
          let payload = (if tr_Payload req = [] then ''{}'' else tr_Payload req) in
          (case jsonb payload of Inl e \<Rightarrow> (Inl e, w)
           | Inr stored \<Rightarrow> (case db_create (f_write F)
               (\<lambda>i. \<lparr>ex_ID = i, ex_DeletedAt = None, ex_WorkflowID = tr_WorkflowId req, ex_Status = ''pending'',
                  ex_StartedAt = now, ex_FinishedAt = None, ex_TriggerPayload = stored\<rparr>)
               (executions (db w)) of
             Inl e \<Rightarrow> (Inl e, w)
           | Inr (i, t) \<Rightarrow>
               let msg = \<lparr>em_ExecutionID = i, em_WorkflowID = tr_WorkflowId req, em_TriggerPayload = payload\<rparr> in
               (case Publish (f_publish F) inject msg (set_executions t w) of
                  (Some e, w') \<Rightarrow> (Inl (''enqueue execution: '' @ e), w')
                | (None, w') \<Rightarrow> (Inr \<lparr>ts_Message = ''execution queued'', ts_ExecutionId = i\<rparr>, w')))))"

definition ListExecutions :: "(execution list \<Rightarrow> execution list) \<Rightarrow> int \<Rightarrow> faults \<Rightarrow> int64 \<Rightarrow> world
    \<Rightarrow> error + ListExecutionsResp" where
  "ListExecutions order zone F workflowId w =
     (case db_find (f_read F) order (\<lambda>ex. db_key (ex_WorkflowID ex) = sint workflowId \<and> live_ex ex) (executions (db w)) of
        Inl e \<Rightarrow> Inl e
      | Inr exs \<Rightarrow>
          let items = map (\<lambda>ex. \<lparr>ei_Id = ex_ID ex, ei_Status = ex_Status ex,
                        ei_StartedAt = Format zone (ex_StartedAt ex), ei_StepLogs = []\<rparr>) exs
          in Inr \<lparr>le_Items = items, le_Total = of_nat (length items)\<rparr>)"

definition toStepLogItem :: "step_log \<Rightarrow> StepLogItem" where
  "toStepLogItem s = \<lparr>si_Id = sl_ID s, si_StepID = sl_StepID s, si_StepType = sl_StepType s,
     si_Status = sl_Status s, si_Input = sl_Input s, si_Output = sl_Output s, si_Error = sl_Error s,
     si_DurationMs = sl_DurationMs s\<rparr>"

text \<open>
  The query of the step logs (\<open>Preload\<close>) is a call of its own, which can fail by itself
  (\<open>preload\<close>). No code deletes a step log.
\<close>

definition GetExecution :: "(step_log list \<Rightarrow> step_log list) \<Rightarrow> int \<Rightarrow> error option \<Rightarrow> faults \<Rightarrow> int64 \<Rightarrow> world
    \<Rightarrow> error + ExecutionItem" where
  "GetExecution order zone preload F i w =
     (case db_first (f_read F) live_ex (executions (db w)) (sint i) of
        Inl RecordNotFound \<Rightarrow> Inl ''execution not found''
      | Inl (DbError e) \<Rightarrow> Inl e
      | Inr ex \<Rightarrow> (case db_find preload order (\<lambda>s. sl_ExecutionID s = ex_ID ex) (step_logs (db w)) of
          Inl e \<Rightarrow> Inl e
        | Inr logs \<Rightarrow> Inr \<lparr>ei_Id = ex_ID ex, ei_Status = ex_Status ex,
            ei_StartedAt = Format zone (ex_StartedAt ex), ei_StepLogs = map toStepLogItem logs\<rparr>))"

end
