(* ===== verification/ExecutionProps.thy ===== *)
theory ExecutionProps
  imports Executions WorkflowProps
begin

section \<open>Executions in the gateway: what holds of them\<close>

text \<open>
  The lemmas and properties of the handlers of \<open>Executions\<close>: what a trigger leaves in the
  database and on the queue on each of its branches, and what the two readers return.
\<close>

subsection \<open>Triggering\<close>

definition trigger_payload :: "TriggerReq \<Rightarrow> string" where
  "trigger_payload req = (if tr_Payload req = [] then ''{}'' else tr_Payload req)"

definition pending_row :: "uint64 \<Rightarrow> uint64 \<Rightarrow> time \<Rightarrow> string \<Rightarrow> execution" where
  "pending_row wid i now stored = \<lparr>ex_ID = i, ex_DeletedAt = None, ex_WorkflowID = wid, ex_Status = ''pending'',
     ex_StartedAt = now, ex_FinishedAt = None, ex_TriggerPayload = stored\<rparr>"

definition queued_message :: "TriggerReq \<Rightarrow> uint64 \<Rightarrow> ExecutionMessage" where
  "queued_message req i =
     \<lparr>em_ExecutionID = i, em_WorkflowID = tr_WorkflowId req, em_TriggerPayload = trigger_payload req\<rparr>"

lemma TriggerWorkflow_eq:
  "TriggerWorkflow jsonb inject now F req w =
     (case db_first (f_read F) live_wf (workflows (db w)) (sint (tr_WorkflowId req)) of
        Inl e \<Rightarrow> (Inl (load_error e), w)
      | Inr wk \<Rightarrow> (case jsonb (trigger_payload req) of Inl e \<Rightarrow> (Inl e, w)
      | Inr stored \<Rightarrow> (case db_create (f_write F) (\<lambda>i. pending_row (tr_WorkflowId req) i now stored) (executions (db w)) of
          Inl e \<Rightarrow> (Inl e, w)
        | Inr (i, t) \<Rightarrow> (case f_publish F of
            Some e \<Rightarrow> (Inl (''enqueue execution: '' @ e), set_executions t w)
          | None \<Rightarrow> (Inr \<lparr>ts_Message = ''execution queued'', ts_ExecutionId = i\<rparr>,
              (set_executions t w)\<lparr>mq := mq w @ [publication inject (queued_message req i)]\<rparr>)))))"
  unfolding TriggerWorkflow_def trigger_payload_def [symmetric] pending_row_def [symmetric] Let_def Publish_eq
    queued_message_def
  by (simp add: set_executions_def split: sum.split option.split prod.split)

text \<open>The five ways a trigger ends.\<close>

lemma TriggerWorkflow_cases:
  assumes "TriggerWorkflow jsonb inject now F req w = (r, w')"
  obtains
    (load) e where "db_first (f_read F) live_wf (workflows (db w)) (sint (tr_WorkflowId req)) = Inl e"
      "r = Inl (load_error e)" "w' = w"
  | (payload) wk e where "db_first (f_read F) live_wf (workflows (db w)) (sint (tr_WorkflowId req)) = Inr wk"
      "jsonb (trigger_payload req) = Inl e" "r = Inl e" "w' = w"
  | (create) wk e where "db_first (f_read F) live_wf (workflows (db w)) (sint (tr_WorkflowId req)) = Inr wk"
      "r = Inl e" "w' = w"
  | (enqueue) wk stored i t e where "db_first (f_read F) live_wf (workflows (db w)) (sint (tr_WorkflowId req)) = Inr wk"
      "jsonb (trigger_payload req) = Inr stored"
      "db_create (f_write F) (\<lambda>i. pending_row (tr_WorkflowId req) i now stored) (executions (db w)) = Inr (i, t)"
      "f_publish F = Some e" "r = Inl (''enqueue execution: '' @ e)" "w' = set_executions t w"
  | (queued) wk stored i t where "db_first (f_read F) live_wf (workflows (db w)) (sint (tr_WorkflowId req)) = Inr wk"
      "jsonb (trigger_payload req) = Inr stored"
      "db_create (f_write F) (\<lambda>i. pending_row (tr_WorkflowId req) i now stored) (executions (db w)) = Inr (i, t)"
      "f_publish F = None" "r = Inr \<lparr>ts_Message = ''execution queued'', ts_ExecutionId = i\<rparr>"
      "w' = (set_executions t w)\<lparr>mq := mq w @ [publication inject (queued_message req i)]\<rparr>"
proof (cases "db_first (f_read F) live_wf (workflows (db w)) (sint (tr_WorkflowId req))")
  case (Inl e)
  then show ?thesis by (rule load) (use assms Inl in \<open>simp_all add: TriggerWorkflow_eq\<close>)
next
  case l: (Inr wk)
  show ?thesis
  proof (cases "jsonb (trigger_payload req)")
    case (Inl e)
    then show ?thesis by (rule payload [OF l]) (use assms Inl l in \<open>simp_all add: TriggerWorkflow_eq\<close>)
  next
    case j: (Inr stored)
    show ?thesis
    proof (cases "db_create (f_write F) (\<lambda>i. pending_row (tr_WorkflowId req) i now stored) (executions (db w))")
      case (Inl e)
      show ?thesis by (rule create [OF l, of e]) (use assms Inl l j in \<open>simp_all add: TriggerWorkflow_eq\<close>)
    next
      case (Inr it)
      obtain i t where it: "it = (i, t)" by (cases it)
      show ?thesis
      proof (cases "f_publish F")
        case None
        show ?thesis
          by (rule queued [OF l j Inr [unfolded it] None]) (use assms Inr it l j None in \<open>simp_all add: TriggerWorkflow_eq\<close>)
      next
        case (Some e)
        show ?thesis
          by (rule enqueue [OF l j Inr [unfolded it] Some]) (use assms Inr it l j Some in \<open>simp_all add: TriggerWorkflow_eq\<close>)
      qed
    qed
  qed
qed

lemma db_set_executions [simp]: "db (set_executions t w) = (db w)\<lparr>executions := t\<rparr>"
  "cache (set_executions t w) = cache w" "pubsub (set_executions t w) = pubsub w" "mq (set_executions t w) = mq w"
  by (simp_all add: set_executions_def)

lemma pending_created:
  assumes ok: "db_ok (db w)" and c: "db_create f (\<lambda>i. pending_row wid i now stored) (executions (db w)) = Inr (i, t)"
  shows "lookup (executions (db w)) (sint i) = None"
    and "lookup t k = (if k = sint i then Some (pending_row wid i now stored) else lookup (executions (db w)) k)"
    and "sint i = next_key (executions (db w))"
proof -
  have tb: "table_ok ex_ID (executions (db w))" using ok by (simp add: db_ok_def)
  note n = db_createD [OF c]
  show i: "sint i = next_key (executions (db w))"
    using n(1,3) tb by (simp add: table_ok_def key_limit_def sint_sbintrunc' signed_take_bit_int_eq_self)
  show "lookup (executions (db w)) (sint i) = None" using rs.look_fresh [OF tb] i by simp
  show "lookup t k = (if k = sint i then Some (pending_row wid i now stored) else lookup (executions (db w)) k)"
    using n rs.look_ins [OF tb] i by simp
qed

definition sample_trigger :: TriggerReq where
  "sample_trigger = \<lparr>tr_WorkflowId = 2, tr_Payload = []\<rparr>"

text \<open>C15: a successful trigger creates one pending execution and enqueues one message for
  it: the workflow is a live row, the execution's key is new, its row is pending for that
  workflow, every other row stays, and the message decodes to this execution, this workflow and
  the payload (an empty one being \<open>{}\<close>).\<close>

theorem trigger_enqueues:
  assumes "db_ok (db w)" and "TriggerWorkflow jsonb inject now F req w = (Inr resp, w')"
    and "valid_utf8 (trigger_payload req)"
  shows "\<exists>wk stored p. lookup (workflows (db w)) (sint (tr_WorkflowId req)) = Some wk \<and> live_wf wk \<and>
    jsonb (trigger_payload req) = Inr stored \<and>
    lookup (executions (db w)) (sint (ts_ExecutionId resp)) = None \<and>
    (\<forall>k. lookup (executions (db w')) k = (if k = sint (ts_ExecutionId resp)
       then Some (pending_row (tr_WorkflowId req) (ts_ExecutionId resp) now stored)
       else lookup (executions (db w)) k)) \<and>
    workflows (db w') = workflows (db w) \<and> step_logs (db w') = step_logs (db w) \<and>
    cache w' = cache w \<and> mq w' = mq w @ [p] \<and> pub_exchange p = Exchange \<and> pub_key p = RoutingKeyRun \<and>
    unmarshal_message (pub_body p) = Some \<lparr>em_ExecutionID = ts_ExecutionId resp,
      em_WorkflowID = tr_WorkflowId req, em_TriggerPayload = trigger_payload req\<rparr>"
  using assms(2)
proof (cases rule: TriggerWorkflow_cases)
  case (queued wk stored i t)
  note q = queued and c = pending_created [OF assms(1) queued(3)]
  let ?m = "queued_message req i"
  have "unmarshal_message (marshal_message ?m) = Some ?m"
    using assms(3) by (intro unmarshal_marshal_message) (simp add: queued_message_def)
  then show ?thesis
    using q c db_firstD [OF q(1)]
    by (intro exI [of _ wk] exI [of _ stored] exI [of _ "publication inject ?m"])
      (simp add: publication_def queued_message_def)
qed simp_all

text \<open>C39: a trigger that fails enqueues nothing. It leaves the state as it was, unless the
  publish itself failed: then the execution it had created stays behind, pending, with no message that
  would run it.\<close>

theorem trigger_failure:
  assumes "db_ok (db w)" and "TriggerWorkflow jsonb inject now F req w = (Inl err, w')"
  shows "mq w' = mq w \<and> (w' = w \<or>
    (\<exists>e i stored. f_publish F = Some e \<and> err = ''enqueue execution: '' @ e \<and>
       lookup (executions (db w)) (sint i) = None \<and>
       lookup (executions (db w')) (sint i) = Some (pending_row (tr_WorkflowId req) i now stored)))"
  using assms(2)
proof (cases rule: TriggerWorkflow_cases)
  case (enqueue wk stored i t e)
  then show ?thesis using pending_created [OF assms(1) enqueue(3)] by auto
qed simp_all

theorem trigger_enqueues_witness:
  "\<exists>p. mq (snd (TriggerWorkflow sample_jsonb [] 5 no_faults sample_trigger sample_world)) = [p] \<and>
     unmarshal_message (pub_body p) = Some \<lparr>em_ExecutionID = 1, em_WorkflowID = 2, em_TriggerPayload = ''{}''\<rparr>"
proof -
  have t: "TriggerWorkflow sample_jsonb [] 5 no_faults sample_trigger sample_world =
      (Inr \<lparr>ts_Message = ''execution queued'', ts_ExecutionId = 1\<rparr>,
       snd (TriggerWorkflow sample_jsonb [] 5 no_faults sample_trigger sample_world))"
    by (rule pair_fst) code_simp
  have d: "db_ok (db sample_world)" using sample_db_ok by (simp add: sample_world_def)
  have u: "valid_utf8 (trigger_payload sample_trigger)" by code_simp
  have e: "tr_WorkflowId sample_trigger = 2" "trigger_payload sample_trigger = ''{}''" "mq sample_world = []"
    by code_simp+
  show ?thesis using trigger_enqueues [OF d t u] e by auto
qed

theorem trigger_failure_witness:
  "mq (snd (TriggerWorkflow sample_jsonb [] 5 (no_faults\<lparr>f_publish := Some ''closed''\<rparr>) sample_trigger sample_world)) = []"
proof -
  let ?t = "TriggerWorkflow sample_jsonb [] 5 (no_faults\<lparr>f_publish := Some ''closed''\<rparr>) sample_trigger sample_world"
  have t: "?t = (Inl ''enqueue execution: closed'', snd ?t)"
    by (rule pair_fst) code_simp
  have d: "db_ok (db sample_world)" using sample_db_ok by (simp add: sample_world_def)
  have "mq sample_world = []" by code_simp
  then show ?thesis using trigger_failure [OF d t] by simp
qed

subsection \<open>The state stays well-formed\<close>

lemma TriggerWorkflow_ok:
  assumes ok: "gateway_ok w" and t: "TriggerWorkflow jsonb inject now F req w = (r, w')"
  shows "gateway_ok w'"
proof -
  have "gateway_ok (set_executions t w)"
    if l: "db_first (f_read F) live_wf (workflows (db w)) (sint (tr_WorkflowId req)) = Inr wk"
      and c: "db_create (f_write F) (\<lambda>i. pending_row (tr_WorkflowId req) i now stored) (executions (db w)) = Inr (i, t)"
    for wk i t stored
  proof -
    have k: "sint (tr_WorkflowId req) = db_key (tr_WorkflowId req)"
    proof -
      have "sint (wf_ID wk) = sint (tr_WorkflowId req)" "db_key (wf_ID wk) = sint (tr_WorkflowId req)"
        using live_key [OF gateway_ok_table [OF ok] db_firstD(1) [OF l]] loaded_key [OF ok l] by simp_all
      then show ?thesis by (metis signed_word_eqI)
    qed
    have "db_ok ((db w)\<lparr>executions := t\<rparr>)"
      using ok db_firstD(1) [OF l] k by (intro db_ok_create_execution [OF _ c, of "tr_WorkflowId req"])
        (simp_all add: gateway_ok_def pending_row_def)
    with ok show ?thesis by (simp add: gateway_ok_def cache_ok_def coherent_def cache_look_def cached_truth_def)
  qed
  then show ?thesis
    using t ok by (cases rule: TriggerWorkflow_cases [OF t])
      (auto simp: gateway_ok_def cache_ok_def coherent_def cache_look_def)
qed

subsection \<open>Reading executions\<close>

definition execution_item :: "int \<Rightarrow> execution \<Rightarrow> StepLogItem list \<Rightarrow> ExecutionItem" where
  "execution_item zone ex logs = \<lparr>ei_Id = ex_ID ex, ei_Status = ex_Status ex,
     ei_StartedAt = Format zone (ex_StartedAt ex), ei_StepLogs = logs\<rparr>"

lemma ex_key: "table_ok ex_ID (executions d) \<Longrightarrow> lookup (executions d) k = Some ex \<Longrightarrow> sint (ex_ID ex) = k"
  by (rule row_sint)

lemma ListExecutions_items:
  assumes "db_ok (db w)" and "ListExecutions order zone F wid w = Inr resp" and "\<And>xs. mset (order xs) = mset xs"
  shows "item \<in> set (le_Items resp) \<longleftrightarrow> (\<exists>k ex. lookup (executions (db w)) k = Some ex \<and> live_ex ex \<and>
    db_key (ex_WorkflowID ex) = sint wid \<and> item = execution_item zone ex [])"
proof -
  have t: "table_ok ex_ID (executions (db w))" using assms(1) by (simp add: db_ok_def)
  let ?P = "\<lambda>ex. db_key (ex_WorkflowID ex) = sint wid \<and> live_ex ex"
  have "le_Items resp = map (\<lambda>ex. execution_item zone ex []) (order (filter ?P (map snd (rows (executions (db w))))))"
    using assms(2) by (auto simp: ListExecutions_def db_find_def execution_item_def Let_def split: option.splits)
  then have "set (le_Items resp) = (\<lambda>ex. execution_item zone ex []) ` {ex \<in> snd ` set (rows (executions (db w))). ?P ex}"
    using perm_set [OF assms(3)] by simp
  then show ?thesis using lookup_range [OF t] by auto
qed

text \<open>The two readers of executions agree: the list of a workflow holds exactly its live
  executions, and reading any of them by its id returns the same item together with the step
  logs of that execution, each once.\<close>

theorem list_and_get_executions_agree:
  assumes "db_ok (db w)" and "ListExecutions order zone F wid w = Inr resp"
    and "\<And>xs. mset (order xs) = mset xs" and "\<And>xs. mset (order' xs) = mset xs"
    and "f_read G = None"
  shows "(item \<in> set (le_Items resp) \<longleftrightarrow> (\<exists>k ex. lookup (executions (db w)) k = Some ex \<and> live_ex ex \<and>
           db_key (ex_WorkflowID ex) = sint wid \<and> item = execution_item zone ex [])) \<and>
    (item \<in> set (le_Items resp) \<longrightarrow> (\<exists>logs. GetExecution order' zone None G (ei_Id item) w = Inr (item\<lparr>ei_StepLogs := logs\<rparr>) \<and>
       mset logs = image_mset toStepLogItem (mset (filter (\<lambda>s. sl_ExecutionID s = ei_Id item) (map snd (rows (step_logs (db w))))))))"
proof (intro conjI impI)
  show i: "item \<in> set (le_Items resp) \<longleftrightarrow> (\<exists>k ex. lookup (executions (db w)) k = Some ex \<and> live_ex ex \<and>
           db_key (ex_WorkflowID ex) = sint wid \<and> item = execution_item zone ex [])"
    by (rule ListExecutions_items [OF assms(1-3)])
  assume "item \<in> set (le_Items resp)"
  then obtain k ex where e: "lookup (executions (db w)) k = Some ex" "live_ex ex" "item = execution_item zone ex []"
    using i by blast
  have "sint (ex_ID ex) = k" using assms(1) e(1) by (intro ex_key) (simp_all add: db_ok_def)
  then have f: "db_first (f_read G) live_ex (executions (db w)) (sint (ex_ID ex)) = Inr ex"
    using e assms(5) by (simp add: db_first_None)
  show "\<exists>logs. GetExecution order' zone None G (ei_Id item) w = Inr (item\<lparr>ei_StepLogs := logs\<rparr>) \<and>
       mset logs = image_mset toStepLogItem (mset (filter (\<lambda>s. sl_ExecutionID s = ei_Id item) (map snd (rows (step_logs (db w))))))"
    using f e(3) assms(4) by (simp add: GetExecution_def db_find_def execution_item_def)
qed

text \<open>A triggered execution can be read at once: \<open>GetExecution\<close> of the id in the
  response returns it as pending, started at the trigger's time, without step logs.\<close>

theorem trigger_then_get:
  assumes "gateway_ok w" and "TriggerWorkflow jsonb inject now F req w = (Inr resp, w')"
    and "\<And>xs. mset (order xs) = mset xs" and "f_read G = None"
  shows "GetExecution order zone None G (ts_ExecutionId resp) w' =
    Inr \<lparr>ei_Id = ts_ExecutionId resp, ei_Status = ''pending'', ei_StartedAt = Format zone now, ei_StepLogs = []\<rparr>"
  using assms(2)
proof (cases rule: TriggerWorkflow_cases)
  case (queued wk stored i t)
  have ok: "db_ok (db w)" using assms(1) by (simp add: gateway_ok_def)
  note c = pending_created [OF ok queued(3)]
  have "sl_ExecutionID l \<noteq> i" if "(k, l) \<in> set (rows (step_logs (db w)))" for k l
  proof
    assume "sl_ExecutionID l = i"
    moreover have "lookup (step_logs (db w)) k = Some l"
      using that ok lookup_row [of sl_ID "step_logs (db w)"] by (simp add: db_ok_def)
    ultimately obtain e where e: "lookup (executions (db w)) (db_key i) = Some e"
      using refs_okD(2) [OF ok] by fastforce
    have t: "table_ok ex_ID (executions (db w))" using ok by (simp add: db_ok_def)
    have "sint (ex_ID e) = db_key i" "db_key (ex_ID e) = db_key i"
      using ex_key [OF t e] lookup_key_eq [OF t e] by simp_all
    then have "db_key i = sint i" by (metis db_key_def word_of_int_uint)
    with c(1) e show False by simp
  qed
  then have "filter (\<lambda>s. sl_ExecutionID s = i) (map snd (rows (step_logs (db w)))) = []"
    unfolding filter_empty_conv by fastforce
  then have "order (filter (\<lambda>s. sl_ExecutionID s = i) (map snd (rows (step_logs (db w))))) = []"
    using assms(3) by (metis mset_zero_iff)
  moreover have "db_first (f_read G) live_ex (executions (db w')) (sint i) = Inr (pending_row (tr_WorkflowId req) i now stored)"
    using queued(6) c(2) assms(4) by (simp add: db_first_None live_ex_def pending_row_def)
  ultimately show ?thesis
    using queued by (simp add: GetExecution_def db_find_def pending_row_def)
qed simp_all

theorem trigger_then_get_witness:
  "GetExecution rev 0 None no_faults 1 (snd (TriggerWorkflow sample_jsonb [] 5 no_faults sample_trigger sample_world)) =
    Inr \<lparr>ei_Id = 1, ei_Status = ''pending'', ei_StartedAt = Format 0 5, ei_StepLogs = []\<rparr>"
proof -
  have t: "TriggerWorkflow sample_jsonb [] 5 no_faults sample_trigger sample_world =
      (Inr \<lparr>ts_Message = ''execution queued'', ts_ExecutionId = 1\<rparr>,
       snd (TriggerWorkflow sample_jsonb [] 5 no_faults sample_trigger sample_world))"
    by (rule pair_fst) code_simp
  show ?thesis using trigger_then_get [OF sample_ok t, of rev no_faults 0] by (simp add: no_faults_def)
qed

theorem list_and_get_executions_agree_witness:
  "\<exists>resp. ListExecutions rev 0 no_faults 2 (snd (TriggerWorkflow sample_jsonb [] 5 no_faults sample_trigger sample_world)) = Inr resp \<and>
     execution_item 0 (pending_row 2 1 5 ''{}'') [] \<in> set (le_Items resp)"
proof -
  let ?w = "snd (TriggerWorkflow sample_jsonb [] 5 no_faults sample_trigger sample_world)"
  let ?i = "execution_item 0 (pending_row 2 1 5 ''{}'') []"
  have d: "db_ok (db ?w)"
    using TriggerWorkflow_ok [OF sample_ok surjective_pairing] by (simp add: gateway_ok_def)
  have x: "lookup (executions (db ?w)) 1 = Some (pending_row 2 1 5 ''{}'')" by code_simp
  have l: "ListExecutions rev 0 no_faults 2 ?w = Inr \<lparr>le_Items = [?i], le_Total = 1\<rparr>"
  proof -
    have "rows (executions (db ?w)) = [(1, pending_row 2 1 5 ''{}'')]" by code_simp
    then show ?thesis
      by (simp add: ListExecutions_def db_find_def no_faults_def execution_item_def pending_row_def live_ex_def db_key_def)
  qed
  have "db_key (ex_WorkflowID (pending_row 2 1 5 ''{}'')) = sint (2 :: int64)" "live_ex (pending_row 2 1 5 ''{}'')"
    by code_simp+
  then show ?thesis
    using list_and_get_executions_agree [OF d l, of rev no_faults ?i] l x by (auto simp: no_faults_def)
qed

end
