(* ===== verification/Runners.thy ===== *)
theory Runners
  imports GoJsonProps
begin

section \<open>Step runners: execution-engine/internal/runner\<close>

text \<open>
  The step definitions of a workflow, the factory that makes a runner of each, and the
  runners: \<open>http_request\<close>, \<open>transform\<close>, \<open>delay\<close>, \<open>condition\<close>, \<open>send_email\<close> and \<open>ai_task\<close>.

  What a runner uses and the repository does not hold is an argument. \<open>golib\<close> has the
  functions of Go's text/template (parsing and execution of a template) and the table of
  printable characters of package unicode. \<open>step_env\<close> is what the outside does during one
  run of a step: the end of the parent context, the answer of the HTTP server, the events of
  the language model's stream, and which Redis publishes fail.

  A run returns its result and its effects in order: the messages delivered on Redis channels
  and the lines printed.
\<close>

type_synonym gmap = "(string \<times> gval) list"

record StepDef =
  sd_ID :: string
  sd_Type :: string
  sd_Config :: "gmap option"

datatype http_outcome =
    BadRequest error
  | RequestFailed error
  | Response int string

datatype effect = Published string string | Printed string

record golib =
  tmpl_parse :: "string \<Rightarrow> error option"
  tmpl_exec :: "string \<Rightarrow> gmap \<Rightarrow> error + string"
  is_print :: "nat \<Rightarrow> bool"

record step_env =
  env_cancel :: "(int \<times> error) option"
  env_pick :: bool
  env_http :: "string \<Rightarrow> string \<Rightarrow> string \<Rightarrow> http_outcome"
  env_anthropic :: "string \<Rightarrow> int \<Rightarrow> string \<Rightarrow> (string \<times> string) list \<times> error option"
  env_openai :: "string \<Rightarrow> int \<Rightarrow> string \<Rightarrow> string list list \<times> error option"
  env_drop :: "nat \<Rightarrow> bool"

subsection \<open>Decoding the steps of a workflow\<close>

definition step_fields :: "string list" where
  "step_fields = [''id'', ''type'', ''config'']"

definition set_step_field :: "string \<Rightarrow> json \<Rightarrow> StepDef \<Rightarrow> StepDef option" where
  "set_step_field n v s =
     (if n = ''id'' then map_option (\<lambda>x. s\<lparr>sd_ID := x\<rparr>) (dec_string v (sd_ID s))
      else if n = ''type'' then map_option (\<lambda>x. s\<lparr>sd_Type := x\<rparr>) (dec_string v (sd_Type s))
      else map_option (\<lambda>x. s\<lparr>sd_Config := x\<rparr>) (dec_map v (sd_Config s)))"

definition zero_step :: StepDef where
  "zero_step = \<lparr>sd_ID = [], sd_Type = [], sd_Config = None\<rparr>"

definition decode_step :: "json \<Rightarrow> StepDef option" where
  "decode_step j = decode_struct step_fields set_step_field j zero_step"

text \<open>\<open>json.Unmarshal(data, &steps)\<close> into a nil slice of \<open>StepDef\<close>.\<close>

definition unmarshal_steps :: "string \<Rightarrow> StepDef list option" where
  "unmarshal_steps s = (case unmarshal s of
      Some (JArr vs) \<Rightarrow> those (map decode_step vs)
    | Some JNull \<Rightarrow> Some []
    | _ \<Rightarrow> None)"

subsection \<open>Reading a configuration\<close>

text \<open>\<open>cfg[k]\<close>, nil where there is no such key; \<open>s, _ := cfg[k].(string)\<close>.\<close>

definition map_get :: "gmap option \<Rightarrow> string \<Rightarrow> gval" where
  "map_get m k = (case m of None \<Rightarrow> GNil | Some ps \<Rightarrow> (case map_of ps k of None \<Rightarrow> GNil | Some v \<Rightarrow> v))"

definition cfg_string :: "gmap option \<Rightarrow> string \<Rightarrow> string" where
  "cfg_string m k = (case map_get m k of GStr s \<Rightarrow> s | _ \<Rightarrow> [])"

subsection \<open>Contexts\<close>

definition stepTimeout :: int where
  "stepTimeout = 30 * second"

text \<open>
  The end of a step's context, in nanoseconds from the step's start, with what
  \<open>ctx.Err\<close> then returns: that of the parent context, if it ends in time, or the deadline
  set by \<open>WithTimeout\<close>.
\<close>

definition with_timeout :: "(int \<times> error) option \<Rightarrow> int \<times> error" where
  "with_timeout parent = (case parent of
      None \<Rightarrow> (stepTimeout, ''context deadline exceeded'')
    | Some (t, e) \<Rightarrow> if t < stepTimeout then (t, e) else (stepTimeout, ''context deadline exceeded''))"

text \<open>\<open>select { case <-ctx.Done(): return ctx.Err(); default: }\<close> at the step's start.\<close>

definition ctx_done :: "step_env \<Rightarrow> error option" where
  "ctx_done env = (let (t, e) = with_timeout (env_cancel env) in if t \<le> 0 then Some e else None)"

subsection \<open>fmt\<close>

text \<open>The verb \<open>%v\<close>.\<close>

primrec fmt_v :: "gval \<Rightarrow> string" where
  "fmt_v GNil = ''<nil>''"
| "fmt_v (GBool b) = (if b then ''true'' else ''false'')"
| "fmt_v (GFloat x) = fmt_g x"
| "fmt_v (GInt i) = show_int i"
| "fmt_v (GStr s) = s"
| "fmt_v (GArr vs) = ''['' @ join '' '' (map fmt_v vs) @ '']''"
| "fmt_v (GMap ps) = ''map['' @ join '' '' (map (\<lambda>(k, t). k @ '':'' @ t)
     (sort_key fst (map (map_prod id fmt_v) ps))) @ '']''"

text \<open>The verb \<open>%q\<close>.\<close>

definition rune_value :: "string \<Rightarrow> nat" where
  "rune_value s = (case map of_char s :: nat list of
      [a, b] \<Rightarrow> (a - 192) * 64 + (b - 128)
    | [a, b, c] \<Rightarrow> (a - 224) * 4096 + (b - 128) * 64 + (c - 128)
    | [a, b, c, d] \<Rightarrow> (a - 240) * 262144 + (b - 128) * 4096 + (c - 128) * 64 + (d - 128)
    | _ \<Rightarrow> 0)"

definition hex_byte :: "nat \<Rightarrow> string" where
  "hex_byte n = [hex_digit (n div 16 mod 16), hex_digit (n mod 16)]"

definition quote_ascii :: "char \<Rightarrow> string" where
  "quote_ascii c =
     (if c = CHR 0x22 \<or> c = CHR 0x5C then [CHR 0x5C, c]
      else if c = CHR 0x07 then [CHR 0x5C, CHR ''a'']
      else if c = CHR 0x08 then [CHR 0x5C, CHR ''b'']
      else if c = CHR 0x0C then [CHR 0x5C, CHR ''f'']
      else if c = CHR 0x0A then [CHR 0x5C, CHR ''n'']
      else if c = CHR 0x0D then [CHR 0x5C, CHR ''r'']
      else if c = CHR 0x09 then [CHR 0x5C, CHR ''t'']
      else if c = CHR 0x0B then [CHR 0x5C, CHR ''v'']
      else if (of_char c :: nat) < 32 \<or> c = CHR 0x7F then [CHR 0x5C, CHR ''x''] @ hex_byte (of_char c)
      else [c])"

definition quote_rune :: "(nat \<Rightarrow> bool) \<Rightarrow> string \<Rightarrow> string" where
  "quote_rune printable s =
     (if printable (rune_value s) then s
      else if rune_value s < 65536
      then [CHR 0x5C, CHR ''u''] @ hex_byte (rune_value s div 256) @ hex_byte (rune_value s mod 256)
      else [CHR 0x5C, CHR ''U''] @ ''00'' @ hex_byte (rune_value s div 65536)
        @ hex_byte (rune_value s div 256 mod 256) @ hex_byte (rune_value s mod 256))"

fun quote_body :: "(nat \<Rightarrow> bool) \<Rightarrow> string \<Rightarrow> string" where
  "quote_body printable [] = []"
| "quote_body printable (c # cs) =
     (if ascii c then quote_ascii c @ quote_body printable cs
      else if rune_at (c # cs) = 0
      then [CHR 0x5C, CHR ''x''] @ hex_byte (of_char c) @ quote_body printable cs
      else quote_rune printable (take (rune_at (c # cs)) (c # cs))
        @ quote_body printable (drop (rune_at (c # cs) - 1) cs))"

definition fmt_q :: "golib \<Rightarrow> string \<Rightarrow> string" where
  "fmt_q lib s = CHR 0x22 # quote_body (is_print lib) s @ [CHR 0x22]"

subsection \<open>http\_runner.go\<close>

record httpRequestRunner =
  h_url :: string
  h_method :: string
  h_body :: string

definition newHTTPRequestRunner :: "gmap option \<Rightarrow> error + httpRequestRunner" where
  "newHTTPRequestRunner cfg =
     (let url = cfg_string cfg ''url'' in
      if url = [] then Inl ''http_request: missing url''
      else let method = cfg_string cfg ''method'';
               method = (if method = [] then ''GET'' else method);
               body = cfg_string cfg ''body''
           in Inr \<lparr>h_url = url, h_method = method, h_body = body\<rparr>)"

definition parse_body :: "string \<Rightarrow> gval" where
  "parse_body raw = (case Option.bind (unmarshal raw) dec_any of None \<Rightarrow> GStr raw | Some v \<Rightarrow> v)"

definition run_http :: "step_env \<Rightarrow> httpRequestRunner \<Rightarrow> gmap \<Rightarrow> error + gmap" where
  "run_http env r input = (case env_http env (h_method r) (h_url r) (h_body r) of
      BadRequest e \<Rightarrow> Inl (''create request: '' @ e)
    | RequestFailed e \<Rightarrow> Inl (''http '' @ h_method r @ '' '' @ h_url r @ '': '' @ e)
    | Response code raw \<Rightarrow> Inr [(''status'', GInt code), (''body'', parse_body raw)])"

subsection \<open>transform\_runner.go\<close>

record transformRunner =
  t_tmpl :: string
  t_outputKey :: string

definition newTransformRunner :: "gmap option \<Rightarrow> error + transformRunner" where
  "newTransformRunner cfg =
     (let tmpl = cfg_string cfg ''template'' in
      if tmpl = [] then Inl ''transform: missing template''
      else let key = cfg_string cfg ''outputKey''
           in Inr \<lparr>t_tmpl = tmpl, t_outputKey = (if key = [] then ''result'' else key)\<rparr>)"

definition run_transform :: "golib \<Rightarrow> step_env \<Rightarrow> transformRunner \<Rightarrow> gmap \<Rightarrow> error + gmap" where
  "run_transform lib env r input = (case ctx_done env of
      Some e \<Rightarrow> Inl e
    | None \<Rightarrow> (case tmpl_parse lib (t_tmpl r) of
        Some e \<Rightarrow> Inl (''parse template: '' @ e)
      | None \<Rightarrow> (case tmpl_exec lib (t_tmpl r) input of
          Inl e \<Rightarrow> Inl (''execute template: '' @ e)
        | Inr s \<Rightarrow> Inr [(t_outputKey r, GStr s)])))"

subsection \<open>delay\_runner.go\<close>

record delayRunner =
  d_duration :: int

definition newDelayRunner :: "gmap option \<Rightarrow> error + delayRunner" where
  "newDelayRunner cfg =
     (let seconds = (case map_get cfg ''seconds'' of GFloat s \<Rightarrow> s | _ \<Rightarrow> f64_of_nat 1)
      in Inr \<lparr>d_duration = f64_to_int64 (f64_mult seconds (f64_of_nat (nat second)))\<rparr>)"

text \<open>
  Both channels of the \<open>select\<close> can be ready at once: \<open>env_pick\<close> says which case Go takes.
  The time the code itself takes is not counted.
\<close>

definition run_delay :: "step_env \<Rightarrow> delayRunner \<Rightarrow> gmap \<Rightarrow> error + gmap" where
  "run_delay env r input =
     (let (t, e) = with_timeout (env_cancel env); after = max 0 (d_duration r); done = max 0 t
      in if after < done \<or> after = done \<and> env_pick env then Inr input
         else Inl (''delay interrupted: '' @ e))"

subsection \<open>condition\_runner.go\<close>

record conditionRunner =
  c_field :: string
  c_operator :: string
  c_value :: string

definition newConditionRunner :: "gmap option \<Rightarrow> error + conditionRunner" where
  "newConditionRunner cfg =
     (let field = cfg_string cfg ''field''; operator = cfg_string cfg ''operator''; v = cfg_string cfg ''value''
      in if field = [] \<or> operator = [] then Inl ''condition: missing field or operator''
         else Inr \<lparr>c_field = field, c_operator = operator, c_value = v\<rparr>)"

definition compare_values :: "string \<Rightarrow> string \<Rightarrow> string \<Rightarrow> bool option" where
  "compare_values operator actual v =
     (if operator = ''eq'' \<or> operator = ''=='' then Some (actual = v)
      else if operator = ''neq'' \<or> operator = ''!='' then Some (actual \<noteq> v)
      else if operator = ''gt'' \<or> operator = ''>''
      then Some (f64_less (fst (parse_float v)) (fst (parse_float actual)))
      else if operator = ''lt'' \<or> operator = ''<''
      then Some (f64_less (fst (parse_float actual)) (fst (parse_float v)))
      else None)"

definition run_condition :: "golib \<Rightarrow> step_env \<Rightarrow> conditionRunner \<Rightarrow> gmap \<Rightarrow> error + gmap" where
  "run_condition lib env r input = (case ctx_done env of
      Some e \<Rightarrow> Inl e
    | None \<Rightarrow> (case compare_values (c_operator r) (fmt_v (map_get (Some input) (c_field r))) (c_value r) of
        None \<Rightarrow> Inl (''condition: unknown operator '' @ fmt_q lib (c_operator r))
      | Some b \<Rightarrow> Inr [(''condition'', GBool b), (''input'', GMap input)]))"

subsection \<open>email\_runner.go\<close>

record sendEmailRunner =
  m_to :: string
  m_subject :: string
  m_body :: string

definition newSendEmailRunner :: "gmap option \<Rightarrow> error + sendEmailRunner" where
  "newSendEmailRunner cfg =
     (let dest = cfg_string cfg ''to''; subj = cfg_string cfg ''subject''; body = cfg_string cfg ''body''
      in if dest = [] then Inl ''send_email: missing to''
         else Inr \<lparr>m_to = dest, m_subject = subj, m_body = body\<rparr>)"

definition run_email :: "golib \<Rightarrow> step_env \<Rightarrow> sendEmailRunner \<Rightarrow> gmap \<Rightarrow> (error + gmap) \<times> effect list" where
  "run_email lib env r input = (case ctx_done env of
      Some e \<Rightarrow> (Inl e, [])
    | None \<Rightarrow> (Inr [(''sent'', GBool True), (''to'', GStr (m_to r))],
        [Printed (''[EMAIL] to='' @ m_to r @ '' subject='' @ fmt_q lib (m_subject r) @ '' body=''
           @ fmt_q lib (m_body r) @ [CHR 0x0A])]))"

subsection \<open>ai\_runner.go\<close>

record aiTaskRunner =
  a_provider :: string
  a_model :: string
  a_promptTmpl :: string
  a_maxTokens :: int
  a_rdb :: bool
  a_streamChan :: string
  a_stepID :: string

text \<open>
  The API keys only select the account of the calls \<open>env_anthropic\<close> and \<open>env_openai\<close>. \<open>rdb\<close>
  is whether the Redis client is not nil.
\<close>

definition newAITaskRunner :: "gmap option \<Rightarrow> bool \<Rightarrow> string \<Rightarrow> string \<Rightarrow> error + aiTaskRunner" where
  "newAITaskRunner cfg rdb streamChan stepID =
     (let provider = cfg_string cfg ''provider'';
          provider = (if provider = [] then ''anthropic'' else provider);
          model = cfg_string cfg ''model'';
          model = (if model = [] then (if provider = ''openai'' then ''gpt-4o'' else ''claude-sonnet-4-6'') else model);
          prompt = cfg_string cfg ''prompt''
      in if prompt = [] then Inl ''ai_task: missing prompt''
         else let maxTokens = (case map_get cfg ''maxTokens'' of
                    GFloat n \<Rightarrow> f64_to_int64 n | GInt n \<Rightarrow> n | _ \<Rightarrow> 500)
              in Inr \<lparr>a_provider = provider, a_model = model, a_promptTmpl = prompt, a_maxTokens = maxTokens,
                   a_rdb = rdb, a_streamChan = streamChan, a_stepID = stepID\<rparr>)"

definition token_json :: "string \<Rightarrow> string \<Rightarrow> bool \<Rightarrow> json" where
  "token_json stepID token finished = JObj [(''type'', JStr ''ai_token''), (''stepId'', JStr stepID),
     (''token'', JStr token), (''finished'', JBool finished)]"

text \<open>\<open>n\<close> counts the publishes of the step: \<open>env_drop\<close> tells those that fail.\<close>

definition publishToken :: "step_env \<Rightarrow> aiTaskRunner \<Rightarrow> nat \<Rightarrow> string \<Rightarrow> bool \<Rightarrow> effect list" where
  "publishToken env r n token finished =
     (if \<not> a_rdb r \<or> a_streamChan r = [] then []
      else if env_drop env n then []
      else [Published (a_streamChan r) (print_json (token_json (a_stepID r) token finished))])"

definition renderPrompt :: "golib \<Rightarrow> string \<Rightarrow> gmap \<Rightarrow> error + string" where
  "renderPrompt lib tmpl input = (case tmpl_parse lib tmpl of
      Some e \<Rightarrow> Inl (''parse template: '' @ e)
    | None \<Rightarrow> (case tmpl_exec lib tmpl input of
        Inl e \<Rightarrow> Inl (''execute template: '' @ e)
      | Inr s \<Rightarrow> Inr s))"

text \<open>
  The loops over the two streams: the text so far, the number of publishes so far, the effects.
  An event of the Anthropic stream is the type and the text of its content block delta; a
  chunk of the OpenAI stream is the contents of its choices.
\<close>

fun anthropic_loop :: "step_env \<Rightarrow> aiTaskRunner \<Rightarrow> nat \<Rightarrow> string \<Rightarrow> (string \<times> string) list
    \<Rightarrow> string \<times> nat \<times> effect list" where
  "anthropic_loop env r n sb [] = (sb, n, [])"
| "anthropic_loop env r n sb ((ty, txt) # evs) =
     (if ty = ''text_delta'' \<and> txt \<noteq> []
      then (case anthropic_loop env r (Suc n) (sb @ txt) evs of
              (sb', n', fx) \<Rightarrow> (sb', n', publishToken env r n txt False @ fx))
      else anthropic_loop env r n sb evs)"

fun openai_loop :: "step_env \<Rightarrow> aiTaskRunner \<Rightarrow> nat \<Rightarrow> string \<Rightarrow> string list list
    \<Rightarrow> string \<times> nat \<times> effect list" where
  "openai_loop env r n sb [] = (sb, n, [])"
| "openai_loop env r n sb ([] # chunks) = openai_loop env r n sb chunks"
| "openai_loop env r n sb ((token # choices) # chunks) =
     (if token \<noteq> []
      then (case openai_loop env r (Suc n) (sb @ token) chunks of
              (sb', n', fx) \<Rightarrow> (sb', n', publishToken env r n token False @ fx))
      else openai_loop env r n sb chunks)"

definition finish_stream :: "step_env \<Rightarrow> aiTaskRunner \<Rightarrow> string \<Rightarrow> error option \<Rightarrow> string \<times> nat \<times> effect list
    \<Rightarrow> (error + gmap) \<times> effect list" where
  "finish_stream env r what err res = (case res of (sb, n, fx) \<Rightarrow>
     (case err of
        Some e \<Rightarrow> (Inl (what @ '' stream: '' @ e), fx)
      | None \<Rightarrow> (Inr [(''output'', GStr sb)], fx @ publishToken env r n [] True)))"

definition runAnthropic :: "step_env \<Rightarrow> aiTaskRunner \<Rightarrow> string \<Rightarrow> (error + gmap) \<times> effect list" where
  "runAnthropic env r prompt = (case env_anthropic env (a_model r) (a_maxTokens r) prompt of
     (events, err) \<Rightarrow> finish_stream env r ''anthropic'' err (anthropic_loop env r 0 [] events))"

definition runOpenAI :: "step_env \<Rightarrow> aiTaskRunner \<Rightarrow> string \<Rightarrow> (error + gmap) \<times> effect list" where
  "runOpenAI env r prompt = (case env_openai env (a_model r) (a_maxTokens r) prompt of
     (chunks, err) \<Rightarrow> finish_stream env r ''openai'' err (openai_loop env r 0 [] chunks))"

definition run_ai :: "golib \<Rightarrow> step_env \<Rightarrow> aiTaskRunner \<Rightarrow> gmap \<Rightarrow> (error + gmap) \<times> effect list" where
  "run_ai lib env r input = (case renderPrompt lib (a_promptTmpl r) input of
      Inl e \<Rightarrow> (Inl (''ai_task: render prompt: '' @ e), [])
    | Inr prompt \<Rightarrow> if a_provider r = ''openai'' then runOpenAI env r prompt else runAnthropic env r prompt)"

subsection \<open>runner.go\<close>

datatype StepRunner =
    HTTPRequest httpRequestRunner
  | Transform transformRunner
  | Delay delayRunner
  | Condition conditionRunner
  | SendEmail sendEmailRunner
  | AITask aiTaskRunner

text \<open>\<open>RunnerFactory.New\<close>; \<open>rdb\<close> is whether the factory has a Redis client.\<close>

definition NewRunner :: "bool \<Rightarrow> StepDef \<Rightarrow> string \<Rightarrow> error + StepRunner" where
  "NewRunner rdb step streamChan =
     (if sd_Type step = ''http_request'' then map_sum id HTTPRequest (newHTTPRequestRunner (sd_Config step))
      else if sd_Type step = ''transform'' then map_sum id Transform (newTransformRunner (sd_Config step))
      else if sd_Type step = ''delay'' then map_sum id Delay (newDelayRunner (sd_Config step))
      else if sd_Type step = ''condition'' then map_sum id Condition (newConditionRunner (sd_Config step))
      else if sd_Type step = ''send_email'' then map_sum id SendEmail (newSendEmailRunner (sd_Config step))
      else if sd_Type step = ''ai_task''
      then map_sum id AITask (newAITaskRunner (sd_Config step) rdb streamChan (sd_ID step))
      else Inl (''unknown step type: '' @ sd_Type step))"

definition NewStepRunner :: "StepDef \<Rightarrow> error + StepRunner" where
  "NewStepRunner step = NewRunner False step []"

text \<open>\<open>StepRunner.Run\<close>\<close>

fun Run :: "golib \<Rightarrow> step_env \<Rightarrow> StepRunner \<Rightarrow> gmap \<Rightarrow> (error + gmap) \<times> effect list" where
  "Run lib env (HTTPRequest r) input = (run_http env r input, [])"
| "Run lib env (Transform r) input = (run_transform lib env r input, [])"
| "Run lib env (Delay r) input = (run_delay env r input, [])"
| "Run lib env (Condition r) input = (run_condition lib env r input, [])"
| "Run lib env (SendEmail r) input = run_email lib env r input"
| "Run lib env (AITask r) input = run_ai lib env r input"

end
