(* ===== verification/Engine.thy ===== *)
theory Engine
  imports Store Runners
begin

section \<open>The execution engine: server.go\<close>

text \<open>
  \<open>execution-engine/internal/server/server.go\<close>: the two RPCs that run a workflow's steps, with
  the rows and events they write.

  \<open>step_oracle\<close> and \<open>run_oracle\<close> hold what happens to one run from outside: for each step its
  \<open>step_env\<close>, the duration measured, the error of writing its log and whether its event is
  lost; for the run, the errors of its other database calls, the clock and the loss of its last
  event. The code ignores the errors of every write it makes (\<open>Update\<close>, \<open>Create\<close>,
  \<open>Updates\<close>, \<open>Publish\<close>). \<open>jsonb\<close> is PostgreSQL's reading of a jsonb value, as in
  \<open>Workflows\<close>; \<open>scan_uid\<close> is the error, if any, of reading the text column \<open>user_id\<close> into the
  field \<open>UserID uint\<close> of \<open>execution-engine/internal/model/models.go\<close>. Tracing spans carry no
  state of the program and are left out.
\<close>

record step_oracle =
  so_env :: step_env
  so_duration :: int64
  so_log :: "error option"
  so_drop :: bool

record run_oracle =
  ro_workflow :: "error option"
  ro_execution :: "error option"
  ro_running :: "error option"
  ro_steps :: "nat \<Rightarrow> step_oracle"
  ro_finish :: "error option"
  ro_finish_drop :: bool
  ro_now :: time
  ro_send :: "nat \<Rightarrow> error option"

record RunExecutionReq =
  rq_ExecutionId :: int64
  rq_WorkflowId :: int64
  rq_TriggerPayload :: string

record RunExecutionResp =
  rr_Status :: string
  rr_Error :: string

record ExecutionEvent =
  ev_EventType :: string
  ev_StepId :: string
  ev_Status :: string
  ev_DurationMs :: int64
  ev_Error :: string

subsection \<open>Events on the pub/sub channel\<close>

record redisEvent =
  re_Type :: string
  re_ExecutionID :: uint64
  re_StepID :: string
  re_Status :: string
  re_DurationMs :: int64

text \<open>The fields marked \<open>omitempty\<close> are left out when they are empty or zero.\<close>

definition event_json :: "redisEvent \<Rightarrow> json" where
  "event_json ev = JObj ([(''type'', JStr (re_Type ev)),
     (''executionId'', JNum (show_nat (unat (re_ExecutionID ev))))] @
     (if re_StepID ev = [] then [] else [(''stepId'', JStr (re_StepID ev))]) @
     [(''status'', JStr (re_Status ev))] @
     (if re_DurationMs ev = 0 then [] else [(''durationMs'', JNum (show_int (sint (re_DurationMs ev))))]))"

definition marshal_event :: "redisEvent \<Rightarrow> string" where
  "marshal_event ev = print_json (event_json ev)"

definition channel_of :: "uint64 \<Rightarrow> string" where
  "channel_of workflowID = ''executions:'' @ show_nat (unat workflowID)"

definition publishRedisEvent :: "bool \<Rightarrow> uint64 \<Rightarrow> uint64 \<Rightarrow> string \<Rightarrow> string \<Rightarrow> string \<Rightarrow> int64 \<Rightarrow> world \<Rightarrow> world" where
  "publishRedisEvent lost workflowID executionID eventType stepID status durationMs w =
     (if lost then w
      else w\<lparr>pubsub := pubsub w @ [(channel_of workflowID, marshal_event
             \<lparr>re_Type = eventType, re_ExecutionID = executionID, re_StepID = stepID, re_Status = status,
               re_DurationMs = durationMs\<rparr>)]\<rparr>)"

text \<open>The effects of a step's runner; the lines printed are not part of the state.\<close>

fun apply_effect :: "effect \<Rightarrow> world \<Rightarrow> world" where
  "apply_effect (Published ch p) w = w\<lparr>pubsub := pubsub w @ [(ch, p)]\<rparr>"
| "apply_effect (Printed s) w = w"

definition apply_effects :: "effect list \<Rightarrow> world \<Rightarrow> world" where
  "apply_effects fx w = fold apply_effect fx w"

subsection \<open>Writing rows\<close>

text \<open>\<open>datatypes.JSON(data)\<close>: no bytes are stored as NULL.\<close>

definition store_json :: "(string \<Rightarrow> error + string) \<Rightarrow> string option \<Rightarrow> error + string" where
  "store_json jsonb data = (case data of None \<Rightarrow> Inr []
     | Some s \<Rightarrow> if s = [] then Inr [] else jsonb s)"

text \<open>\<open>json.Marshal\<close> of a \<open>map[string]any\<close> that may be nil.\<close>

definition marshal_map :: "gmap option \<Rightarrow> string option" where
  "marshal_map m = (case m of None \<Rightarrow> Some ''null'' | Some ps \<Rightarrow> marshal (GMap ps))"

definition writeStepLog :: "(string \<Rightarrow> error + string) \<Rightarrow> error option \<Rightarrow> execution \<Rightarrow> StepDef \<Rightarrow> string \<Rightarrow> string
    \<Rightarrow> gmap \<Rightarrow> gmap option \<Rightarrow> int64 \<Rightarrow> world \<Rightarrow> world" where
  "writeStepLog jsonb fault ex step status errMsg input output durationMs w =
     (case (store_json jsonb (marshal_map (Some input)), store_json jsonb (marshal_map output)) of
        (Inr inp, Inr out) \<Rightarrow>
          (case db_create fault
             (\<lambda>i. \<lparr>sl_ID = i, sl_ExecutionID = ex_ID ex, sl_StepID = sd_ID step, sl_StepType = sd_Type step,
                sl_Status = status, sl_Input = inp, sl_Output = out, sl_Error = errMsg, sl_DurationMs = durationMs\<rparr>)
             (step_logs (db w)) of
           Inl e \<Rightarrow> w
         | Inr (i, t) \<Rightarrow> w\<lparr>db := (db w)\<lparr>step_logs := t\<rparr>\<rparr>)
      | _ \<Rightarrow> w)"

definition set_status :: "error option \<Rightarrow> execution \<Rightarrow> (execution \<Rightarrow> execution) \<Rightarrow> world \<Rightarrow> world" where
  "set_status fault ex f w = (case db_updates fault live_ex (db_key (ex_ID ex)) f (executions (db w)) of
      Inl e \<Rightarrow> w | Inr t \<Rightarrow> w\<lparr>db := (db w)\<lparr>executions := t\<rparr>\<rparr>)"

definition finishExecution :: "run_oracle \<Rightarrow> execution \<Rightarrow> uint64 \<Rightarrow> string \<Rightarrow> world \<Rightarrow> world" where
  "finishExecution ro ex workflowID status w =
     publishRedisEvent (ro_finish_drop ro) workflowID (ex_ID ex) ''finished'' [] status 0
       (set_status (ro_finish ro) ex
          (\<lambda>r. r\<lparr>ex_Status := status, ex_FinishedAt := Some (ro_now ro)\<rparr>) w)"

subsection \<open>Running the steps\<close>

text \<open>
  One step: its status, its error, its output (nil on failure) and its effects. A step that
  succeeds has an output, so the next step's input is never nil.
\<close>

definition exec_step :: "golib \<Rightarrow> bool \<Rightarrow> step_env \<Rightarrow> StepDef \<Rightarrow> string \<Rightarrow> gmap
    \<Rightarrow> string \<times> string \<times> gmap option \<times> effect list" where
  "exec_step lib rdb env stepDef channel input = (case NewRunner rdb stepDef channel of
      Inl e \<Rightarrow> (''failed'', e, None, [])
    | Inr r \<Rightarrow> (case Run lib env r input of
        (Inl e, fx) \<Rightarrow> (''failed'', e, None, fx)
      | (Inr out, fx) \<Rightarrow> (''success'', [], Some out, fx)))"

text \<open>The rows and the event of a step that has run.\<close>

definition record_step :: "(string \<Rightarrow> error + string) \<Rightarrow> step_oracle \<Rightarrow> execution \<Rightarrow> uint64 \<Rightarrow> StepDef \<Rightarrow> gmap
    \<Rightarrow> string \<times> string \<times> gmap option \<times> effect list \<Rightarrow> world \<Rightarrow> world" where
  "record_step jsonb so ex workflowID stepDef input res w = (case res of (status, errMsg, output, fx) \<Rightarrow>
     publishRedisEvent (so_drop so) workflowID (ex_ID ex) ''step_done'' (sd_ID stepDef) status (so_duration so)
       (writeStepLog jsonb (so_log so) ex stepDef status errMsg input output (so_duration so)
         (apply_effects fx w)))"

fun steps_loop :: "golib \<Rightarrow> (string \<Rightarrow> error + string) \<Rightarrow> bool \<Rightarrow> run_oracle \<Rightarrow> execution \<Rightarrow> uint64 \<Rightarrow> nat
    \<Rightarrow> StepDef list \<Rightarrow> gmap \<Rightarrow> world \<Rightarrow> string \<times> string \<times> world" where
  "steps_loop lib jsonb rdb ro ex wid n [] input w =
     (''success'', [], finishExecution ro ex wid ''success'' w)"
| "steps_loop lib jsonb rdb ro ex wid n (stepDef # steps) input w =
     (case exec_step lib rdb (so_env (ro_steps ro n)) stepDef (channel_of wid) input of
        (status, errMsg, output, fx) \<Rightarrow>
          (let w = record_step jsonb (ro_steps ro n) ex wid stepDef input (status, errMsg, output, fx) w in
           if status = ''failed'' then (''failed'', errMsg, finishExecution ro ex wid ''failed'' w)
           else steps_loop lib jsonb rdb ro ex wid (Suc n) steps (case output of None \<Rightarrow> [] | Some out \<Rightarrow> out) w))"

definition runSteps :: "golib \<Rightarrow> (string \<Rightarrow> error + string) \<Rightarrow> bool \<Rightarrow> run_oracle \<Rightarrow> execution \<Rightarrow> workflow
    \<Rightarrow> world \<Rightarrow> string \<times> string \<times> world" where
  "runSteps lib jsonb rdb ro ex wk w = (case unmarshal_steps (wf_Steps wk) of
      None \<Rightarrow> (''success'', [], finishExecution ro ex (wf_ID wk) ''success'' w)
    | Some steps \<Rightarrow>
        if steps = [] then (''success'', [], finishExecution ro ex (wf_ID wk) ''success'' w)
        else steps_loop lib jsonb rdb ro ex (wf_ID wk) 0 steps [] w)"

subsection \<open>The RPCs\<close>

definition load_workflow :: "(string \<Rightarrow> error option) \<Rightarrow> run_oracle \<Rightarrow> int64 \<Rightarrow> world \<Rightarrow> error + workflow" where
  "load_workflow scan_uid ro wid w =
     (case db_first (ro_workflow ro) live_wf (workflows (db w)) (sint wid) of
        Inl e \<Rightarrow> Inl (''load workflow '' @ show_int (sint wid) @ '': '' @ db_message e)
      | Inr wk \<Rightarrow> (case scan_uid (wf_UserID wk) of
          Some e \<Rightarrow> Inl (''load workflow '' @ show_int (sint wid) @ '': '' @ e)
        | None \<Rightarrow> Inr wk))"

definition load_execution :: "run_oracle \<Rightarrow> int64 \<Rightarrow> world \<Rightarrow> error + execution" where
  "load_execution ro xid w =
     (case db_first (ro_execution ro) live_ex (executions (db w)) (sint xid) of
        Inl e \<Rightarrow> Inl (''load execution '' @ show_int (sint xid) @ '': '' @ db_message e)
      | Inr ex \<Rightarrow> Inr ex)"

definition mark_running :: "run_oracle \<Rightarrow> execution \<Rightarrow> world \<Rightarrow> world" where
  "mark_running ro ex w = set_status (ro_running ro) ex (\<lambda>r. r\<lparr>ex_Status := ''running''\<rparr>) w"

definition RunExecution :: "golib \<Rightarrow> (string \<Rightarrow> error + string) \<Rightarrow> (string \<Rightarrow> error option) \<Rightarrow> bool
    \<Rightarrow> run_oracle \<Rightarrow> RunExecutionReq \<Rightarrow> world \<Rightarrow> (error + RunExecutionResp) \<times> world" where
  "RunExecution lib jsonb scan_uid rdb ro req w =
     (case load_workflow scan_uid ro (rq_WorkflowId req) w of
        Inl e \<Rightarrow> (Inl e, w)
      | Inr wk \<Rightarrow> (case load_execution ro (rq_ExecutionId req) w of
          Inl e \<Rightarrow> (Inl e, w)
        | Inr ex \<Rightarrow> (case runSteps lib jsonb rdb ro ex wk (mark_running ro ex w) of
            (status, errMsg, w') \<Rightarrow> (Inr \<lparr>rr_Status = status, rr_Error = errMsg\<rparr>, w'))))"

text \<open>
  \<open>stream.Send\<close>: the event reaches the caller unless the call fails. \<open>n\<close> counts the calls.
\<close>

definition send :: "run_oracle \<Rightarrow> nat \<Rightarrow> ExecutionEvent \<Rightarrow> ExecutionEvent list" where
  "send ro n ev = (case ro_send ro n of Some e \<Rightarrow> [] | None \<Rightarrow> [ev])"

definition finished_event :: "string \<Rightarrow> string \<Rightarrow> ExecutionEvent" where
  "finished_event status err = \<lparr>ev_EventType = ''finished'', ev_StepId = [], ev_Status = status,
     ev_DurationMs = 0, ev_Error = err\<rparr>"

definition step_event :: "StepDef \<Rightarrow> string \<Rightarrow> int64 \<Rightarrow> string \<Rightarrow> ExecutionEvent" where
  "step_event step status durationMs err = \<lparr>ev_EventType = ''step_done'', ev_StepId = sd_ID step,
     ev_Status = status, ev_DurationMs = durationMs, ev_Error = err\<rparr>"

fun stream_loop :: "golib \<Rightarrow> (string \<Rightarrow> error + string) \<Rightarrow> bool \<Rightarrow> run_oracle \<Rightarrow> execution \<Rightarrow> uint64 \<Rightarrow> nat
    \<Rightarrow> StepDef list \<Rightarrow> gmap \<Rightarrow> world \<Rightarrow> error option \<times> ExecutionEvent list \<times> world" where
  "stream_loop lib jsonb rdb ro ex wid n [] input w =
     (let w = finishExecution ro ex wid ''success'' w
      in (ro_send ro n, send ro n (finished_event ''success'' []), w))"
| "stream_loop lib jsonb rdb ro ex wid n (stepDef # steps) input w =
     (case exec_step lib rdb (so_env (ro_steps ro n)) stepDef (channel_of wid) input of
        (status, errMsg, output, fx) \<Rightarrow>
          (let w = record_step jsonb (ro_steps ro n) ex wid stepDef input (status, errMsg, output, fx) w;
               sent = send ro n (step_event stepDef status (so_duration (ro_steps ro n)) errMsg)
           in if status = ''failed''
              then (None, sent @ send ro (Suc n) (finished_event ''failed'' errMsg),
                finishExecution ro ex wid ''failed'' w)
              else (case stream_loop lib jsonb rdb ro ex wid (Suc n) steps
                  (case output of None \<Rightarrow> [] | Some out \<Rightarrow> out) w of
                (err, evs, w') \<Rightarrow> (err, sent @ evs, w'))))"

definition StreamExecution :: "golib \<Rightarrow> (string \<Rightarrow> error + string) \<Rightarrow> (string \<Rightarrow> error option) \<Rightarrow> bool
    \<Rightarrow> run_oracle \<Rightarrow> RunExecutionReq \<Rightarrow> world \<Rightarrow> error option \<times> ExecutionEvent list \<times> world" where
  "StreamExecution lib jsonb scan_uid rdb ro req w =
     (case load_workflow scan_uid ro (rq_WorkflowId req) w of
        Inl e \<Rightarrow> (Some e, [], w)
      | Inr wk \<Rightarrow> (case load_execution ro (rq_ExecutionId req) w of
          Inl e \<Rightarrow> (Some e, [], w)
        | Inr ex \<Rightarrow>
            let w = mark_running ro ex w in
            (case unmarshal_steps (wf_Steps wk) of
               None \<Rightarrow> (ro_send ro 0, send ro 0 (finished_event ''success'' []),
                  finishExecution ro ex (wf_ID wk) ''success'' w)
             | Some steps \<Rightarrow>
                 if steps = [] then (ro_send ro 0, send ro 0 (finished_event ''success'' []),
                   finishExecution ro ex (wf_ID wk) ''success'' w)
                 else stream_loop lib jsonb rdb ro ex (wf_ID wk) 0 steps [] w)))"

end
