(* ===== verification/EngineProps.thy ===== *)
theory EngineProps
  imports Engine
begin

section \<open>The execution engine: what holds of it\<close>

text \<open>
  The abstract run of a workflow (\<open>spec_run\<close>), which the two loops of the engine follow, and what
  a run leaves in the tables and on the channels. The same writes are made by both RPCs.
\<close>

subsection \<open>The abstract run\<close>

text \<open>
  What a run is, apart from the database and the channels: the steps executed, in order, each
  with its input and its result. The first input is the empty object, the next ones are the
  outputs before, and the run ends with the first step that fails.
\<close>

record outcome =
  oc_step :: StepDef
  oc_input :: gmap
  oc_result :: "error + gmap"
  oc_effects :: "effect list"

definition step_result :: "golib \<Rightarrow> bool \<Rightarrow> step_env \<Rightarrow> StepDef \<Rightarrow> string \<Rightarrow> gmap \<Rightarrow> (error + gmap) \<times> effect list" where
  "step_result lib rdb env stepDef channel input = (case NewRunner rdb stepDef channel of
     Inl e \<Rightarrow> (Inl e, []) | Inr r \<Rightarrow> Run lib env r input)"

fun spec_run :: "golib \<Rightarrow> bool \<Rightarrow> (nat \<Rightarrow> step_env) \<Rightarrow> string \<Rightarrow> nat \<Rightarrow> StepDef list \<Rightarrow> gmap \<Rightarrow> outcome list" where
  "spec_run lib rdb envs channel n [] input = []"
| "spec_run lib rdb envs channel n (s # ss) input =
     (case step_result lib rdb (envs n) s channel input of (res, fx) \<Rightarrow>
        \<lparr>oc_step = s, oc_input = input, oc_result = res, oc_effects = fx\<rparr> #
        (case res of Inl e \<Rightarrow> [] | Inr out \<Rightarrow> spec_run lib rdb envs channel (Suc n) ss out))"

definition run_error :: "outcome list \<Rightarrow> error option" where
  "run_error ocs = (if ocs = [] then None else case oc_result (last ocs) of Inl e \<Rightarrow> Some e | Inr out \<Rightarrow> None)"

definition run_status :: "outcome list \<Rightarrow> string" where
  "run_status ocs = (case run_error ocs of None \<Rightarrow> ''success'' | Some e \<Rightarrow> ''failed'')"

fun result_status :: "error + gmap \<Rightarrow> string" where
  "result_status (Inl e) = ''failed''"
| "result_status (Inr out) = ''success''"

fun result_error :: "error + gmap \<Rightarrow> string" where
  "result_error (Inl e) = e"
| "result_error (Inr out) = []"

fun result_output :: "error + gmap \<Rightarrow> gmap option" where
  "result_output (Inl e) = None"
| "result_output (Inr out) = Some out"

lemma exec_step_result:
  "exec_step lib rdb env s channel input = (case step_result lib rdb env s channel input of
     (res, fx) \<Rightarrow> (result_status res, result_error res, result_output res, fx))"
  by (auto simp: exec_step_def step_result_def split: sum.split prod.split)

text \<open>The shape of a run.\<close>

lemma spec_run_step:
  "i < length (spec_run lib rdb envs ch n ss input) \<Longrightarrow> oc_step (spec_run lib rdb envs ch n ss input ! i) = ss ! i"
proof (induction ss arbitrary: n input i)
  case (Cons s ss)
  then show ?case by (cases i) (auto split: sum.splits prod.splits)
qed simp

lemma spec_run_input:
  "i < length (spec_run lib rdb envs ch n ss input) \<Longrightarrow>
     oc_input (spec_run lib rdb envs ch n ss input ! i) = (if i = 0 then input
       else case oc_result (spec_run lib rdb envs ch n ss input ! (i - 1)) of Inr out \<Rightarrow> out | Inl e \<Rightarrow> [])"
proof (induction ss arbitrary: n input i)
  case (Cons s ss)
  show ?case
  proof (cases i)
    case (Suc j)
    with Cons.prems Cons.IH [of j "Suc n"] show ?thesis
      by (cases j) (auto split: sum.splits prod.splits)
  qed (auto split: prod.splits)
qed simp

lemma spec_run_result:
  "i < length (spec_run lib rdb envs ch n ss input) \<Longrightarrow>
     step_result lib rdb (envs (n + i)) (ss ! i) ch (oc_input (spec_run lib rdb envs ch n ss input ! i)) =
       (oc_result (spec_run lib rdb envs ch n ss input ! i), oc_effects (spec_run lib rdb envs ch n ss input ! i))"
proof (induction ss arbitrary: n input i)
  case (Cons s ss)
  show ?case
  proof (cases i)
    case (Suc j)
    with Cons.prems Cons.IH [of j "Suc n"] show ?thesis
      by (auto split: sum.splits prod.splits)
  qed (auto split: prod.splits)
qed simp

text \<open>Only the last step of a run can have failed; a run without a failure is complete.\<close>

lemma spec_run_success_before:
  "Suc i < length (spec_run lib rdb envs ch n ss input) \<Longrightarrow>
     \<exists>out. oc_result (spec_run lib rdb envs ch n ss input ! i) = Inr out"
proof (induction ss arbitrary: n input i)
  case (Cons s ss)
  show ?case
  proof (cases i)
    case (Suc j)
    with Cons.prems Cons.IH [of j "Suc n"] show ?thesis
      by (auto split: sum.splits prod.splits)
  next
    case 0
    with Cons.prems show ?thesis by (auto split: sum.splits prod.splits)
  qed
qed simp

lemma spec_run_length: "length (spec_run lib rdb envs ch n ss input) \<le> length ss"
proof (induction ss arbitrary: n input)
  case (Cons s ss)
  then show ?case by (auto split: sum.split prod.split)
qed simp

lemma run_error_Cons: "run_error (oc # ocs) = (case oc_result oc of
    Inl e \<Rightarrow> if ocs = [] then Some e else run_error ocs
  | Inr out \<Rightarrow> run_error ocs)"
  by (simp add: run_error_def split: sum.split)

lemma spec_run_complete:
  "run_error (spec_run lib rdb envs ch n ss input) = None \<Longrightarrow> length (spec_run lib rdb envs ch n ss input) = length ss"
proof (induction ss arbitrary: n input)
  case (Cons s ss)
  then show ?case by (auto simp: run_error_Cons split: sum.splits prod.splits)
qed simp

lemma spec_run_nonempty: "ss \<noteq> [] \<Longrightarrow> spec_run lib rdb envs ch n ss input \<noteq> []"
  by (cases ss) (auto split: prod.split)

subsection \<open>The loops follow the abstract run\<close>

text \<open>The writes of a run: one record per executed step.\<close>

fun record_all :: "(string \<Rightarrow> error + string) \<Rightarrow> run_oracle \<Rightarrow> execution \<Rightarrow> uint64 \<Rightarrow> nat \<Rightarrow> outcome list \<Rightarrow> world \<Rightarrow> world" where
  "record_all jsonb ro ex wid n [] w = w"
| "record_all jsonb ro ex wid n (oc # ocs) w = record_all jsonb ro ex wid (Suc n) ocs
     (record_step jsonb (ro_steps ro n) ex wid (oc_step oc) (oc_input oc)
       (result_status (oc_result oc), result_error (oc_result oc), result_output (oc_result oc), oc_effects oc) w)"

abbreviation envs_of :: "run_oracle \<Rightarrow> nat \<Rightarrow> step_env" where
  "envs_of ro \<equiv> \<lambda>n. so_env (ro_steps ro n)"

lemma steps_loop_spec:
  "steps_loop lib jsonb rdb ro ex wid n ss input w =
     (let ocs = spec_run lib rdb (envs_of ro) (channel_of wid) n ss input
      in (run_status ocs, (case run_error ocs of None \<Rightarrow> [] | Some e \<Rightarrow> e),
          finishExecution ro ex wid (run_status ocs) (record_all jsonb ro ex wid n ocs w)))"
proof (induction ss arbitrary: n input w)
  case Nil
  then show ?case by (simp add: run_status_def run_error_def)
next
  case (Cons s ss)
  obtain res fx where r: "step_result lib rdb (so_env (ro_steps ro n)) s (channel_of wid) input = (res, fx)"
    by fastforce
  show ?case
  proof (cases res)
    case (Inl e)
    with r show ?thesis by (simp add: exec_step_result run_status_def run_error_def)
  next
    case (Inr out)
    with r Cons.IH show ?thesis
      by (simp add: exec_step_result run_status_def run_error_Cons Let_def)
  qed
qed

definition steps_of :: "workflow \<Rightarrow> StepDef list" where
  "steps_of wk = (case unmarshal_steps (wf_Steps wk) of None \<Rightarrow> [] | Some ss \<Rightarrow> ss)"

definition run_of :: "golib \<Rightarrow> bool \<Rightarrow> run_oracle \<Rightarrow> workflow \<Rightarrow> outcome list" where
  "run_of lib rdb ro wk = spec_run lib rdb (envs_of ro) (channel_of (wf_ID wk)) 0 (steps_of wk) []"

lemma runSteps_spec:
  "runSteps lib jsonb rdb ro ex wk w =
     (run_status (run_of lib rdb ro wk), (case run_error (run_of lib rdb ro wk) of None \<Rightarrow> [] | Some e \<Rightarrow> e),
      finishExecution ro ex (wf_ID wk) (run_status (run_of lib rdb ro wk))
        (record_all jsonb ro ex (wf_ID wk) 0 (run_of lib rdb ro wk) w))"
  by (simp add: runSteps_def run_of_def steps_of_def steps_loop_spec Let_def run_status_def run_error_def
      split: option.split)

subsection \<open>The streaming variant\<close>

fun step_events :: "run_oracle \<Rightarrow> nat \<Rightarrow> outcome list \<Rightarrow> ExecutionEvent list" where
  "step_events ro n [] = []"
| "step_events ro n (oc # ocs) = step_event (oc_step oc) (result_status (oc_result oc))
     (so_duration (ro_steps ro n)) (result_error (oc_result oc)) # step_events ro (Suc n) ocs"

fun deliver :: "run_oracle \<Rightarrow> nat \<Rightarrow> ExecutionEvent list \<Rightarrow> ExecutionEvent list" where
  "deliver ro n [] = []"
| "deliver ro n (ev # evs) = send ro n ev @ deliver ro (Suc n) evs"

lemma stream_loop_spec:
  "stream_loop lib jsonb rdb ro ex wid n ss input w =
     (let ocs = spec_run lib rdb (envs_of ro) (channel_of wid) n ss input;
          err = (case run_error ocs of None \<Rightarrow> [] | Some e \<Rightarrow> e)
      in (if run_error ocs = None then ro_send ro (n + length ocs) else None,
          deliver ro n (step_events ro n ocs @ [finished_event (run_status ocs) err]),
          finishExecution ro ex wid (run_status ocs) (record_all jsonb ro ex wid n ocs w)))"
proof (induction ss arbitrary: n input w)
  case Nil
  then show ?case by (simp add: run_status_def run_error_def Let_def)
next
  case (Cons s ss)
  obtain res fx where r: "step_result lib rdb (so_env (ro_steps ro n)) s (channel_of wid) input = (res, fx)"
    by fastforce
  show ?case
  proof (cases res)
    case (Inl e)
    with r show ?thesis by (simp add: exec_step_result run_status_def run_error_def Let_def)
  next
    case (Inr out)
    with r Cons.IH show ?thesis
      by (simp add: exec_step_result run_status_def run_error_Cons Let_def)
  qed
qed

subsection \<open>What one step writes\<close>

definition log_row :: "(string \<Rightarrow> error + string) \<Rightarrow> step_oracle \<Rightarrow> uint64 \<Rightarrow> outcome \<Rightarrow> uint64 \<Rightarrow> step_log option" where
  "log_row jsonb so xid oc i =
     (case (store_json jsonb (marshal_map (Some (oc_input oc))),
            store_json jsonb (marshal_map (result_output (oc_result oc)))) of
        (Inr inp, Inr out) \<Rightarrow> if so_log so \<noteq> None then None
          else Some \<lparr>sl_ID = i, sl_ExecutionID = xid, sl_StepID = sd_ID (oc_step oc), sl_StepType = sd_Type (oc_step oc),
                sl_Status = result_status (oc_result oc), sl_Input = inp, sl_Output = out,
                sl_Error = result_error (oc_result oc), sl_DurationMs = so_duration so\<rparr>
      | _ \<Rightarrow> None)"

definition effect_events :: "effect list \<Rightarrow> (string \<times> string) list" where
  "effect_events fx = concat (map (\<lambda>f. case f of Published ch p \<Rightarrow> [(ch, p)] | Printed s \<Rightarrow> []) fx)"

definition done_event :: "step_oracle \<Rightarrow> uint64 \<Rightarrow> uint64 \<Rightarrow> outcome \<Rightarrow> (string \<times> string) list" where
  "done_event so wid xid oc = (if so_drop so then [] else [(channel_of wid, marshal_event
     \<lparr>re_Type = ''step_done'', re_ExecutionID = xid, re_StepID = sd_ID (oc_step oc),
       re_Status = result_status (oc_result oc), re_DurationMs = so_duration so\<rparr>)])"

lemma apply_effects_eq: "apply_effects fx w = w\<lparr>pubsub := pubsub w @ effect_events fx\<rparr>"
proof (induction fx arbitrary: w)
  case (Cons f fx)
  then show ?case by (cases f) (simp_all add: apply_effects_def effect_events_def)
qed (simp add: apply_effects_def effect_events_def)

abbreviation record_outcome ::
  "(string \<Rightarrow> error + string) \<Rightarrow> run_oracle \<Rightarrow> execution \<Rightarrow> uint64 \<Rightarrow> nat \<Rightarrow> outcome \<Rightarrow> world \<Rightarrow> world" where
  "record_outcome jsonb ro ex wid n oc w \<equiv> record_step jsonb (ro_steps ro n) ex wid (oc_step oc) (oc_input oc)
     (result_status (oc_result oc), result_error (oc_result oc), result_output (oc_result oc), oc_effects oc) w"

lemma writeStepLog_eq:
  "writeStepLog jsonb (so_log so) ex (oc_step oc) (result_status (oc_result oc)) (result_error (oc_result oc))
     (oc_input oc) (result_output (oc_result oc)) (so_duration so) w =
   (case log_row jsonb so (ex_ID ex) oc 0 of
      None \<Rightarrow> w
    | Some r \<Rightarrow> (case db_create None (\<lambda>i. r\<lparr>sl_ID := i\<rparr>) (step_logs (db w)) of
        Inl e \<Rightarrow> w | Inr (i, t) \<Rightarrow> w\<lparr>db := (db w)\<lparr>step_logs := t\<rparr>\<rparr>))"
  by (auto simp: writeStepLog_def log_row_def db_create_def split: sum.split option.split)

lemma record_outcome_eq:
  "record_outcome jsonb ro ex wid n oc w =
     (let w1 = (case log_row jsonb (ro_steps ro n) (ex_ID ex) oc 0 of
                  None \<Rightarrow> w
                | Some r \<Rightarrow> (case db_create None (\<lambda>i. r\<lparr>sl_ID := i\<rparr>) (step_logs (db w)) of
                    Inl e \<Rightarrow> w | Inr (i, t) \<Rightarrow> w\<lparr>db := (db w)\<lparr>step_logs := t\<rparr>\<rparr>))
      in w1\<lparr>pubsub := pubsub w @ effect_events (oc_effects oc) @ done_event (ro_steps ro n) wid (ex_ID ex) oc\<rparr>)"
  unfolding record_step_def prod.case writeStepLog_eq apply_effects_eq
  by (auto simp: publishRedisEvent_def done_event_def Let_def split: option.split sum.split)

lemma record_outcome_frame [simp]:
  "workflows (db (record_outcome jsonb ro ex wid n oc w)) = workflows (db w)"
  "executions (db (record_outcome jsonb ro ex wid n oc w)) = executions (db w)"
  "cache (record_outcome jsonb ro ex wid n oc w) = cache w"
  "mq (record_outcome jsonb ro ex wid n oc w) = mq w"
  "pubsub (record_outcome jsonb ro ex wid n oc w) =
     pubsub w @ effect_events (oc_effects oc) @ done_event (ro_steps ro n) wid (ex_ID ex) oc"
  by (auto simp: record_outcome_eq Let_def split: option.split sum.split)

text \<open>The rows of a table without their keys.\<close>

definition logs_of :: "database \<Rightarrow> step_log list" where
  "logs_of d = map (\<lambda>(k, l). l\<lparr>sl_ID := 0\<rparr>) (rows (step_logs d))"

lemma record_outcome_logs:
  assumes "next_key (step_logs (db w)) < key_limit"
  shows "logs_of (db (record_outcome jsonb ro ex wid n oc w)) = logs_of (db w) @
      (case log_row jsonb (ro_steps ro n) (ex_ID ex) oc 0 of None \<Rightarrow> [] | Some r \<Rightarrow> [r])"
    and "next_key (step_logs (db (record_outcome jsonb ro ex wid n oc w))) \<le> next_key (step_logs (db w)) + 1"
proof -
  have "sl_ID r = 0" if "log_row jsonb (ro_steps ro n) (ex_ID ex) oc 0 = Some r" for r
    using that by (auto simp: log_row_def split: sum.splits if_splits)
  then have "r\<lparr>sl_ID := 0\<rparr> = r" if "log_row jsonb (ro_steps ro n) (ex_ID ex) oc 0 = Some r" for r
    using that by simp
  then show "logs_of (db (record_outcome jsonb ro ex wid n oc w)) = logs_of (db w) @
      (case log_row jsonb (ro_steps ro n) (ex_ID ex) oc 0 of None \<Rightarrow> [] | Some r \<Rightarrow> [r])"
    "next_key (step_logs (db (record_outcome jsonb ro ex wid n oc w))) \<le> next_key (step_logs (db w)) + 1"
    using assms by (auto simp: record_outcome_eq Let_def db_create_def logs_of_def insert_row_def split: option.split)
qed

subsection \<open>What the steps write\<close>

fun written_logs :: "(string \<Rightarrow> error + string) \<Rightarrow> run_oracle \<Rightarrow> uint64 \<Rightarrow> nat \<Rightarrow> outcome list \<Rightarrow> step_log list" where
  "written_logs jsonb ro xid n [] = []"
| "written_logs jsonb ro xid n (oc # ocs) =
     (case log_row jsonb (ro_steps ro n) xid oc 0 of None \<Rightarrow> [] | Some r \<Rightarrow> [r]) @ written_logs jsonb ro xid (Suc n) ocs"

fun run_events :: "run_oracle \<Rightarrow> uint64 \<Rightarrow> uint64 \<Rightarrow> nat \<Rightarrow> outcome list \<Rightarrow> (string \<times> string) list" where
  "run_events ro wid xid n [] = []"
| "run_events ro wid xid n (oc # ocs) =
     effect_events (oc_effects oc) @ done_event (ro_steps ro n) wid xid oc @ run_events ro wid xid (Suc n) ocs"

lemma record_all_frame [simp]:
  "workflows (db (record_all jsonb ro ex wid n ocs w)) = workflows (db w)"
  "executions (db (record_all jsonb ro ex wid n ocs w)) = executions (db w)"
  "cache (record_all jsonb ro ex wid n ocs w) = cache w"
  "mq (record_all jsonb ro ex wid n ocs w) = mq w"
  "pubsub (record_all jsonb ro ex wid n ocs w) = pubsub w @ run_events ro wid (ex_ID ex) n ocs"
  by (induction ocs arbitrary: n w) auto

lemma record_all_logs:
  assumes "next_key (step_logs (db w)) + int (length ocs) \<le> key_limit"
  shows "logs_of (db (record_all jsonb ro ex wid n ocs w)) = logs_of (db w) @ written_logs jsonb ro (ex_ID ex) n ocs"
  using assms
proof (induction ocs arbitrary: n w)
  case (Cons oc ocs)
  have c: "next_key (step_logs (db w)) < key_limit" using Cons.prems by simp
  note l = record_outcome_logs [OF c, where jsonb = jsonb and ro = ro and ex = ex and wid = wid and n = n and oc = oc]
  have "next_key (step_logs (db (record_outcome jsonb ro ex wid n oc w))) + int (length ocs) \<le> key_limit"
    using Cons.prems l(2) by simp
  from Cons.IH [OF this] l(1) show ?case by simp
qed simp

lemma set_status_frame [simp]:
  "workflows (db (set_status f ex g w)) = workflows (db w)"
  "step_logs (db (set_status f ex g w)) = step_logs (db w)"
  "logs_of (db (set_status f ex g w)) = logs_of (db w)"
  "cache (set_status f ex g w) = cache w" "mq (set_status f ex g w) = mq w" "pubsub (set_status f ex g w) = pubsub w"
  by (auto simp: set_status_def logs_of_def split: sum.split)

definition finish_event :: "run_oracle \<Rightarrow> uint64 \<Rightarrow> uint64 \<Rightarrow> string \<Rightarrow> (string \<times> string) list" where
  "finish_event ro wid xid status = (if ro_finish_drop ro then [] else [(channel_of wid, marshal_event
     \<lparr>re_Type = ''finished'', re_ExecutionID = xid, re_StepID = [], re_Status = status, re_DurationMs = 0\<rparr>)])"

lemma publish_frame [simp]:
  "db (publishRedisEvent lost wid xid ty sid st d w) = db w"
  "cache (publishRedisEvent lost wid xid ty sid st d w) = cache w"
  "mq (publishRedisEvent lost wid xid ty sid st d w) = mq w"
  by (simp_all add: publishRedisEvent_def)

lemma finish_frame [simp]:
  "workflows (db (finishExecution ro ex wid st w)) = workflows (db w)"
  "step_logs (db (finishExecution ro ex wid st w)) = step_logs (db w)"
  "logs_of (db (finishExecution ro ex wid st w)) = logs_of (db w)"
  "cache (finishExecution ro ex wid st w) = cache w" "mq (finishExecution ro ex wid st w) = mq w"
  "pubsub (finishExecution ro ex wid st w) = pubsub w @ finish_event ro wid (ex_ID ex) st"
  by (auto simp: finishExecution_def logs_of_def publishRedisEvent_def finish_event_def)

lemma set_status_lookup:
  assumes "lookup (executions (db w)) k = Some r" and "live_ex r" and "db_key (ex_ID ex) = k"
  shows "lookup (executions (db (set_status f ex g w))) j =
    (if j = k \<and> f = None then Some (g r) else lookup (executions (db w)) j)"
  using assms by (auto simp: set_status_def db_updates_def rs.look_upd split: option.split)

subsection \<open>The RPCs\<close>

definition run_final :: "golib \<Rightarrow> (string \<Rightarrow> error + string) \<Rightarrow> bool \<Rightarrow> run_oracle \<Rightarrow> workflow \<Rightarrow> execution \<Rightarrow> world \<Rightarrow> world" where
  "run_final lib jsonb rdb ro wk ex w =
     finishExecution ro ex (wf_ID wk) (run_status (run_of lib rdb ro wk))
       (record_all jsonb ro ex (wf_ID wk) 0 (run_of lib rdb ro wk) (mark_running ro ex w))"

definition run_message :: "outcome list \<Rightarrow> error" where
  "run_message ocs = (case run_error ocs of None \<Rightarrow> [] | Some e \<Rightarrow> e)"

lemma RunExecution_spec:
  "RunExecution lib jsonb scan_uid rdb ro req w =
     (case load_workflow scan_uid ro (rq_WorkflowId req) w of Inl e \<Rightarrow> (Inl e, w)
      | Inr wk \<Rightarrow> (case load_execution ro (rq_ExecutionId req) w of Inl e \<Rightarrow> (Inl e, w)
        | Inr ex \<Rightarrow> (Inr \<lparr>rr_Status = run_status (run_of lib rdb ro wk), rr_Error = run_message (run_of lib rdb ro wk)\<rparr>,
            run_final lib jsonb rdb ro wk ex w)))"
  by (simp add: RunExecution_def runSteps_spec run_final_def run_message_def split: sum.split)

lemma StreamExecution_spec:
  "StreamExecution lib jsonb scan_uid rdb ro req w =
     (case load_workflow scan_uid ro (rq_WorkflowId req) w of Inl e \<Rightarrow> (Some e, [], w)
      | Inr wk \<Rightarrow> (case load_execution ro (rq_ExecutionId req) w of Inl e \<Rightarrow> (Some e, [], w)
        | Inr ex \<Rightarrow> let ocs = run_of lib rdb ro wk in
            (if run_error ocs = None then ro_send ro (length ocs) else None,
             deliver ro 0 (step_events ro 0 ocs @ [finished_event (run_status ocs) (run_message ocs)]),
             run_final lib jsonb rdb ro wk ex w)))"
  unfolding StreamExecution_def stream_loop_spec
  by (auto simp: run_final_def run_message_def run_of_def steps_of_def run_status_def run_error_def Let_def
      split: sum.split option.split)

lemma load_workflowD:
  assumes "load_workflow scan_uid ro i w = Inr wk"
  shows "lookup (workflows (db w)) (sint i) = Some wk" "live_wf wk" "scan_uid (wf_UserID wk) = None"
  using assms by (auto simp: load_workflow_def dest: db_firstD split: sum.splits option.splits)

lemma load_executionD:
  assumes "load_execution ro i w = Inr ex"
  shows "lookup (executions (db w)) (sint i) = Some ex" "live_ex ex"
  using assms by (auto simp: load_execution_def dest: db_firstD split: sum.splits)

lemma loaded_ids:
  assumes ok: "db_ok (db w)"
  shows "load_workflow scan_uid ro i w = Inr wk \<Longrightarrow> wf_ID wk = i"
    and "load_execution ro j w = Inr ex \<Longrightarrow> ex_ID ex = j \<and> db_key j = sint j"
proof -
  show "load_workflow scan_uid ro i w = Inr wk \<Longrightarrow> wf_ID wk = i"
    using row_sint load_workflowD(1) ok signed_word_eqI by (metis db_ok_def)
  assume l: "load_execution ro j w = Inr ex"
  have t: "table_ok ex_ID (executions (db w))" using ok by (simp add: db_ok_def)
  have i: "ex_ID ex = j" using row_sint [OF t load_executionD(1) [OF l]] by (rule signed_word_eqI)
  then show "ex_ID ex = j \<and> db_key j = sint j"
    using lookup_key_eq [OF t load_executionD(1) [OF l]] by simp
qed

text \<open>A run that returned a response: what it loaded.\<close>

lemma RunExecution_done:
  assumes ok: "db_ok (db w)" and r: "RunExecution lib jsonb scan_uid rdb ro req w = (Inr resp, w')"
  obtains wk ex where
    "lookup (workflows (db w)) (sint (rq_WorkflowId req)) = Some wk" "live_wf wk" "wf_ID wk = rq_WorkflowId req"
    "lookup (executions (db w)) (sint (rq_ExecutionId req)) = Some ex" "live_ex ex" "ex_ID ex = rq_ExecutionId req"
    "db_key (ex_ID ex) = sint (rq_ExecutionId req)"
    "resp = \<lparr>rr_Status = run_status (run_of lib rdb ro wk), rr_Error = run_message (run_of lib rdb ro wk)\<rparr>"
    "w' = run_final lib jsonb rdb ro wk ex w"
proof -
  obtain wk ex where l: "load_workflow scan_uid ro (rq_WorkflowId req) w = Inr wk"
    "load_execution ro (rq_ExecutionId req) w = Inr ex"
    "resp = \<lparr>rr_Status = run_status (run_of lib rdb ro wk), rr_Error = run_message (run_of lib rdb ro wk)\<rparr>"
    "w' = run_final lib jsonb rdb ro wk ex w"
    using r by (auto simp: RunExecution_spec split: sum.splits)
  show ?thesis
    using that [OF load_workflowD(1,2) [OF l(1)] loaded_ids(1) [OF ok l(1)] load_executionD [OF l(2)]
        _ _ l(3,4)] loaded_ids(2) [OF ok l(2)] by simp
qed

lemma run_final_frame [simp]:
  "workflows (db (run_final lib jsonb rdb ro wk ex w)) = workflows (db w)"
  "cache (run_final lib jsonb rdb ro wk ex w) = cache w"
  "mq (run_final lib jsonb rdb ro wk ex w) = mq w"
  "pubsub (run_final lib jsonb rdb ro wk ex w) = pubsub w @ run_events ro (wf_ID wk) (ex_ID ex) 0 (run_of lib rdb ro wk) @
     finish_event ro (wf_ID wk) (ex_ID ex) (run_status (run_of lib rdb ro wk))"
  by (simp_all add: run_final_def mark_running_def)

lemma run_of_length: "length (run_of lib rdb ro wk) \<le> length (steps_of wk)"
  unfolding run_of_def by (rule spec_run_length)

lemma run_final_logs:
  assumes "next_key (step_logs (db w)) + int (length (steps_of wk)) \<le> key_limit"
  shows "logs_of (db (run_final lib jsonb rdb ro wk ex w)) =
    logs_of (db w) @ written_logs jsonb ro (ex_ID ex) 0 (run_of lib rdb ro wk)"
proof -
  have "next_key (step_logs (db (mark_running ro ex w))) + int (length (run_of lib rdb ro wk)) \<le> key_limit"
    using assms run_of_length [of lib rdb ro wk] by (simp add: mark_running_def)
  from record_all_logs [OF this] show ?thesis by (simp add: run_final_def mark_running_def)
qed

definition final_row :: "run_oracle \<Rightarrow> string \<Rightarrow> execution \<Rightarrow> execution" where
  "final_row ro status ex =
     (if ro_finish ro = None then ex\<lparr>ex_Status := status, ex_FinishedAt := Some (ro_now ro)\<rparr>
      else if ro_running ro = None then ex\<lparr>ex_Status := ''running''\<rparr> else ex)"

lemma run_final_executions:
  assumes l: "lookup (executions (db w)) k = Some ex" "live_ex ex" "db_key (ex_ID ex) = k"
  shows "lookup (executions (db (run_final lib jsonb rdb ro wk ex w))) j =
    (if j = k then Some (final_row ro (run_status (run_of lib rdb ro wk)) ex) else lookup (executions (db w)) j)"
proof -
  let ?w1 = "record_all jsonb ro ex (wf_ID wk) 0 (run_of lib rdb ro wk) (mark_running ro ex w)"
  have m: "lookup (executions (db ?w1)) j = (if j = k \<and> ro_running ro = None then Some (ex\<lparr>ex_Status := ''running''\<rparr>)
      else lookup (executions (db w)) j)" for j
    using set_status_lookup [OF l] by (simp add: mark_running_def)
  define r where "r = (if ro_running ro = None then ex\<lparr>ex_Status := ''running''\<rparr> else ex)"
  have r: "lookup (executions (db ?w1)) k = Some r" "live_ex r"
    using m [of k] l by (auto simp: r_def live_ex_def)
  show ?thesis
    using set_status_lookup [OF r l(3)] m l(1) by (auto simp: run_final_def finishExecution_def final_row_def r_def)
qed

subsection \<open>A sample run\<close>

definition sample_lib :: golib where
  "sample_lib = \<lparr>tmpl_parse = (\<lambda>t. None), tmpl_exec = (\<lambda>t m. Inr t), is_print = (\<lambda>n. True)\<rparr>"

definition sample_env :: step_env where
  "sample_env = \<lparr>env_cancel = None, env_pick = True, env_http = (\<lambda>m u b. Response 200 ''{}''),
     env_anthropic = (\<lambda>m n p. ([(''text_delta'', ''hi''), (''text_delta'', ''!'')], None)),
     env_openai = (\<lambda>m n p. ([[''hi'']], None)), env_drop = (\<lambda>n. False)\<rparr>"

definition sample_oracle :: run_oracle where
  "sample_oracle = \<lparr>ro_workflow = None, ro_execution = None, ro_running = None,
     ro_steps = (\<lambda>n. \<lparr>so_env = sample_env, so_duration = 3, so_log = None, so_drop = False\<rparr>),
     ro_finish = None, ro_finish_drop = False, ro_now = 99, ro_send = (\<lambda>n. None)\<rparr>"

definition sample_steps :: string where \<open>sample_steps =
  ''[{"id": "a", "type": "transform", "config": {"template": "hi"}},'' @
  '' {"id": "b", "type": "condition", "config": {"field": "result", "operator": "==", "value": "hi"}},'' @
  '' {"id": "c", "type": "teleport"}, {"id": "d", "type": "delay"}]''\<close>

definition engine_workflow :: workflow where
  "engine_workflow = \<lparr>wf_ID = 1, wf_DeletedAt = None, wf_UserID = ''7'', wf_Name = ''w'', wf_TriggerType = ''manual'',
     wf_TriggerConfig = [], wf_Steps = sample_steps, wf_IsActive = True\<rparr>"

definition engine_execution :: execution where
  "engine_execution = \<lparr>ex_ID = 1, ex_DeletedAt = None, ex_WorkflowID = 1, ex_Status = ''pending'', ex_StartedAt = 0,
     ex_FinishedAt = None, ex_TriggerPayload = ''{}''\<rparr>"

definition engine_world :: world where
  "engine_world = \<lparr>db = \<lparr>workflows = \<lparr>rows = [(1, engine_workflow)], next_key = 2\<rparr>,
       executions = \<lparr>rows = [(1, engine_execution)], next_key = 2\<rparr>, step_logs = empty_table\<rparr>,
     cache = Map.empty, pubsub = [], mq = []\<rparr>"

definition engine_req :: RunExecutionReq where
  "engine_req = \<lparr>rq_ExecutionId = 1, rq_WorkflowId = 1, rq_TriggerPayload = ''{}''\<rparr>"

abbreviation sample_run :: "(error + RunExecutionResp) \<times> world" where
  "sample_run \<equiv> RunExecution sample_lib Inr (\<lambda>u. None) True sample_oracle engine_req engine_world"

lemma engine_db_ok: "db_ok (db engine_world)"
  by (auto simp: db_ok_def engine_world_def engine_workflow_def engine_execution_def table_ok_def refs_ok_def
      empty_table_def key_limit_def lookup_def db_key_def)


lemma sample_steps_of: "map sd_ID (steps_of engine_workflow) = [''a'', ''b'', ''c'', ''d'']"
  by code_simp

lemma sample_steps_length: "length (steps_of engine_workflow) = 4"
proof -
  have "length (steps_of engine_workflow) = length (map sd_ID (steps_of engine_workflow))" by simp
  also have "\<dots> = 4" by (simp only: sample_steps_of) simp
  finally show ?thesis .
qed

lemma sample_run_error:
  "run_error (run_of sample_lib True sample_oracle engine_workflow) = Some ''unknown step type: teleport''"
  by code_simp

lemma sample_loads:
  "load_workflow (\<lambda>u. None) sample_oracle 1 engine_world = Inr engine_workflow"
  "load_execution sample_oracle 1 engine_world = Inr engine_execution"
  by (simp_all add: load_workflow_def load_execution_def db_first_def sample_oracle_def engine_world_def lookup_def
      engine_workflow_def engine_execution_def live_wf_def live_ex_def)

lemma sample_run_eq: "sample_run =
  (Inr \<lparr>rr_Status = ''failed'', rr_Error = ''unknown step type: teleport''\<rparr>,
   run_final sample_lib Inr True sample_oracle engine_workflow engine_execution engine_world)"
  by (simp add: RunExecution_spec engine_req_def sample_loads sample_run_error run_status_def run_message_def)

lemma sample_finish: "ro_finish sample_oracle = None" "ro_now sample_oracle = 99"
  by (simp_all add: sample_oracle_def)

lemma sample_run_length: "length (run_of sample_lib True sample_oracle engine_workflow) = 3"
  by code_simp

subsection \<open>The rows of a run\<close>

text \<open>PostgreSQL takes every text the run stores; every log is written.\<close>

definition jsonb_accepts :: "(string \<Rightarrow> error + string) \<Rightarrow> bool" where
  "jsonb_accepts jsonb \<longleftrightarrow> (\<forall>s. \<exists>t. jsonb s = Inr t)"

definition logs_written :: "run_oracle \<Rightarrow> bool" where
  "logs_written ro \<longleftrightarrow> (\<forall>n. so_log (ro_steps ro n) = None)"

lemma store_total:
  assumes "jsonb_accepts jsonb"
  obtains t where "store_json jsonb m = Inr t"
proof -
  have "\<exists>t. store_json jsonb m = Inr t"
    using assms by (auto simp: jsonb_accepts_def store_json_def split: option.split)
  then show ?thesis using that by blast
qed

lemma log_row_total:
  assumes "logs_written ro" and "jsonb_accepts jsonb"
  obtains inp out where "store_json jsonb (marshal_map (Some (oc_input oc))) = Inr inp"
    "store_json jsonb (marshal_map (result_output (oc_result oc))) = Inr out"
    "log_row jsonb (ro_steps ro n) xid oc i = Some \<lparr>sl_ID = i, sl_ExecutionID = xid, sl_StepID = sd_ID (oc_step oc),
      sl_StepType = sd_Type (oc_step oc), sl_Status = result_status (oc_result oc), sl_Input = inp, sl_Output = out,
      sl_Error = result_error (oc_result oc), sl_DurationMs = so_duration (ro_steps ro n)\<rparr>"
proof -
  obtain inp where i: "store_json jsonb (marshal_map (Some (oc_input oc))) = Inr inp"
    by (rule store_total [OF assms(2)])
  obtain out where o: "store_json jsonb (marshal_map (result_output (oc_result oc))) = Inr out"
    by (rule store_total [OF assms(2)])
  show ?thesis using that [OF i o] assms(1) i o by (simp add: log_row_def logs_written_def)
qed

lemma written_logs_all:
  assumes "logs_written ro" and "jsonb_accepts jsonb"
  shows "written_logs jsonb ro xid n ocs = map (\<lambda>i. the (log_row jsonb (ro_steps ro (n + i)) xid (ocs ! i) 0)) [0..<length ocs]"
proof (induction ocs arbitrary: n)
  case (Cons oc ocs)
  obtain r where r: "log_row jsonb (ro_steps ro n) xid oc 0 = Some r"
    by (rule log_row_total [OF assms])
  have "map (\<lambda>i. the (log_row jsonb (ro_steps ro (n + i)) xid ((oc # ocs) ! i) 0)) [0..<Suc (length ocs)] =
    r # map (\<lambda>i. the (log_row jsonb (ro_steps ro (Suc n + i)) xid (ocs ! i) 0)) [0..<length ocs]"
    unfolding upt_conv_Cons [OF zero_less_Suc] using r by (simp add: map_Suc_upt [symmetric] del: map_Suc_upt upt_Suc)
  with Cons.IH r show ?case by simp
qed simp

lemma log_row_fields:
  assumes "logs_written ro" and "jsonb_accepts jsonb"
  shows "sl_ExecutionID (the (log_row jsonb (ro_steps ro n) xid oc i)) = xid"
    and "sl_StepID (the (log_row jsonb (ro_steps ro n) xid oc i)) = sd_ID (oc_step oc)"
    and "sl_StepType (the (log_row jsonb (ro_steps ro n) xid oc i)) = sd_Type (oc_step oc)"
    and "sl_Status (the (log_row jsonb (ro_steps ro n) xid oc i)) = result_status (oc_result oc)"
    and "Inr (sl_Input (the (log_row jsonb (ro_steps ro n) xid oc i))) = store_json jsonb (marshal_map (Some (oc_input oc)))"
    and "Inr (sl_Output (the (log_row jsonb (ro_steps ro n) xid oc i))) = store_json jsonb (marshal_map (result_output (oc_result oc)))"
  by (rule log_row_total [OF assms, of oc n xid i], simp)+

lemma log_row_first:
  assumes "logs_written ro" and "jsonb_accepts jsonb" and "oc_input oc = []"
  shows "Inr (sl_Input (the (log_row jsonb (ro_steps ro n) xid oc i))) = jsonb ''{}''"
  unfolding log_row_fields(5) [OF assms(1,2)] by (simp add: assms(3) marshal_map_def marshal_def store_json_def)

lemma log_row_next:
  assumes "logs_written ro" and "jsonb_accepts jsonb" and "result_output (oc_result oc) = Some (oc_input oc')"
  shows "sl_Input (the (log_row jsonb (ro_steps ro m) xid oc' j)) = sl_Output (the (log_row jsonb (ro_steps ro n) xid oc i))"
  using log_row_fields(5) [OF assms(1,2), of m xid oc' j] log_row_fields(6) [OF assms(1,2), of n xid oc i] assms(3)
  by (metis sum.inject(2))

lemma run_of_step: "i < length (run_of lib rdb ro wk) \<Longrightarrow> oc_step (run_of lib rdb ro wk ! i) = steps_of wk ! i"
  unfolding run_of_def by (rule spec_run_step)

lemma run_of_input: "i < length (run_of lib rdb ro wk) \<Longrightarrow> oc_input (run_of lib rdb ro wk ! i) =
    (if i = 0 then [] else case oc_result (run_of lib rdb ro wk ! (i - 1)) of Inr out \<Rightarrow> out | Inl e \<Rightarrow> [])"
  unfolding run_of_def by (rule spec_run_input)

lemma run_of_success_before:
  assumes "Suc i < length (run_of lib rdb ro wk)"
  shows "result_status (oc_result (run_of lib rdb ro wk ! i)) = ''success''"
    and "result_output (oc_result (run_of lib rdb ro wk ! i)) = Some (oc_input (run_of lib rdb ro wk ! Suc i))"
proof -
  obtain out where o: "oc_result (run_of lib rdb ro wk ! i) = Inr out"
    using spec_run_success_before assms unfolding run_of_def by blast
  then show "result_status (oc_result (run_of lib rdb ro wk ! i)) = ''success''" by simp
  show "result_output (oc_result (run_of lib rdb ro wk ! i)) = Some (oc_input (run_of lib rdb ro wk ! Suc i))"
    using run_of_input [OF assms] o by simp
qed

lemma run_status_success:
  assumes "run_of lib rdb ro wk \<noteq> []"
  shows "run_status (run_of lib rdb ro wk) = ''success'' \<longleftrightarrow>
    length (run_of lib rdb ro wk) = length (steps_of wk) \<and> result_status (oc_result (last (run_of lib rdb ro wk))) = ''success''"
proof -
  have "run_error (run_of lib rdb ro wk) = None \<Longrightarrow> length (run_of lib rdb ro wk) = length (steps_of wk)"
    unfolding run_of_def by (rule spec_run_complete)
  then show ?thesis using assms
    by (cases "oc_result (last (run_of lib rdb ro wk))") (auto simp: run_status_def run_error_def)
qed

subsection \<open>Properties\<close>

text \<open>C1: the engine refines the abstract run. A run that answers has found the workflow and
  the execution alive; its answer is the status and error of the abstract run of the
  workflow's steps; it appends to the step logs the rows of the executed steps, in order, and to
  the channels their events and one last event; it writes the status and the time into its
  execution's row, as far as these writes succeed; and it changes no other execution, no
  workflow, no cache entry and no queue.\<close>

theorem run_execution_refines:
  assumes "db_ok (db w)" and "RunExecution lib jsonb scan_uid rdb ro req w = (Inr resp, w')"
    and "lookup (workflows (db w)) (sint (rq_WorkflowId req)) = Some wk"
    and "next_key (step_logs (db w)) + int (length (steps_of wk)) \<le> key_limit"
  shows "let ocs = run_of lib rdb ro wk; x = rq_ExecutionId req; i = rq_WorkflowId req in
    live_wf wk \<and> rr_Status resp = run_status ocs \<and> rr_Error resp = run_message ocs \<and>
    logs_of (db w') = logs_of (db w) @ written_logs jsonb ro x 0 ocs \<and>
    pubsub w' = pubsub w @ run_events ro i x 0 ocs @ finish_event ro i x (run_status ocs) \<and>
    (\<exists>ex. lookup (executions (db w)) (sint x) = Some ex \<and> live_ex ex \<and>
       (\<forall>k. lookup (executions (db w')) k =
          (if k = sint x then Some (final_row ro (run_status ocs) ex) else lookup (executions (db w)) k))) \<and>
    workflows (db w') = workflows (db w) \<and> cache w' = cache w \<and> mq w' = mq w"
proof (rule RunExecution_done [OF assms(1,2)])
  fix wk' ex
  assume h: "lookup (workflows (db w)) (sint (rq_WorkflowId req)) = Some wk'" "live_wf wk'" "wf_ID wk' = rq_WorkflowId req"
    "lookup (executions (db w)) (sint (rq_ExecutionId req)) = Some ex" "live_ex ex" "ex_ID ex = rq_ExecutionId req"
    "db_key (ex_ID ex) = sint (rq_ExecutionId req)"
    "resp = \<lparr>rr_Status = run_status (run_of lib rdb ro wk'), rr_Error = run_message (run_of lib rdb ro wk')\<rparr>"
    "w' = run_final lib jsonb rdb ro wk' ex w"
  have wk: "wk' = wk" using h(1) assms(3) by simp
  have "logs_of (db w') = logs_of (db w) @ written_logs jsonb ro (rq_ExecutionId req) 0 (run_of lib rdb ro wk)"
    using run_final_logs [OF assms(4)] h(6,9) wk by simp
  moreover have "\<forall>k. lookup (executions (db w')) k = (if k = sint (rq_ExecutionId req)
      then Some (final_row ro (run_status (run_of lib rdb ro wk)) ex) else lookup (executions (db w)) k)"
    using run_final_executions [OF h(4,5,7)] h(9) wk by simp
  ultimately show ?thesis using h(2-6,8,9) wk by (simp add: Let_def)
qed

theorem run_execution_refines_witness:
  "length (logs_of (db (snd sample_run))) =
     length (written_logs Inr sample_oracle 1 0 (run_of sample_lib True sample_oracle engine_workflow)) \<and>
   lookup (executions (db (snd sample_run))) 1 =
     Some (engine_execution\<lparr>ex_Status := ''failed'', ex_FinishedAt := Some 99\<rparr>)"
proof -
  have l: "lookup (workflows (db engine_world)) (sint (rq_WorkflowId engine_req)) = Some engine_workflow"
    by (simp add: engine_world_def lookup_def engine_req_def)
  have c: "next_key (step_logs (db engine_world)) + int (length (steps_of engine_workflow)) \<le> key_limit"
    by (simp add: sample_steps_length engine_world_def empty_table_def key_limit_def)
  have e: "lookup (executions (db engine_world)) 1 = Some engine_execution" "logs_of (db engine_world) = []"
    by (simp_all add: engine_world_def lookup_def logs_of_def empty_table_def)
  show ?thesis
    using run_execution_refines [OF engine_db_ok sample_run_eq l c] e sample_run_error
    unfolding Let_def sample_run_eq snd_conv
    by (simp add: engine_req_def run_status_def final_row_def sample_finish engine_execution_def)
qed

text \<open>C19: the streaming RPC does the same work. From the same state and with the same
  outside events \<open>StreamExecution\<close> makes exactly the changes \<open>RunExecution\<close> makes, fails where it
  fails and with the same error; and when no send fails, its caller gets one event per
  executed step, in order, and a last one with the status and error that \<open>RunExecution\<close>
  returns.\<close>

theorem stream_equals_run:
  "case RunExecution lib jsonb scan_uid rdb ro req w of
     (Inl e, w1) \<Rightarrow> StreamExecution lib jsonb scan_uid rdb ro req w = (Some e, [], w1) \<and> w1 = w
   | (Inr resp, w1) \<Rightarrow> (\<exists>err evs. StreamExecution lib jsonb scan_uid rdb ro req w = (err, evs, w1) \<and>
       ((\<forall>n. ro_send ro n = None) \<longrightarrow> err = None \<and> (\<exists>wk.
          load_workflow scan_uid ro (rq_WorkflowId req) w = Inr wk \<and>
          evs = step_events ro 0 (run_of lib rdb ro wk) @ [finished_event (rr_Status resp) (rr_Error resp)])))"
proof (cases "load_workflow scan_uid ro (rq_WorkflowId req) w")
  case (Inl e)
  then show ?thesis by (simp add: RunExecution_spec StreamExecution_spec)
next
  case wk: (Inr wk)
  have d: "(\<forall>n. ro_send ro n = None) \<Longrightarrow> deliver ro n evs = evs" for n evs
    by (induction evs arbitrary: n) (simp_all add: send_def)
  show ?thesis
  proof (cases "load_execution ro (rq_ExecutionId req) w")
    case (Inl e)
    with wk show ?thesis by (simp add: RunExecution_spec StreamExecution_spec)
  next
    case (Inr ex)
    with wk d show ?thesis by (simp add: RunExecution_spec StreamExecution_spec Let_def)
  qed
qed

theorem stream_equals_run_witness:
  "\<exists>evs w1. StreamExecution sample_lib Inr (\<lambda>u. None) True sample_oracle engine_req engine_world = (None, evs, w1) \<and>
     w1 = snd sample_run \<and> evs \<noteq> [] \<and> last evs = finished_event ''failed'' ''unknown step type: teleport''"
proof -
  have "\<forall>n. ro_send sample_oracle n = None" by (simp add: sample_oracle_def)
  then show ?thesis
    using stream_equals_run [of sample_lib Inr "\<lambda>u. None" True sample_oracle engine_req engine_world]
    unfolding sample_run_eq by auto
qed


text \<open>A run that cannot load its workflow or its execution answers with an error and
  changes nothing. In particular the engine runs no workflow whose \<open>user_id\<close> cannot be read into
  the unsigned integer of its own model: the gateway stores the subject of the caller's token
  there.\<close>

theorem run_load_failure:
  "(\<exists>e. RunExecution lib jsonb scan_uid rdb ro req w = (Inl e, w)) \<longleftrightarrow>
     (ro_workflow ro \<noteq> None \<or> ro_execution ro \<noteq> None \<or>
      (\<forall>wk. lookup (workflows (db w)) (sint (rq_WorkflowId req)) = Some wk \<longrightarrow>
         \<not> live_wf wk \<or> scan_uid (wf_UserID wk) \<noteq> None) \<or>
      (\<forall>ex. lookup (executions (db w)) (sint (rq_ExecutionId req)) = Some ex \<longrightarrow> \<not> live_ex ex))"
  by (auto simp: RunExecution_spec load_workflow_def load_execution_def db_first_def
      split: sum.splits option.splits if_splits)

theorem run_load_failure_witness:
  "\<exists>e. RunExecution sample_lib Inr (\<lambda>u. if u = ''7'' then Some ''invalid syntax'' else None) True sample_oracle engine_req engine_world
     = (Inl e, engine_world)"
proof -
  have "lookup (workflows (db engine_world)) (sint (rq_WorkflowId engine_req)) = Some engine_workflow"
    by (simp add: engine_world_def lookup_def engine_req_def)
  then show ?thesis unfolding run_load_failure by (simp add: engine_workflow_def)
qed



text \<open>A workflow whose steps are not a JSON array of steps, or are an empty one, succeeds without running
  anything: no step log is written and the execution's row becomes \<open>success\<close>.\<close>

theorem malformed_steps_succeed:
  assumes "db_ok (db w)" and "RunExecution lib jsonb scan_uid rdb ro req w = (Inr resp, w')"
    and "lookup (workflows (db w)) (sint (rq_WorkflowId req)) = Some wk"
    and "unmarshal_steps (wf_Steps wk) = None \<or> unmarshal_steps (wf_Steps wk) = Some []"
    and "ro_finish ro = None"
  shows "rr_Status resp = ''success'' \<and> step_logs (db w') = step_logs (db w) \<and>
    (\<exists>ex. lookup (executions (db w')) (sint (rq_ExecutionId req)) = Some ex \<and> ex_Status ex = ''success'')"
proof (rule RunExecution_done [OF assms(1,2)])
  fix wk' ex
  assume h: "lookup (workflows (db w)) (sint (rq_WorkflowId req)) = Some wk'"
    "lookup (executions (db w)) (sint (rq_ExecutionId req)) = Some ex" "live_ex ex"
    "db_key (ex_ID ex) = sint (rq_ExecutionId req)"
    "resp = \<lparr>rr_Status = run_status (run_of lib rdb ro wk'), rr_Error = run_message (run_of lib rdb ro wk')\<rparr>"
    "w' = run_final lib jsonb rdb ro wk' ex w"
  have e: "run_of lib rdb ro wk' = []" using assms(3,4) h(1) by (auto simp: run_of_def steps_of_def)
  then have "step_logs (db w') = step_logs (db w)"
    using h(6) by (simp add: run_final_def mark_running_def)
  then show ?thesis
    using run_final_executions [OF h(2-4)] e h(5,6) assms(5)
    by (simp add: run_status_def run_error_def final_row_def)
qed

theorem malformed_steps_succeed_witness:
  "step_logs (db (snd (RunExecution sample_lib Inr (\<lambda>u. None) True sample_oracle engine_req
     (engine_world\<lparr>db := (db engine_world)\<lparr>workflows := \<lparr>rows = [(1, engine_workflow\<lparr>wf_Steps := ''{}''\<rparr>)], next_key = 2\<rparr>\<rparr>\<rparr>)))) =
   empty_table"
proof -
  let ?wk = "engine_workflow\<lparr>wf_Steps := ''{}''\<rparr>"
  let ?w = "engine_world\<lparr>db := (db engine_world)\<lparr>workflows := \<lparr>rows = [(1, ?wk)], next_key = 2\<rparr>\<rparr>\<rparr>"
  have ok: "db_ok (db ?w)"
    by (auto simp: db_ok_def engine_world_def engine_workflow_def engine_execution_def table_ok_def refs_ok_def
        empty_table_def key_limit_def lookup_def db_key_def)
  have u: "unmarshal_steps (wf_Steps ?wk) = None \<or> unmarshal_steps (wf_Steps ?wk) = Some []"
    by code_simp
  have l: "load_workflow (\<lambda>u. None) sample_oracle 1 ?w = Inr ?wk" "load_execution sample_oracle 1 ?w = Inr engine_execution"
    by (simp_all add: load_workflow_def load_execution_def db_first_def sample_oracle_def engine_world_def lookup_def
        engine_workflow_def engine_execution_def live_wf_def live_ex_def)
  have r: "RunExecution sample_lib Inr (\<lambda>u. None) True sample_oracle engine_req ?w =
      (Inr \<lparr>rr_Status = run_status (run_of sample_lib True sample_oracle ?wk),
            rr_Error = run_message (run_of sample_lib True sample_oracle ?wk)\<rparr>,
       run_final sample_lib Inr True sample_oracle ?wk engine_execution ?w)"
    by (simp only: RunExecution_spec engine_req_def RunExecutionReq.simps l sum.case)
  have k: "lookup (workflows (db ?w)) (sint (rq_WorkflowId engine_req)) = Some ?wk"
    by (simp add: engine_world_def lookup_def engine_req_def)
  have f: "ro_finish sample_oracle = None" by (simp add: sample_oracle_def)
  show ?thesis
    using malformed_steps_succeed [OF ok r k u f] unfolding r by (simp add: engine_world_def)
qed

subsection \<open>A run keeps the database well-formed\<close>

lemma record_outcome_ok:
  assumes ok: "db_ok (db w)" and ex: "lookup (executions (db w)) (db_key (ex_ID ex)) \<noteq> None"
  shows "db_ok (db (record_outcome jsonb ro ex wid n oc w))"
proof -
  have "db_ok ((db w)\<lparr>step_logs := t\<rparr>)"
    if r: "log_row jsonb (ro_steps ro n) (ex_ID ex) oc 0 = Some r"
      and c: "db_create None (\<lambda>i. r\<lparr>sl_ID := i\<rparr>) (step_logs (db w)) = Inr (i, t)" for r i t
  proof (rule db_ok_create_step_log [OF ok c])
    show "sl_ExecutionID (r\<lparr>sl_ID := j\<rparr>) = ex_ID ex" for j
      using r by (auto simp: log_row_def split: sum.splits if_splits)
  qed (use ex in simp_all)
  then show ?thesis
    using ok by (auto simp: record_outcome_eq Let_def split: option.split sum.split)
qed

lemma record_all_ok:
  assumes "db_ok (db w)" and "lookup (executions (db w)) (db_key (ex_ID ex)) \<noteq> None"
  shows "db_ok (db (record_all jsonb ro ex wid n ocs w))"
  using assms by (induction ocs arbitrary: n w) (simp_all add: record_outcome_ok)

lemma set_status_ok:
  assumes "db_ok (db w)" and "\<And>r. ex_ID (g r) = ex_ID r" and "\<And>r. ex_WorkflowID (g r) = ex_WorkflowID r"
  shows "db_ok (db (set_status f ex g w))"
  using assms db_ok_modify_execution [of "db w" "\<lambda>r. if live_ex r then g r else r" "db_key (ex_ID ex)"]
  by (auto simp: set_status_def db_updates_def split: option.split)

lemma set_status_exists:
  "lookup (executions (db (set_status f ex g w))) k = None \<longleftrightarrow> lookup (executions (db w)) k = None"
  by (auto simp: set_status_def db_updates_def split: option.split)

lemma run_final_ok:
  assumes ok: "db_ok (db w)" and ex: "lookup (executions (db w)) (db_key (ex_ID ex)) \<noteq> None"
  shows "db_ok (db (run_final lib jsonb rdb ro wk ex w))"
proof -
  have "db_ok (db (mark_running ro ex w))"
    unfolding mark_running_def by (rule set_status_ok [OF ok]) simp_all
  moreover have "lookup (executions (db (mark_running ro ex w))) (db_key (ex_ID ex)) \<noteq> None"
    using ex by (simp add: mark_running_def set_status_exists)
  ultimately have "db_ok (db (record_all jsonb ro ex (wf_ID wk) 0 (run_of lib rdb ro wk) (mark_running ro ex w)))"
    by (rule record_all_ok)
  then show ?thesis
    unfolding run_final_def finishExecution_def publish_frame(1) by (rule set_status_ok) simp_all
qed

lemma RunExecution_ok:
  assumes ok: "db_ok (db w)"
  shows "db_ok (db (snd (RunExecution lib jsonb scan_uid rdb ro req w)))"
proof (cases "RunExecution lib jsonb scan_uid rdb ro req w")
  case (Pair r w')
  show ?thesis
  proof (cases r)
    case (Inl e)
    with Pair ok show ?thesis by (auto simp: RunExecution_spec split: sum.splits)
  next
    case (Inr resp)
    show ?thesis
      by (rule RunExecution_done [OF ok Pair [unfolded Inr]]) (simp add: Pair run_final_ok [OF ok])
  qed
qed

lemma RunExecution_frame:
  "workflows (db (snd (RunExecution lib jsonb scan_uid rdb ro req w))) = workflows (db w)"
  "cache (snd (RunExecution lib jsonb scan_uid rdb ro req w)) = cache w"
  "mq (snd (RunExecution lib jsonb scan_uid rdb ro req w)) = mq w"
  by (auto simp: RunExecution_spec split: sum.splits)

subsection \<open>The key sequence of the step logs\<close>

lemma record_all_next_key:
  assumes "next_key (step_logs (db w)) + int (length ocs) \<le> key_limit"
  shows "next_key (step_logs (db (record_all jsonb ro ex wid n ocs w))) \<le> next_key (step_logs (db w)) + int (length ocs)"
  using assms
proof (induction ocs arbitrary: n w)
  case (Cons oc ocs)
  have c: "next_key (step_logs (db w)) < key_limit" using Cons.prems by simp
  note l = record_outcome_logs(2) [OF c, where jsonb = jsonb and ro = ro and ex = ex and wid = wid and n = n and oc = oc]
  have "next_key (step_logs (db (record_outcome jsonb ro ex wid n oc w))) + int (length ocs) \<le> key_limit"
    using Cons.prems l by simp
  from Cons.IH [OF this, of "Suc n"] l show ?case by simp
qed simp

lemma run_final_next_key:
  assumes "next_key (step_logs (db w)) + int (length (steps_of wk)) \<le> key_limit"
  shows "next_key (step_logs (db (run_final lib jsonb rdb ro wk ex w))) \<le> next_key (step_logs (db w)) + int (length (steps_of wk))"
proof -
  have "next_key (step_logs (db (mark_running ro ex w))) + int (length (run_of lib rdb ro wk)) \<le> key_limit"
    using assms run_of_length [of lib rdb ro wk] by (simp add: mark_running_def)
  from record_all_next_key [OF this, of jsonb ro ex "wf_ID wk" 0] run_of_length [of lib rdb ro wk]
  show ?thesis by (simp add: run_final_def mark_running_def)
qed

text \<open>What a run does to the step logs, without its other effects.\<close>

lemma RunExecution_logs:
  assumes "db_ok (db w)" and "RunExecution lib jsonb scan_uid rdb ro req w = (Inr resp, w')"
    and "lookup (workflows (db w)) (sint (rq_WorkflowId req)) = Some wk"
    and "next_key (step_logs (db w)) + int (length (steps_of wk)) \<le> key_limit"
  shows "logs_of (db w') = logs_of (db w) @ written_logs jsonb ro (rq_ExecutionId req) 0 (run_of lib rdb ro wk) \<and>
    next_key (step_logs (db w')) \<le> next_key (step_logs (db w)) + int (length (steps_of wk)) \<and>
    workflows (db w') = workflows (db w) \<and> db_ok (db w')"
proof (rule RunExecution_done [OF assms(1,2)])
  fix wk' ex
  assume h: "lookup (workflows (db w)) (sint (rq_WorkflowId req)) = Some wk'" "ex_ID ex = rq_ExecutionId req"
    "w' = run_final lib jsonb rdb ro wk' ex w"
  have wk: "wk' = wk" using h(1) assms(3) by simp
  have "db_ok (db w')" using RunExecution_ok [OF assms(1)] assms(2) by (metis snd_conv)
  then show ?thesis
    using run_final_logs [OF assms(4)] run_final_next_key [OF assms(4)] h(2,3) wk by simp
qed

end
