(* ===== verification/RunnerProps.thy ===== *)
theory RunnerProps
  imports Runners
begin

section \<open>The step runners: what holds of them\<close>

text \<open>
  Which steps the factory accepts, what a language model's stream becomes, what a delay waits,
  what a condition compares, and on which channel a runner can publish.
\<close>

subsection \<open>What a runner publishes\<close>

definition token_effect :: "string \<Rightarrow> effect \<Rightarrow> bool" where
  "token_effect channel f \<longleftrightarrow> (case f of Printed s \<Rightarrow> True
     | Published ch p \<Rightarrow> ch = channel \<and> (\<exists>sid tok fin. p = print_json (token_json sid tok fin)))"

lemma publishToken_effects: "f \<in> set (publishToken env r n tok fin) \<Longrightarrow> token_effect (a_streamChan r) f"
  by (auto simp: publishToken_def token_effect_def split: if_splits)

lemma anthropic_effects:
  "f \<in> set (snd (snd (anthropic_loop env r n sb evs))) \<Longrightarrow> token_effect (a_streamChan r) f"
  by (induction env r n sb evs rule: anthropic_loop.induct)
    (auto simp: publishToken_effects split: if_splits prod.splits)

lemma openai_effects:
  "f \<in> set (snd (snd (openai_loop env r n sb chunks))) \<Longrightarrow> token_effect (a_streamChan r) f"
  by (induction env r n sb chunks rule: openai_loop.induct)
    (auto simp: publishToken_effects split: if_splits prod.splits)

lemma finish_effects:
  assumes "\<And>f. f \<in> set (snd (snd res)) \<Longrightarrow> token_effect (a_streamChan r) f"
    and "f \<in> set (snd (finish_stream env r what err res))"
  shows "token_effect (a_streamChan r) f"
  using assms publishToken_effects by (fastforce simp: finish_stream_def split: prod.splits option.splits)

lemma run_ai_effects: "f \<in> set (snd (run_ai lib env r input)) \<Longrightarrow> token_effect (a_streamChan r) f"
  by (auto simp: run_ai_def runOpenAI_def runAnthropic_def split: sum.splits if_splits prod.splits
      dest: finish_effects [rotated] intro: anthropic_effects openai_effects elim!: finish_effects [rotated])

lemma map_sum_Inr [simp]: "map_sum id f x = Inr y \<longleftrightarrow> (\<exists>z. x = Inr z \<and> y = f z)"
  by (cases x) auto

lemma run_effects:
  assumes "NewRunner rdb s ch = Inr r" and "f \<in> set (snd (Run lib env r input))"
  shows "token_effect ch f"
proof (cases r)
  case (SendEmail m)
  with assms(2) show ?thesis by (auto simp: run_email_def token_effect_def split: option.splits)
next
  case (AITask a)
  have "a_streamChan a = ch"
    using assms(1) AITask by (auto simp: NewRunner_def newAITaskRunner_def Let_def split: if_splits sum.splits)
  with assms(2) AITask run_ai_effects show ?thesis by auto
qed (use assms(2) in simp_all)


subsection \<open>The factory\<close>

text \<open>What a step must have in its configuration.\<close>

definition has_text :: "gmap option \<Rightarrow> string \<Rightarrow> bool" where
  "has_text cfg k \<longleftrightarrow> (\<exists>ps t. cfg = Some ps \<and> map_of ps k = Some (GStr t) \<and> t \<noteq> [])"

definition required :: "string \<Rightarrow> string list option" where
  "required ty = map_of [(''http_request'', [''url'']), (''transform'', [''template'']), (''delay'', []),
     (''condition'', [''field'', ''operator'']), (''send_email'', [''to'']), (''ai_task'', [''prompt''])] ty"

lemma cfg_string_text: "cfg_string cfg k \<noteq> [] \<longleftrightarrow> has_text cfg k"
  by (auto simp: cfg_string_def map_get_def has_text_def split: option.splits gval.splits)

text \<open>The factory makes a runner of a step exactly when its type is one of the six and every
  key this type requires holds a non-empty string; nothing else about the step matters.\<close>

theorem factory_accepts:
  "isl (NewRunner rdb s ch) \<longleftrightarrow>
     (case required (sd_Type s) of None \<Rightarrow> True | Some ks \<Rightarrow> \<not> list_all (has_text (sd_Config s)) ks)"
proof -
  have m: "isl (map_sum id f x) = isl x" for f :: "'a \<Rightarrow> 'b" and x :: "string + 'a" by (cases x) simp_all
  have n: "\<not> has_text cfg k \<longleftrightarrow> cfg_string cfg k = []" for cfg k using cfg_string_text by blast
  consider "sd_Type s = ''http_request''" | "sd_Type s = ''transform''" | "sd_Type s = ''delay''"
    | "sd_Type s = ''condition''" | "sd_Type s = ''send_email''" | "sd_Type s = ''ai_task''"
    | "sd_Type s \<notin> {''http_request'', ''transform'', ''delay'', ''condition'', ''send_email'', ''ai_task''}"
    by blast
  then show ?thesis
    by cases (simp_all add: NewRunner_def required_def m newHTTPRequestRunner_def newTransformRunner_def
        newDelayRunner_def newConditionRunner_def newSendEmailRunner_def newAITaskRunner_def Let_def n)
qed

subsection \<open>The language model's stream\<close>

definition delivers :: "step_env \<Rightarrow> aiTaskRunner \<Rightarrow> bool" where
  "delivers env r \<longleftrightarrow> a_rdb r \<and> a_streamChan r \<noteq> [] \<and> (\<forall>n. \<not> env_drop env n)"

definition token_messages :: "aiTaskRunner \<Rightarrow> string list \<Rightarrow> effect list" where
  "token_messages r ts = map (\<lambda>t. Published (a_streamChan r) (print_json (token_json (a_stepID r) t False))) ts"

lemma publishToken_delivers:
  "delivers env r \<Longrightarrow> publishToken env r n t b = [Published (a_streamChan r) (print_json (token_json (a_stepID r) t b))]"
  by (simp add: delivers_def publishToken_def)

definition anthropic_tokens :: "(string \<times> string) list \<Rightarrow> string list" where
  "anthropic_tokens evs = filter (\<lambda>t. t \<noteq> []) (map snd (filter (\<lambda>(ty, t). ty = ''text_delta'') evs))"

definition openai_tokens :: "string list list \<Rightarrow> string list" where
  "openai_tokens chunks = filter (\<lambda>t. t \<noteq> []) (map hd (filter (\<lambda>c. c \<noteq> []) chunks))"

lemma anthropic_loop_tokens:
  "delivers env r \<Longrightarrow> fst (anthropic_loop env r n sb evs) = sb @ concat (anthropic_tokens evs) \<and>
     snd (snd (anthropic_loop env r n sb evs)) = token_messages r (anthropic_tokens evs)"
  by (induction env r n sb evs rule: anthropic_loop.induct)
    (auto simp: anthropic_tokens_def token_messages_def publishToken_delivers split: prod.splits)

lemma openai_loop_tokens:
  "delivers env r \<Longrightarrow> fst (openai_loop env r n sb chunks) = sb @ concat (openai_tokens chunks) \<and>
     snd (snd (openai_loop env r n sb chunks)) = token_messages r (openai_tokens chunks)"
  by (induction env r n sb chunks rule: openai_loop.induct)
    (auto simp: openai_tokens_def token_messages_def publishToken_delivers split: prod.splits)

text \<open>The tokens of a run's stream and its error, from the provider the step names.\<close>

definition model_stream :: "step_env \<Rightarrow> aiTaskRunner \<Rightarrow> string \<Rightarrow> string list \<times> error option" where
  "model_stream env r prompt =
     (if a_provider r = ''openai'' then map_prod openai_tokens id (env_openai env (a_model r) (a_maxTokens r) prompt)
      else map_prod anthropic_tokens id (env_anthropic env (a_model r) (a_maxTokens r) prompt))"

lemma finish_tokens:
  assumes "delivers env r" and "fst res = concat ts" and "snd (snd res) = token_messages r ts"
  shows "finish_stream env r what err res = (case err of
      Some e \<Rightarrow> (Inl (what @ '' stream: '' @ e), token_messages r ts)
    | None \<Rightarrow> (Inr [(''output'', GStr (concat ts))],
        token_messages r ts @ [Published (a_streamChan r) (print_json (token_json (a_stepID r) [] True))]))"
  using assms by (auto simp: finish_stream_def publishToken_delivers split: prod.split option.split)

text \<open>C34: what a client sees of an \<open>ai\_task\<close> is what the step outputs. When the prompt renders and no
  publish is lost, one message is published on the step's channel for each non-empty token of the
  stream, in order; when the stream ends without an error, their concatenation is the step's output
  and a last, empty, finished token follows; when it ends with an error, the step fails and no finished
  token is published.\<close>

theorem tokens_are_the_output:
  assumes "renderPrompt lib (a_promptTmpl r) input = Inr prompt" and "delivers env r"
    and "model_stream env r prompt = (ts, err)"
  shows "run_ai lib env r input = (case err of
      None \<Rightarrow> (Inr [(''output'', GStr (concat ts))], token_messages r ts @
        [Published (a_streamChan r) (print_json (token_json (a_stepID r) [] True))])
    | Some e \<Rightarrow> (Inl ((if a_provider r = ''openai'' then ''openai'' else ''anthropic'') @ '' stream: '' @ e),
        token_messages r ts))"
proof (cases "a_provider r = ''openai''")
  case True
  obtain chunks where c: "env_openai env (a_model r) (a_maxTokens r) prompt = (chunks, err)" "ts = openai_tokens chunks"
    using assms(3) True by (auto simp: model_stream_def map_prod_def split: prod.splits)
  note l = openai_loop_tokens [OF assms(2), of 0 "[]" chunks]
  show ?thesis
    using assms(1) True c finish_tokens [OF assms(2), of "openai_loop env r 0 [] chunks" ts "''openai''" err] l
    by (simp add: run_ai_def runOpenAI_def)
next
  case False
  obtain evs where c: "env_anthropic env (a_model r) (a_maxTokens r) prompt = (evs, err)" "ts = anthropic_tokens evs"
    using assms(3) False by (auto simp: model_stream_def map_prod_def split: prod.splits)
  note l = anthropic_loop_tokens [OF assms(2), of 0 "[]" evs]
  show ?thesis
    using assms(1) False c finish_tokens [OF assms(2), of "anthropic_loop env r 0 [] evs" ts "''anthropic''" err] l
    by (simp add: run_ai_def runAnthropic_def)
qed

subsection \<open>Delays and conditions\<close>

text \<open>A delay is bounded by the step's timeout: a step whose delay is longer than 30 seconds always
  fails, one that is shorter succeeds unless the parent context ends first, and a delay that succeeds
  hands its input on unchanged.\<close>

theorem delay_bounded:
  "(stepTimeout < d_duration r \<longrightarrow> (\<exists>e. run_delay env r input = Inl (''delay interrupted: '' @ e))) \<and>
   (d_duration r < stepTimeout \<and> (\<forall>t e. env_cancel env = Some (t, e) \<longrightarrow> max 0 (d_duration r) < t) \<longrightarrow>
      run_delay env r input = Inr input) \<and>
   (\<forall>out. run_delay env r input = Inr out \<longrightarrow> out = input \<and> d_duration r \<le> stepTimeout)"
proof -
  have s: "0 < stepTimeout" by (simp add: stepTimeout_def second_def)
  show ?thesis
    using s by (auto simp: run_delay_def with_timeout_def Let_def split: option.splits if_splits prod.splits)
qed

lemma f64_less_asym: "f64_less a b \<Longrightarrow> \<not> f64_less b a"
  by (induction a b rule: f64_less.induct) auto

definition operators :: "string list" where
  "operators = [''eq'', ''=='', ''neq'', ''!='', ''gt'', ''>'', ''lt'', ''<'']"

lemma compare_values_words:
  "compare_values ''eq'' a v = Some (a = v)" "compare_values ''neq'' a v = Some (a \<noteq> v)"
  "compare_values ''gt'' a v = Some (f64_less (fst (parse_float v)) (fst (parse_float a)))"
  "compare_values ''lt'' a v = Some (f64_less (fst (parse_float a)) (fst (parse_float v)))"
  "compare_values ''=='' a v = compare_values ''eq'' a v" "compare_values ''!='' a v = compare_values ''neq'' a v"
  "compare_values ''>'' a v = compare_values ''gt'' a v" "compare_values ''<'' a v = compare_values ''lt'' a v"
  by (simp_all add: compare_values_def)

text \<open>A condition never stops or skips a step by its outcome: with the step's context alive and one of
  the eight operators it succeeds and hands on the boolean and its input, whatever the boolean is; with
  any other operator it fails. The word and the symbol of an operator mean the same; \<open>neq\<close> is the
  negation of \<open>eq\<close>, \<open>lt\<close> is \<open>gt\<close> with the operands exchanged, and never do both hold.\<close>

theorem condition_outcome:
  assumes "ctx_done env = None"
  shows "(c_operator r \<in> set operators \<longrightarrow> (\<exists>b. compare_values (c_operator r) (fmt_v (map_get (Some input) (c_field r))) (c_value r) = Some b \<and>
      run_condition lib env r input = Inr [(''condition'', GBool b), (''input'', GMap input)])) \<and>
    (c_operator r \<notin> set operators \<longrightarrow> isl (run_condition lib env r input)) \<and>
    compare_values ''=='' a v = compare_values ''eq'' a v \<and> compare_values ''!='' a v = compare_values ''neq'' a v \<and>
    compare_values ''>'' a v = compare_values ''gt'' a v \<and> compare_values ''<'' a v = compare_values ''lt'' a v \<and>
    compare_values ''neq'' a v = map_option Not (compare_values ''eq'' a v) \<and>
    compare_values ''lt'' a v = compare_values ''gt'' v a \<and>
    \<not> (compare_values ''lt'' a v = Some True \<and> compare_values ''gt'' a v = Some True)"
proof -
  have "compare_values (c_operator r) a v = None \<longleftrightarrow> c_operator r \<notin> set operators" for a v
    by (auto simp: compare_values_def operators_def)
  then have "c_operator r \<in> set operators \<Longrightarrow> \<exists>b. compare_values (c_operator r) (fmt_v (map_get (Some input) (c_field r))) (c_value r) = Some b \<and>
      run_condition lib env r input = Inr [(''condition'', GBool b), (''input'', GMap input)]"
    "c_operator r \<notin> set operators \<Longrightarrow> isl (run_condition lib env r input)"
    using assms by (auto simp: run_condition_def split: option.split)
  then show ?thesis using f64_less_asym by (simp add: compare_values_words)
qed


subsection \<open>Samples\<close>

definition quick_env :: step_env where
  "quick_env = \<lparr>env_cancel = None, env_pick = True, env_http = (\<lambda>m u b. Response 200 ''{}''),
     env_anthropic = (\<lambda>m n p. ([(''text_delta'', ''hi''), (''input_json_delta'', ''x''), (''text_delta'', ''!'')], None)),
     env_openai = (\<lambda>m n p. ([[''hi'']], None)), env_drop = (\<lambda>n. False)\<rparr>"

definition quick_lib :: golib where
  "quick_lib = \<lparr>tmpl_parse = (\<lambda>t. None), tmpl_exec = (\<lambda>t m. Inr t), is_print = (\<lambda>n. True)\<rparr>"

definition quick_ai :: aiTaskRunner where
  "quick_ai = \<lparr>a_provider = ''anthropic'', a_model = ''m'', a_promptTmpl = ''p'', a_maxTokens = 9, a_rdb = True,
     a_streamChan = ''c'', a_stepID = ''s''\<rparr>"

theorem tokens_are_the_output_witness:
  "fst (run_ai quick_lib quick_env quick_ai []) = Inr [(''output'', GStr ''hi!'')] \<and>
   length (snd (run_ai quick_lib quick_env quick_ai [])) = 3"
proof -
  have "renderPrompt quick_lib (a_promptTmpl quick_ai) [] = Inr ''p''"
    by (simp add: renderPrompt_def quick_lib_def quick_ai_def)
  moreover have "delivers quick_env quick_ai" by (simp add: delivers_def quick_env_def quick_ai_def)
  moreover have "model_stream quick_env quick_ai ''p'' = ([''hi'', ''!''], None)"
    by (simp add: model_stream_def quick_env_def quick_ai_def anthropic_tokens_def)
  ultimately show ?thesis by (simp add: tokens_are_the_output token_messages_def)
qed

theorem factory_accepts_witness:
  "isl (NewRunner True \<lparr>sd_ID = ''a'', sd_Type = ''ai_task'', sd_Config = Some [(''prompt'', GStr [])]\<rparr> ''c'') \<and>
   \<not> isl (NewRunner True \<lparr>sd_ID = ''a'', sd_Type = ''delay'', sd_Config = None\<rparr> ''c'')"
  unfolding factory_accepts by (simp add: required_def has_text_def)

theorem delay_bounded_witness:
  "isl (run_delay quick_env \<lparr>d_duration = 31 * second\<rparr> []) \<and> run_delay quick_env \<lparr>d_duration = second\<rparr> [] = Inr []"
  using delay_bounded [of "\<lparr>d_duration = 31 * second\<rparr>" quick_env "[]"] delay_bounded [of "\<lparr>d_duration = second\<rparr>" quick_env "[]"]
  by (auto simp: stepTimeout_def second_def quick_env_def)

theorem condition_outcome_witness:
  "run_condition quick_lib quick_env \<lparr>c_field = ''n'', c_operator = ''eq'', c_value = ''1''\<rparr> [(''n'', GStr ''2'')] =
     Inr [(''condition'', GBool False), (''input'', GMap [(''n'', GStr ''2'')])]"
proof -
  have c: "ctx_done quick_env = None"
    by (simp add: ctx_done_def with_timeout_def quick_env_def stepTimeout_def second_def)
  show ?thesis
    using condition_outcome [OF c, of "\<lparr>c_field = ''n'', c_operator = ''eq'', c_value = ''1''\<rparr>" "[(''n'', GStr ''2'')]" quick_lib "[]" "[]"]
    by (auto simp: operators_def compare_values_words map_get_def)
qed

end
