(* ===== verification/EventStream.thy ===== *)
theory EventStream
  imports EngineProps RunnerProps
begin

section \<open>The event stream: executionstreamhandler.go\<close>

text \<open>
  \<open>api-gateway/internal/handler/executionstreamhandler.go\<close>: the server-sent events of an
  execution. What Redis delivers to a subscriber, \<open>subscribe\<close>, is an argument: for a channel, the
  events of the loop's \<open>select\<close> in order. \<open>flusher\<close> is whether the response writer can flush;
  the request's path is parsed by go-zero.
\<close>

datatype sub_event = Msg string | ChannelClosed | ClientGone

record sse =
  sse_headers :: "(string \<times> string) list"
  sse_body :: string
  sse_ended :: bool

datatype stream_reply = Refused error | Unsupported | Streaming sse

definition isFinished :: "string \<Rightarrow> bool" where
  \<open>isFinished payload \<longleftrightarrow> contains payload ''"type":"finished"'' \<or> contains payload ''"type": "finished"''\<close>

definition sse_frame :: "string \<Rightarrow> string" where
  "sse_frame payload = ''data: '' @ payload @ [CHR 0x0A, CHR 0x0A]"

text \<open>
  The loop: the text written and whether the handler has returned. Without a further event it
  waits.
\<close>

fun stream_events :: "sub_event list \<Rightarrow> string \<times> bool" where
  "stream_events [] = ([], False)"
| "stream_events (ChannelClosed # evs) = ([], True)"
| "stream_events (ClientGone # evs) = ([], True)"
| "stream_events (Msg payload # evs) =
     (if isFinished payload then (sse_frame payload, True)
      else (case stream_events evs of (body, ended) \<Rightarrow> (sse_frame payload @ body, ended)))"

definition sse_header_list :: "(string \<times> string) list" where
  "sse_header_list = [(''Content-Type'', ''text/event-stream''), (''Cache-Control'', ''no-cache''),
     (''Connection'', ''keep-alive'')]"

definition flush_payload :: "execution \<Rightarrow> string" where
  \<open>flush_payload ex = ''{"type":"finished","executionId":'' @ show_nat (unat (ex_ID ex)) @
     '',"status":"'' @ ex_Status ex @ ''"}''\<close>

definition ExecutionStreamHandler :: "error option \<Rightarrow> bool \<Rightarrow> (string \<Rightarrow> sub_event list) \<Rightarrow> int64 \<Rightarrow> world \<Rightarrow> stream_reply" where
  "ExecutionStreamHandler fault flusher subscribe i w =
     (case db_first fault live_ex (executions (db w)) (sint i) of
        Inl e \<Rightarrow> Refused ''execution not found''
      | Inr ex \<Rightarrow>
          if ex_Status ex = ''success'' \<or> ex_Status ex = ''failed''
          then Streaming \<lparr>sse_headers = sse_header_list, sse_body = sse_frame (flush_payload ex), sse_ended = True\<rparr>
          else let channel = ''executions:'' @ show_nat (unat (ex_WorkflowID ex)) in
            if \<not> flusher then Unsupported
            else (case stream_events (subscribe channel) of
              (body, ended) \<Rightarrow> Streaming \<lparr>sse_headers = sse_header_list, sse_body = body, sse_ended = ended\<rparr>))"

subsection \<open>Searching a text for the mark of the last event\<close>

text \<open>
  The text of an event is searched, not parsed. To follow the search through a text,
  \<open>found p Q t\<close> says that \<open>p\<close> occurs in \<open>t\<close> or that \<open>t\<close> completes one of the partial
  occurrences \<open>Q\<close>, given by their lengths.
\<close>

definition found :: "string \<Rightarrow> nat list \<Rightarrow> string \<Rightarrow> bool" where
  "found p Q t \<longleftrightarrow> contains t p \<or> (\<exists>q \<in> set Q. q < length p \<and> has_prefix t (drop q p))"

definition advance :: "string \<Rightarrow> nat list \<Rightarrow> char \<Rightarrow> nat list" where
  "advance p Q c = map Suc (filter (\<lambda>q. q < length p \<and> p ! q = c) (0 # Q))"

lemma found_Nil: "p \<noteq> [] \<Longrightarrow> found p Q [] = False"
proof -
  assume p: "p \<noteq> []"
  have "\<not> has_prefix [] (drop q p)" if "q < length p" for q
    using that by (cases "drop q p") simp_all
  then show ?thesis using p unfolding found_def by auto
qed

lemma has_prefix_drop:
  "q < length p \<Longrightarrow> has_prefix (c # t) (drop q p) \<longleftrightarrow> p ! q = c \<and> has_prefix t (drop (Suc q) p)"
  by (auto simp flip: Cons_nth_drop_Suc)

lemma found_Cons:
  assumes "p \<noteq> []" and "length p \<notin> set (advance p Q c)"
  shows "found p Q (c # t) = found p (advance p Q c) t"
proof -
  have l: "Suc q < length p" if "q \<in> set (0 # Q)" "q < length p" "p ! q = c" for q
  proof -
    have "Suc q \<in> set (advance p Q c)"
      unfolding advance_def set_map set_filter by (rule imageI) (use that in blast)
    then show ?thesis using that(2) assms(2) by (metis Suc_lessI)
  qed
  have "found p Q (c # t) \<longleftrightarrow> contains t p \<or> (\<exists>q \<in> set (0 # Q). q < length p \<and> has_prefix (c # t) (drop q p))"
    using assms(1) by (auto simp: found_def)
  also have "\<dots> \<longleftrightarrow> contains t p \<or> (\<exists>q \<in> set (0 # Q). q < length p \<and> p ! q = c \<and> has_prefix t (drop (Suc q) p))"
    using has_prefix_drop by blast
  also have "\<dots> \<longleftrightarrow> found p (advance p Q c) t"
  proof -
    have "(\<exists>q \<in> set (advance p Q c). q < length p \<and> has_prefix t (drop q p)) \<longleftrightarrow>
        (\<exists>q \<in> {q \<in> set (0 # Q). q < length p \<and> p ! q = c}. Suc q < length p \<and> has_prefix t (drop (Suc q) p))"
      unfolding advance_def set_map set_filter by (rule bex_simps(7))
    then show ?thesis using l unfolding found_def by blast
  qed
  finally show ?thesis .
qed

lemma found_start: "contains t p = found p [] t"
  by (simp add: found_def)


subsection \<open>Escaped text holds no mark\<close>

text \<open>An escaped string is made of units: an escaped quote, or characters without a quote.\<close>

definition esc_unit :: "string \<Rightarrow> bool" where
  "esc_unit u \<longleftrightarrow> u = [CHR 0x5C, CHR 0x22] \<or> (\<forall>c \<in> set u. c \<noteq> CHR 0x22 \<and> 32 \<le> (of_char c :: nat))"

lemma esc_units: "\<exists>us. escape s = concat us \<and> (\<forall>u \<in> set us. esc_unit u)"
proof (induction s rule: escape.induct)
  case 1
  show ?case by (rule exI [of _ "[]"]) simp
next
  case (2 c cs)
  have one: "\<exists>us. u @ e = concat us \<and> (\<forall>v \<in> set us. esc_unit v)"
    if "esc_unit u" "\<exists>us. e = concat us \<and> (\<forall>v \<in> set us. esc_unit v)" for u e
    using that by (metis concat.simps(2) set_ConsD)
  have hd: "32 \<le> (of_char (hex_digit d) :: nat) \<and> hex_digit d \<noteq> CHR 0x22" if "d < 16" for d
    using that by (auto simp: hex_digit_def dest: arg_cong [where f = "of_char :: char \<Rightarrow> nat"])
  show ?case
  proof (cases "ascii c")
    case True
    then have "(of_char c :: nat) div 16 < 16" by (simp add: ascii_def)
    then have "esc_unit (esc_ascii c)"
      using hd [of "of_char c div 16"] hd [of "of_char c mod 16"] by (auto simp: esc_ascii_def esc_u_def esc_unit_def)
    with True 2 show ?thesis by (simp add: one)
  next
    case False
    show ?thesis
    proof (cases "rune_at (c # cs) = 0")
      case True
      have "esc_unit (CHR 0x5C # ''ufffd'')" by (simp add: esc_unit_def)
      from one [OF this] False True 2 show ?thesis by simp
    next
      case r: False
      have "esc_unit (take (rune_at (c # cs)) (c # cs))"
        using rune_bytes [OF refl r] big_byte unfolding esc_unit_def by blast
      then have "esc_unit (esc_rune (take (rune_at (c # cs)) (c # cs)))"
        by (simp add: esc_rune_def esc_unit_def)
      from one [OF this] False r 2 show ?thesis by simp
    qed
  qed
qed

text \<open>
  The two marks share the key \<open>"type"\<close>: six characters with a quote at both ends. A partial
  occurrence that ends before the second quote has length 1 to 5.
\<close>

definition key_mark :: "string \<Rightarrow> bool" where
  \<open>key_mark p \<longleftrightarrow> take 6 p = ''"type"'' \<and> 7 < length p \<and> p ! 6 = CHR '':''\<close>

definition early :: "nat list \<Rightarrow> bool" where
  "early Q \<longleftrightarrow> set Q \<subseteq> {1..5}"

lemma key_mark_nth:
  assumes "key_mark p"
  shows "p ! 0 = CHR 0x22" "p ! 1 = CHR ''t''" "p ! 2 = CHR ''y''" "p ! 3 = CHR ''p''" "p ! 4 = CHR ''e''"
    "p ! 5 = CHR 0x22" "p ! 6 = CHR '':''" "p \<noteq> []" "7 < length p"
proof -
  have "p ! i = (take 6 p) ! i" if "i < 6" for i using that by simp
  moreover have "take 6 p = ''\"type\"''" using assms by (simp add: key_mark_def)
  ultimately have n: "p ! i = ''\"type\"'' ! i" if "i < 6" for i using that by metis
  show "p ! 0 = CHR 0x22" "p ! 1 = CHR ''t''" "p ! 2 = CHR ''y''" "p ! 3 = CHR ''p''" "p ! 4 = CHR ''e''"
    "p ! 5 = CHR 0x22" using n [of 0] n [of 1] n [of 2] n [of 3] n [of 4] n [of 5] by simp_all
  show "p ! 6 = CHR '':''" "p \<noteq> []" "7 < length p" using assms by (auto simp: key_mark_def)
qed

lemma early_cases: "early Q \<Longrightarrow> q \<in> set (0 # Q) \<Longrightarrow> q = 0 \<or> q = 1 \<or> q = 2 \<or> q = 3 \<or> q = 4 \<or> q = 5"
  by (auto simp: early_def)

lemma advance_plain:
  assumes "key_mark p" and "early Q" and "c \<noteq> CHR 0x22"
  shows "early (advance p Q c)" and "length p \<notin> set (advance p Q c)"
proof -
  have "q \<in> {1..4}" if "q \<in> set (0 # Q)" "p ! q = c" for q
    using early_cases [OF assms(2) that(1)] that(2) key_mark_nth [OF assms(1)] assms(3) by auto
  then have "set (advance p Q c) \<subseteq> {1..5}" unfolding advance_def by fastforce
  then show "early (advance p Q c)" "length p \<notin> set (advance p Q c)"
    using key_mark_nth(9) [OF assms(1)] by (auto simp: early_def)
qed

lemma found_plain:
  assumes "key_mark p" and "early Q" and "\<forall>c \<in> set u. c \<noteq> CHR 0x22"
  shows "\<exists>Q'. early Q' \<and> found p Q (u @ t) = found p Q' t"
  using assms(2,3)
proof (induction u arbitrary: Q)
  case (Cons c u)
  then have a: "early (advance p Q c)" "length p \<notin> set (advance p Q c)"
    using advance_plain [OF assms(1)] by simp_all
  from Cons.IH [OF a(1)] Cons.prems show ?case
    using found_Cons [OF key_mark_nth(8) [OF assms(1)] a(2)] by auto
qed auto

lemma advance_other:
  assumes "\<forall>q \<in> set (0 # Q). q < length p \<longrightarrow> p ! q \<noteq> c"
  shows "advance p Q c = []"
  using assms by (auto simp: advance_def filter_empty_conv)

lemma early_backslash: "key_mark p \<Longrightarrow> early Q \<Longrightarrow> advance p Q (CHR 0x5C) = []"
  by (rule advance_other) (use early_cases key_mark_nth in \<open>fastforce\<close>)

lemma advance_quote0: "key_mark p \<Longrightarrow> advance p [] (CHR 0x22) = [1]"
  using key_mark_nth by (simp add: advance_def)

lemma found_unit:
  assumes "key_mark p" and "early Q" and "esc_unit u"
  shows "\<exists>Q'. early Q' \<and> found p Q (u @ t) = found p Q' t"
proof (cases "u = [CHR 0x5C, CHR 0x22]")
  case True
  have "found p Q (u @ t) = found p [1] t"
    using True found_Cons [OF key_mark_nth(8) [OF assms(1)]] key_mark_nth(9) [OF assms(1)]
    by (simp add: early_backslash [OF assms(1,2)] advance_quote0 [OF assms(1)])
  moreover have "early [1]" by (simp add: early_def)
  ultimately show ?thesis by blast
next
  case False
  with assms show ?thesis by (intro found_plain) (auto simp: esc_unit_def)
qed

lemma found_escape:
  assumes "key_mark p" and "early Q"
  shows "\<exists>Q'. early Q' \<and> found p Q (escape s @ t) = found p Q' t"
proof -
  have "\<exists>Q'. early Q' \<and> found p Q (concat us @ t) = found p Q' t" if "\<forall>u \<in> set us. esc_unit u" "early Q" for us Q
    using that
  proof (induction us arbitrary: Q)
    case (Cons u us)
    then show ?case using found_unit [OF assms(1) Cons.prems(2), of u "concat us @ t"] by force
  qed auto
  then show ?thesis using esc_units [of s] assms(2) by metis
qed

text \<open>The closing quote, followed by a comma or a brace, ends every partial occurrence.\<close>

lemma found_string_end:
  assumes k: "key_mark p" and "early Q" and d: "d \<noteq> CHR 0x22" "d \<noteq> CHR ''t''" "d \<noteq> CHR '':''"
  shows "found p Q (escape s @ CHR 0x22 # d # t) = found p [] t"
proof -
  obtain Q' where q: "early Q'" "found p Q (escape s @ CHR 0x22 # d # t) = found p Q' (CHR 0x22 # d # t)"
    using found_escape [OF k assms(2)] by blast
  note n = key_mark_nth [OF k]
  have a: "set (advance p Q' (CHR 0x22)) \<subseteq> {1, 6}"
    using early_cases [OF q(1)] n unfolding advance_def by fastforce
  then have "found p Q' (CHR 0x22 # d # t) = found p (advance p Q' (CHR 0x22)) (d # t)"
    using n(8,9) by (intro found_Cons) auto
  also have z: "advance p (advance p Q' (CHR 0x22)) d = []"
    using a n d by (intro advance_other) fastforce
  then have "found p (advance p Q' (CHR 0x22)) (d # t) = found p [] t"
    using found_Cons [OF n(8), of "advance p Q' (CHR 0x22)" d t] n(8) by simp
  finally show ?thesis using q(2) by simp
qed


text \<open>Following the search through a literal: the partial occurrences after it, unless one is complete.\<close>

fun advance_all :: "string \<Rightarrow> nat list \<Rightarrow> string \<Rightarrow> nat list option" where
  "advance_all p Q [] = Some Q"
| "advance_all p Q (c # cs) = (let Q' = advance p Q c in if length p \<in> set Q' then None else advance_all p Q' cs)"

lemma found_literal: "p \<noteq> [] \<Longrightarrow> advance_all p Q u = Some Q' \<Longrightarrow> found p Q (u @ t) = found p Q' t"
  by (induction p Q u rule: advance_all.induct) (auto simp: Let_def found_Cons split: if_splits)

lemma found_no_quote: "key_mark p \<Longrightarrow> CHR 0x22 \<notin> set u \<Longrightarrow> found p [] (u @ t) = found p [] t"
  unfolding found_start [symmetric] using key_mark_nth(1,8) by (intro contains_skip) (auto simp: hd_conv_nth)

lemma digits_no_quote: "CHR 0x22 \<notin> set (show_nat n)" "CHR 0x22 \<notin> set (show_int i)"
proof -
  show "CHR 0x22 \<notin> set (show_nat n)" for n using show_nat_digits [of n] by (auto simp: is_digit_def)
  then show "CHR 0x22 \<notin> set (show_int i)" by (simp add: show_int_def)
qed

definition mark1 :: string where \<open>mark1 = ''"type":"finished"''\<close>
definition mark2 :: string where \<open>mark2 = ''"type": "finished"''\<close>

lemma marks: "key_mark mark1" "key_mark mark2" by code_simp+

lemma isFinished_found: "isFinished s \<longleftrightarrow> found mark1 [] s \<or> found mark2 [] s"
  by (simp add: isFinished_def found_start mark1_def mark2_def)

text \<open>The literals between the strings and numbers of an event.\<close>

lemma literal_steps:
  "\<forall>p \<in> set [mark1, mark2]. advance_all p [] ''{\"type\":\"step_done\",\"executionId\":'' = Some [] \<and>
     advance_all p [] '',\"stepId\":\"'' = Some [1] \<and> advance_all p [] '',\"status\":\"'' = Some [1] \<and>
     advance_all p [] ''\"status\":\"'' = Some [1] \<and> advance_all p [] ''\"durationMs\":'' = Some [] \<and>
     advance_all p [] ''{\"type\":\"ai_token\",\"stepId\":\"'' = Some [1] \<and> advance_all p [] ''\"token\":\"'' = Some [1]"
  by code_simp


lemma quote_keys:
  "quote ''type'' = ''\"type\"''" "quote ''executionId'' = ''\"executionId\"''" "quote ''stepId'' = ''\"stepId\"''"
  "quote ''status'' = ''\"status\"''" "quote ''durationMs'' = ''\"durationMs\"''" "quote ''token'' = ''\"token\"''"
  "quote ''finished'' = ''\"finished\"''" "quote ''ai_token'' = ''\"ai_token\"''" "quote ''step_done'' = ''\"step_done\"''"
  by code_simp+

definition event_tail :: "redisEvent \<Rightarrow> string" where
  "event_tail ev = show_nat (unat (re_ExecutionID ev)) @
     (if re_StepID ev = [] then [] else '',\"stepId\":\"'' @ escape (re_StepID ev) @ ''\"'') @
     '',\"status\":\"'' @ escape (re_Status ev) @ ''\"'' @
     (if re_DurationMs ev = 0 then [] else '',\"durationMs\":'' @ show_int (sint (re_DurationMs ev))) @ ''}''"

lemma marshal_event_text:
  "marshal_event ev = ''{\"type\":'' @ quote (re_Type ev) @ '',\"executionId\":'' @ event_tail ev"
  by (simp add: marshal_event_def event_json_def event_tail_def quote_keys) (simp add: quote_def)

lemma found_field:
  assumes "p \<in> set [mark1, mark2]" and "advance_all p [] u = Some [1]"
    and "d \<noteq> CHR 0x22" "d \<noteq> CHR ''t''" "d \<noteq> CHR '':''"
  shows "found p [] (u @ escape s @ CHR 0x22 # d # t) = found p [] t"
proof -
  have k: "key_mark p" using assms(1) marks by auto
  have "early [1]" by (simp add: early_def)
  from found_string_end [OF k this assms(3-5)] show ?thesis
    using found_literal [OF key_mark_nth(8) [OF k] assms(2)] by simp
qed

lemma found_close: "key_mark p \<Longrightarrow> found p [] ''}'' = False"
  using found_no_quote [of p "''}''" "[]"] by (simp add: found_Nil key_mark_nth)

lemma found_duration:
  assumes "p \<in> set [mark1, mark2]"
  shows "found p [] (''\"durationMs\":'' @ show_int i @ ''}'') = False"
proof -
  have k: "key_mark p" using assms marks by auto
  have "advance_all p [] ''\"durationMs\":'' = Some []" using literal_steps assms by blast
  from found_literal [OF key_mark_nth(8) [OF k] this] show ?thesis
    using found_no_quote [OF k digits_no_quote(2)] found_close [OF k] by simp
qed

lemma found_status:
  assumes "p \<in> set [mark1, mark2]" and "advance_all p [] u = Some [1]"
  shows "found p [] (u @ escape st @ ''\"'' @ (if d = 0 then [] else '',\"durationMs\":'' @ show_int (sint (d :: int64))) @ ''}'') = False"
proof -
  have k: "key_mark p" using assms(1) marks by auto
  show ?thesis
    using found_field [OF assms, of "CHR '',''" st "''\"durationMs\":'' @ show_int (sint d) @ ''}''"]
      found_field [OF assms, of "CHR ''}''" st "[]"] found_duration [OF assms(1), of "sint d"]
    by (simp add: found_Nil key_mark_nth [OF k])
qed

lemma found_tail:
  assumes "p \<in> set [mark1, mark2]"
  shows "found p [] (event_tail ev) = False"
proof -
  have k: "key_mark p" using assms marks by auto
  have l: "advance_all p [] '',\"stepId\":\"'' = Some [1]" "advance_all p [] '',\"status\":\"'' = Some [1]"
    "advance_all p [] ''\"status\":\"'' = Some [1]" using literal_steps assms by blast+
  show ?thesis
    unfolding event_tail_def found_no_quote [OF k digits_no_quote(1)]
    using found_status [OF assms l(2), of "re_Status ev" "re_DurationMs ev"]
      found_field [OF assms l(1), of "CHR '',''" "re_StepID ev"] found_status [OF assms l(3), of "re_Status ev" "re_DurationMs ev"]
    by simp
qed

text \<open>The handler's search tells the events apart, whatever strings they carry.\<close>

lemma isFinished_event:
  assumes "re_Type ev = ''step_done'' \<or> re_Type ev = ''finished''"
  shows "isFinished (marshal_event ev) \<longleftrightarrow> re_Type ev = ''finished''"
proof (cases "re_Type ev = ''finished''")
  case True
  have "marshal_event ev = ''{'' @ mark1 @ '',\"executionId\":'' @ event_tail ev"
    by (simp add: marshal_event_text True quote_keys mark1_def)
  then have "contains (marshal_event ev) mark1" unfolding contains_iff by blast
  with True show ?thesis by (simp add: isFinished_def mark1_def)
next
  case False
  have "found p [] (marshal_event ev) = False" if "p \<in> set [mark1, mark2]" for p
  proof -
    have k: "key_mark p" using that marks by auto
    have "advance_all p [] ''{\"type\":\"step_done\",\"executionId\":'' = Some []" using literal_steps that by blast
    from found_literal [OF key_mark_nth(8) [OF k] this, of "event_tail ev"] found_tail [OF that, of ev] show ?thesis
      using False assms by (simp add: marshal_event_text quote_keys)
  qed
  then show ?thesis using False by (simp add: isFinished_found)
qed

lemma token_text:
  "print_json (token_json sid tok fin) = ''{\"type\":\"ai_token\",\"stepId\":\"'' @ escape sid @ ''\",\"token\":\"'' @ escape tok @
     ''\",\"finished\":'' @ (if fin then ''true'' else ''false'') @ ''}''"
  by (simp add: token_json_def quote_keys) (simp add: quote_def)

lemma isFinished_token: "\<not> isFinished (print_json (token_json sid tok fin))"
proof -
  have "found p [] (print_json (token_json sid tok fin)) = False" if "p \<in> set [mark1, mark2]" for p
  proof -
    have k: "key_mark p" using that marks by auto
    have l: "advance_all p [] ''{\"type\":\"ai_token\",\"stepId\":\"'' = Some [1]" "advance_all p [] ''\"token\":\"'' = Some [1]"
      using literal_steps that by blast+
    have e: "found p [] (''\"finished\":'' @ (if fin then ''true'' else ''false'') @ ''}'') = False"
      using that by (cases fin) (auto simp: mark1_def mark2_def found_def)
    show ?thesis
      using found_field [OF that l(1), of "CHR '',''" sid "''\"token\":\"'' @ escape tok @ ''\",\"finished\":'' @ (if fin then ''true'' else ''false'') @ ''}''"]
        found_field [OF that l(2), of "CHR '',''" tok "''\"finished\":'' @ (if fin then ''true'' else ''false'') @ ''}''"] e
      by (simp add: token_text)
  qed
  then show ?thesis by (simp add: isFinished_found)
qed


text \<open>C27: looking for the characters \<open>"type":"finished"\<close> is as good as parsing: the handler takes an event of the
  engine for the last one exactly when its type is \<open>finished\<close>, and never a token of a language model,
  whatever the step's key, the status or the model's text contain, the mark itself included.\<close>

theorem finished_search_is_exact:
  "(re_Type ev \<in> {''step_done'', ''finished''} \<longrightarrow> isFinished (marshal_event ev) = (re_Type ev = ''finished'')) \<and>
   \<not> isFinished (print_json (token_json sid tok fin))"
  using isFinished_event [of ev] isFinished_token by blast

theorem finished_search_is_exact_witness:
  "\<not> isFinished (marshal_event \<lparr>re_Type = ''step_done'', re_ExecutionID = 1, re_StepID = mark1, re_Status = ''success'',
     re_DurationMs = 0\<rparr>) \<and>
   \<not> isFinished (print_json (token_json [] mark1 False))"
  using finished_search_is_exact [of "\<lparr>re_Type = ''step_done'', re_ExecutionID = 1, re_StepID = mark1, re_Status = ''success'',
     re_DurationMs = 0\<rparr>" "[]" mark1 False] by simp

subsection \<open>Reading the stream\<close>

text \<open>A client's reading of the text: blocks that end with an empty line, without \<open>data:\<close>.\<close>

fun sse_split :: "string \<Rightarrow> string \<Rightarrow> string list" where
  "sse_split acc (c # d # cs) = (if c = CHR 0x0A \<and> d = CHR 0x0A then rev acc # sse_split [] cs
     else sse_split (c # acc) (d # cs))"
| "sse_split acc _ = []"

definition sse_decode :: "string \<Rightarrow> string list" where
  "sse_decode s = map (drop 6) (sse_split [] s)"

lemma sse_split_block:
  "CHR 0x0A \<notin> set u \<Longrightarrow> sse_split acc (u @ CHR 0x0A # CHR 0x0A # t) = (rev acc @ u) # sse_split [] t"
proof (induction u arbitrary: acc)
  case (Cons c u)
  then show ?case by (cases u) auto
qed simp

lemma sse_split_frame:
  assumes "CHR 0x0A \<notin> set p"
  shows "sse_split [] (sse_frame p @ t) = (''data: '' @ p) # sse_split [] t"
proof -
  have "CHR 0x0A \<notin> set (''data: '' @ p)" using assms by simp
  from sse_split_block [OF this, of "[]" t] show ?thesis by (simp add: sse_frame_def)
qed

lemma sse_decode_frames: "\<forall>p \<in> set ps. CHR 0x0A \<notin> set p \<Longrightarrow> sse_decode (concat (map sse_frame ps)) = ps"
  by (induction ps) (simp_all add: sse_decode_def sse_split_frame)

lemma escape_no_LF: "CHR 0x0A \<notin> set (escape s)"
proof -
  obtain us where us: "escape s = concat us" "\<forall>u \<in> set us. esc_unit u" using esc_units by blast
  have "CHR 0x0A \<notin> set u" if "esc_unit u" for u
    using that unfolding esc_unit_def by (elim disjE) (simp, force)
  then show ?thesis using us unfolding us(1) set_concat by blast
qed

lemma digits_no_LF: "CHR 0x0A \<notin> set (show_nat n)" "CHR 0x0A \<notin> set (show_int i)"
proof -
  show "CHR 0x0A \<notin> set (show_nat n)" for n using show_nat_digits [of n] by (auto simp: is_digit_def)
  then show "CHR 0x0A \<notin> set (show_int i)" by (simp add: show_int_def)
qed

lemma event_no_LF: "CHR 0x0A \<notin> set (marshal_event ev)"
  by (simp add: marshal_event_text event_tail_def quote_def escape_no_LF digits_no_LF)

lemma token_no_LF: "CHR 0x0A \<notin> set (print_json (token_json sid tok fin))"
  by (simp add: token_text escape_no_LF)

lemma stream_events_first:
  assumes "\<forall>p \<in> set ps. \<not> isFinished p" and "isFinished q"
  shows "stream_events (map Msg ps @ Msg q # later) = (concat (map sse_frame (ps @ [q])), True)"
  using assms by (induction ps) simp_all

lemma stream_events_waiting:
  "\<forall>p \<in> set ps. \<not> isFinished p \<Longrightarrow> stream_events (map Msg ps) = (concat (map sse_frame ps), False)"
  by (induction ps) simp_all

lemma handler_streams:
  assumes "lookup (executions (db w)) (sint i) = Some ex" and "live_ex ex" and "ex_Status ex \<notin> {''success'', ''failed''}"
    and "stream_events (subscribe (channel_of (ex_WorkflowID ex))) = (body, ended)"
  shows "ExecutionStreamHandler None True subscribe i w =
    Streaming \<lparr>sse_headers = sse_header_list, sse_body = body, sse_ended = ended\<rparr>"
  unfolding ExecutionStreamHandler_def channel_of_def [symmetric] Let_def
  using assms by (simp add: db_first_None)

text \<open>The text written for an execution that is already over is that of its last event.\<close>

definition last_event :: "uint64 \<Rightarrow> string \<Rightarrow> string" where
  "last_event xid status = marshal_event
     \<lparr>re_Type = ''finished'', re_ExecutionID = xid, re_StepID = [], re_Status = status, re_DurationMs = 0\<rparr>"

lemma flush_last_event:
  assumes "ex_Status ex = ''success'' \<or> ex_Status ex = ''failed''"
  shows "flush_payload ex = last_event (ex_ID ex) (ex_Status ex)"
proof -
  have "escape ''success'' = ''success''" "escape ''failed'' = ''failed''" by code_simp+
  with assms show ?thesis
    by (auto simp: flush_payload_def last_event_def marshal_event_text event_tail_def quote_keys)
qed

lemma handler_flushes:
  assumes "lookup (executions (db w)) (sint i) = Some ex" and "live_ex ex" and "ex_Status ex \<in> {''success'', ''failed''}"
  shows "ExecutionStreamHandler None flusher subscribe i w = Streaming \<lparr>sse_headers = sse_header_list,
    sse_body = sse_frame (last_event (ex_ID ex) (ex_Status ex)), sse_ended = True\<rparr>"
  using assms flush_last_event [of ex] by (auto simp: ExecutionStreamHandler_def db_first_None)

subsection \<open>What a run publishes\<close>

lemma spec_run_effects:
  "oc \<in> set (spec_run lib rdb envs ch n ss input) \<Longrightarrow> f \<in> set (oc_effects oc) \<Longrightarrow> token_effect ch f"
proof (induction ss arbitrary: n input)
  case (Cons s ss)
  obtain res fx where r: "step_result lib rdb (envs n) s ch input = (res, fx)" by fastforce
  have "f \<in> set fx \<Longrightarrow> token_effect ch f"
    using run_effects [of rdb s ch _ f lib "envs n" input] r by (auto simp: step_result_def split: sum.splits)
  with Cons r show ?case by (cases res) auto
qed simp

lemma run_events_messages:
  assumes "\<forall>oc \<in> set ocs. \<forall>f \<in> set (oc_effects oc). token_effect (channel_of wid) f"
  shows "\<forall>e \<in> set (run_events ro wid xid n ocs). fst e = channel_of wid \<and> \<not> isFinished (snd e) \<and> CHR 0x0A \<notin> set (snd e)"
  using assms
proof (induction ocs arbitrary: n)
  case (Cons oc ocs)
  have "fst e = channel_of wid \<and> \<not> isFinished (snd e) \<and> CHR 0x0A \<notin> set (snd e)"
    if "e \<in> set (effect_events (oc_effects oc))" for e
    using that Cons.prems isFinished_token token_no_LF
    by (fastforce simp: effect_events_def token_effect_def split: effect.splits)
  moreover have "fst e = channel_of wid \<and> \<not> isFinished (snd e) \<and> CHR 0x0A \<notin> set (snd e)"
    if "e \<in> set (done_event (ro_steps ro n) wid xid oc)" for e
    using that event_no_LF by (auto simp: done_event_def isFinished_event split: if_splits)
  moreover have "\<forall>e \<in> set (run_events ro wid xid (Suc n) ocs). fst e = channel_of wid \<and> \<not> isFinished (snd e) \<and> CHR 0x0A \<notin> set (snd e)"
    using Cons by simp
  ultimately show ?case by auto
qed simp


subsection \<open>Properties\<close>

text \<open>C20: a client that is connected while the engine runs its execution, and alone, reads the
  run: one block for each message of the run on the channel of the workflow, in order, then the
  \<open>finished\<close> event with the status the engine answers, and the response ends there. A client
  that connects after the run reads just that last block.\<close>

theorem stream_shows_run:
  assumes "db_ok (db w)" and "RunExecution lib jsonb scan_uid rdb ro req w = (Inr resp, w')"
    and "lookup (executions (db w)) (sint (rq_ExecutionId req)) = Some ex" and "ex_WorkflowID ex = rq_WorkflowId req"
    and "ex_Status ex \<notin> {''success'', ''failed''}" and "ro_finish ro = None" and "\<not> ro_finish_drop ro"
    and "subscribe (channel_of (rq_WorkflowId req)) = map Msg (map snd (filter (\<lambda>e. fst e = channel_of (rq_WorkflowId req))
      (drop (length (pubsub w)) (pubsub w')))) @ later"
  shows "\<exists>ps body. map snd (drop (length (pubsub w)) (pubsub w')) = ps @ [last_event (rq_ExecutionId req) (rr_Status resp)] \<and>
    sse_decode body = ps @ [last_event (rq_ExecutionId req) (rr_Status resp)] \<and>
    ExecutionStreamHandler None True subscribe (rq_ExecutionId req) w =
      Streaming \<lparr>sse_headers = sse_header_list, sse_body = body, sse_ended = True\<rparr> \<and>
    ExecutionStreamHandler None flusher subscribe' (rq_ExecutionId req) w' =
      Streaming \<lparr>sse_headers = sse_header_list, sse_body = sse_frame (last_event (rq_ExecutionId req) (rr_Status resp)), sse_ended = True\<rparr>"
proof (rule RunExecution_done [OF assms(1,2)])
  fix wk ex'
  assume h: "wf_ID wk = rq_WorkflowId req" "lookup (executions (db w)) (sint (rq_ExecutionId req)) = Some ex'" "live_ex ex'"
    "ex_ID ex' = rq_ExecutionId req" "db_key (ex_ID ex') = sint (rq_ExecutionId req)"
    "resp = \<lparr>rr_Status = run_status (run_of lib rdb ro wk), rr_Error = run_message (run_of lib rdb ro wk)\<rparr>"
    "w' = run_final lib jsonb rdb ro wk ex' w"
  have ex: "ex' = ex" using h(2) assms(3) by simp
  let ?x = "rq_ExecutionId req" and ?ch = "channel_of (rq_WorkflowId req)"
  let ?es = "run_events ro (rq_WorkflowId req) ?x 0 (run_of lib rdb ro wk)"
  let ?last = "last_event ?x (rr_Status resp)"
  have "\<forall>oc \<in> set (run_of lib rdb ro wk). \<forall>f \<in> set (oc_effects oc). token_effect ?ch f"
    using spec_run_effects unfolding run_of_def h(1) by blast
  note es = run_events_messages [OF this, of ro ?x 0]
  have p: "drop (length (pubsub w)) (pubsub w') = ?es @ [(?ch, ?last)]"
    using assms(7) h(1,4,6) unfolding h(7) by (simp add: finish_event_def last_event_def)
  have "\<forall>e \<in> set ?es. fst e = ?ch" using es by blast
  then have "filter (\<lambda>e. fst e = ?ch) (?es @ [(?ch, ?last)]) = ?es @ [(?ch, ?last)]" by (simp add: filter_id_conv)
  then have d: "subscribe ?ch = map Msg (map snd ?es) @ Msg ?last # later"
    using assms(8) unfolding p by simp
  have "\<forall>q \<in> set (map snd ?es). \<not> isFinished q" using es by auto
  moreover have "isFinished ?last" by (simp add: last_event_def isFinished_event)
  ultimately have b: "stream_events (subscribe (channel_of (ex_WorkflowID ex))) = (concat (map sse_frame (map snd ?es @ [?last])), True)"
    unfolding assms(4) d by (rule stream_events_first)
  have "\<forall>q \<in> set (map snd ?es @ [?last]). CHR 0x0A \<notin> set q" using es event_no_LF by (auto simp: last_event_def)
  then have s: "sse_decode (concat (map sse_frame (map snd ?es @ [?last]))) = map snd ?es @ [?last]" by (rule sse_decode_frames)
  have "lookup (executions (db w')) (sint ?x) = Some (final_row ro (rr_Status resp) ex)"
    using run_final_executions [OF h(2,3,5)] h(6,7) ex by simp
  moreover have "rr_Status resp \<in> {''success'', ''failed''}" by (simp add: h(6) run_status_def split: option.split)
  moreover have "live_ex (final_row ro (rr_Status resp) ex)" using h(3) ex by (simp add: final_row_def live_ex_def)
  ultimately have a: "ExecutionStreamHandler None flusher subscribe' ?x w' =
      Streaming \<lparr>sse_headers = sse_header_list, sse_body = sse_frame ?last, sse_ended = True\<rparr>"
    using handler_flushes [of w' ?x] h(4) ex assms(6) by (simp add: final_row_def)
  have l: "live_ex ex" using h(3) ex by simp
  show ?thesis
    by (rule exI [of _ "map snd ?es"], rule exI [of _ "concat (map sse_frame (map snd ?es @ [?last]))"])
      (use p s a handler_streams [where subscribe = subscribe, OF assms(3) l assms(5) b] in simp)
qed

text \<open>The channel is that of the workflow, not of the execution: two executions of one workflow that are
  not over have the same stream, so the response ends with the first event that says \<open>finished\<close>,
  whichever execution of the workflow it is about.\<close>

theorem stream_is_per_workflow:
  assumes "lookup (executions (db w)) (sint i) = Some ex" and "live_ex ex" and "ex_Status ex \<notin> {''success'', ''failed''}"
    and "lookup (executions (db w)) (sint j) = Some ex'" and "live_ex ex'" and "ex_Status ex' \<notin> {''success'', ''failed''}"
    and "ex_WorkflowID ex' = ex_WorkflowID ex"
    and "subscribe (channel_of (ex_WorkflowID ex)) = map Msg ps @ Msg (last_event j status) # later" and "\<forall>p \<in> set ps. \<not> isFinished p"
  shows "ExecutionStreamHandler None True subscribe i w = ExecutionStreamHandler None True subscribe j w \<and>
    ExecutionStreamHandler None True subscribe i w = Streaming \<lparr>sse_headers = sse_header_list,
      sse_body = concat (map sse_frame (ps @ [last_event j status])), sse_ended = True\<rparr>"
proof -
  have "isFinished (last_event j status)" by (simp add: last_event_def isFinished_event)
  from stream_events_first [OF assms(9) this, of later]
  have b: "stream_events (subscribe (channel_of (ex_WorkflowID ex))) = (concat (map sse_frame (ps @ [last_event j status])), True)"
    unfolding assms(8) .
  then have b': "stream_events (subscribe (channel_of (ex_WorkflowID ex'))) = (concat (map sse_frame (ps @ [last_event j status])), True)"
    using assms(7) by simp
  show ?thesis using handler_streams [where subscribe = subscribe, OF assms(1-3) b] handler_streams [where subscribe = subscribe, OF assms(4-6) b'] by simp
qed

theorem stream_shows_run_witness:
  "\<exists>body. ExecutionStreamHandler None True
       (\<lambda>ch. map Msg (map snd (filter (\<lambda>e. fst e = channel_of 1) (drop 0 (pubsub (snd sample_run)))))) 1 engine_world =
     Streaming \<lparr>sse_headers = sse_header_list, sse_body = body, sse_ended = True\<rparr> \<and>
   last (sse_decode body) = last_event 1 ''failed''"
proof -
  have e: "lookup (executions (db engine_world)) (sint (rq_ExecutionId engine_req)) = Some engine_execution"
    by (simp add: engine_world_def engine_req_def lookup_def)
  have s: "ex_WorkflowID engine_execution = rq_WorkflowId engine_req" "ex_Status engine_execution \<notin> {''success'', ''failed''}"
    "\<not> ro_finish_drop sample_oracle" "rq_ExecutionId engine_req = 1" "rq_WorkflowId engine_req = 1"
    by (simp_all add: engine_execution_def engine_req_def sample_oracle_def)
  have r: "sample_run = (Inr \<lparr>rr_Status = ''failed'', rr_Error = ''unknown step type: teleport''\<rparr>, snd sample_run)"
    unfolding sample_run_eq by simp
  let ?sub = "\<lambda>ch. map Msg (map snd (filter (\<lambda>e. fst e = channel_of 1) (drop 0 (pubsub (snd sample_run)))))"
  have c: "?sub (channel_of (rq_WorkflowId engine_req)) = map Msg (map snd (filter (\<lambda>e. fst e = channel_of (rq_WorkflowId engine_req))
      (drop (length (pubsub engine_world)) (pubsub (snd sample_run))))) @ []"
    by (simp add: s(5) engine_world_def)
  obtain ps body where "sse_decode body = ps @ [last_event (rq_ExecutionId engine_req) ''failed'']"
    "ExecutionStreamHandler None True ?sub (rq_ExecutionId engine_req) engine_world =
      Streaming \<lparr>sse_headers = sse_header_list, sse_body = body, sse_ended = True\<rparr>"
    using stream_shows_run [where subscribe = ?sub and flusher = True and subscribe' = "\<lambda>ch. []",
        OF engine_db_ok r e s(1,2) sample_finish(1) s(3) c] by auto
  then show ?thesis unfolding s(4) by (intro exI [of _ body]) simp
qed

definition twin_world :: world where
  "twin_world = engine_world\<lparr>db := (db engine_world)\<lparr>executions :=
     \<lparr>rows = [(1, engine_execution), (2, engine_execution\<lparr>ex_ID := 2\<rparr>)], next_key = 3\<rparr>\<rparr>\<rparr>"

theorem stream_is_per_workflow_witness:
  "ExecutionStreamHandler None True (\<lambda>ch. [Msg (last_event 2 ''success'')]) 1 twin_world =
   Streaming \<lparr>sse_headers = sse_header_list, sse_body = sse_frame (last_event 2 ''success''), sse_ended = True\<rparr>"
proof -
  have w: "lookup (executions (db twin_world)) (sint (1 :: int64)) = Some engine_execution"
    "lookup (executions (db twin_world)) (sint (2 :: int64)) = Some (engine_execution\<lparr>ex_ID := 2\<rparr>)"
    by (simp_all add: twin_world_def lookup_def)
  have x: "live_ex engine_execution" "ex_Status engine_execution \<notin> {''success'', ''failed''}"
    "live_ex (engine_execution\<lparr>ex_ID := 2\<rparr>)" "ex_Status (engine_execution\<lparr>ex_ID := 2\<rparr>) \<notin> {''success'', ''failed''}"
    "ex_WorkflowID (engine_execution\<lparr>ex_ID := 2\<rparr>) = ex_WorkflowID engine_execution"
    by (simp_all add: engine_execution_def live_ex_def)
  have c: "(\<lambda>ch. [Msg (last_event 2 ''success'')]) (channel_of (ex_WorkflowID engine_execution)) =
      map Msg [] @ Msg (last_event 2 ''success'') # []" "\<forall>p \<in> set []. \<not> isFinished p" by simp_all
  from conjunct2 [OF stream_is_per_workflow [where subscribe = "\<lambda>ch. [Msg (last_event 2 ''success'')]", OF w(1) x(1,2) w(2) x(3-5) c]]
  show ?thesis by simp
qed

end
