(* ===== verification/Gateway.thy ===== *)
theory Gateway
  imports Auth WorkflowProps ExecutionProps EventStream
begin

section \<open>The gateway's HTTP interface\<close>

text \<open>
  \<open>api-gateway/internal/handler\<close>: the handlers and the route table, with the last two pieces of
  logic, \<open>loginlogic.go\<close> and \<open>healthlogic.go\<close>.

  go-zero is not in the repository: \<open>httpx.Parse\<close> gives, for each type of request, an error or
  the request, which is the record \<open>parsed\<close>; \<open>encode\<close> is what \<open>httpx.ErrorCtx\<close> and
  \<open>httpx.OkJsonCtx\<close> write for a reply; and the router has matched the request's path, so a
  request comes with the pattern of its route. \<open>gateway_env\<close> is what the outside does during
  one request.
\<close>

subsection \<open>types.go\<close>

record LoginReq =
  lq_Username :: string
  lq_Password :: string

record LoginResp =
  lr_AccessToken :: string
  lr_RefreshToken :: string
  lr_ExpiresIn :: int64
  lr_TokenType :: string

record HealthResp =
  hr_Status :: string
  hr_Version :: string

definition login_fields :: "string list" where
  "login_fields = [''access_token'', ''refresh_token'', ''expires_in'', ''token_type'']"

definition set_login_field :: "string \<Rightarrow> json \<Rightarrow> LoginResp \<Rightarrow> LoginResp option" where
  "set_login_field n v r =
     (if n = ''access_token'' then map_option (\<lambda>x. r\<lparr>lr_AccessToken := x\<rparr>) (dec_string v (lr_AccessToken r))
      else if n = ''refresh_token'' then map_option (\<lambda>x. r\<lparr>lr_RefreshToken := x\<rparr>) (dec_string v (lr_RefreshToken r))
      else if n = ''expires_in'' then map_option (\<lambda>x. r\<lparr>lr_ExpiresIn := x\<rparr>) (dec_int v (lr_ExpiresIn r))
      else map_option (\<lambda>x. r\<lparr>lr_TokenType := x\<rparr>) (dec_string v (lr_TokenType r)))"

definition zero_login :: LoginResp where
  "zero_login = \<lparr>lr_AccessToken = [], lr_RefreshToken = [], lr_ExpiresIn = 0, lr_TokenType = []\<rparr>"

subsection \<open>loginlogic.go and healthlogic.go\<close>

text \<open>
  \<open>json.NewDecoder(r).Decode(&x)\<close> reads the first value of its input and leaves the rest. Behind a
  whole value only space or, for a number, more of the number can follow, so the first value is
  the longest prefix that is a value.
\<close>

definition first_value :: "string \<Rightarrow> json option" where
  "first_value s = (case find (\<lambda>n. unmarshal (take n s) \<noteq> None) (rev [0..<Suc (length s)]) of
      None \<Rightarrow> None | Some n \<Rightarrow> unmarshal (take n s))"

definition decode_login :: "string \<Rightarrow> LoginResp option" where
  "decode_login body = (case first_value body of None \<Rightarrow> None
     | Some j \<Rightarrow> decode_struct login_fields set_login_field j zero_login)"

text \<open>
  \<open>post\<close> is \<open>http.PostForm\<close>: an error, or the status and the body of the answer. \<open>json_err\<close> gives the
  text of the decoder's error.
\<close>

definition Login :: "(string \<Rightarrow> (string \<times> string) list \<Rightarrow> error + int \<times> string) \<Rightarrow> (string \<Rightarrow> error) \<Rightarrow> string
    \<Rightarrow> LoginReq \<Rightarrow> error + LoginResp" where
  "Login post json_err keycloakURL req =
     (let tokenURL = keycloakURL @ ''/realms/workflow-app/protocol/openid-connect/token'';
          form = [(''grant_type'', ''password''), (''client_id'', ''workflow-client''),
                  (''username'', lq_Username req), (''password'', lq_Password req)]
      in case post tokenURL form of
           Inl e \<Rightarrow> Inl (''keycloak unreachable: '' @ e)
         | Inr (status, body) \<Rightarrow>
             if status \<noteq> 200 then Inl ''invalid credentials''
             else (case decode_login body of None \<Rightarrow> Inl (json_err body) | Some result \<Rightarrow> Inr result))"

definition Health :: "error + HealthResp" where
  "Health = Inr \<lparr>hr_Status = ''ok'', hr_Version = ''1.0.0''\<rparr>"

subsection \<open>The handlers\<close>

record parsed =
  pq_login :: "error + LoginReq"
  pq_trigger :: "error + TriggerReq"
  pq_create :: "error + CreateWorkflowReq"
  pq_update :: "error + UpdateWorkflowReq"
  pq_id :: "error + int64"
  pq_workflowId :: "error + int64"

record gateway_env =
  gw_jsonb :: "string \<Rightarrow> error + string"
  gw_inject :: "(string \<times> string) list"
  gw_now :: time
  gw_zone :: int
  gw_faults :: faults
  gw_preload :: "error option"
  gw_workflow_order :: "workflow list \<Rightarrow> workflow list"
  gw_execution_order :: "execution list \<Rightarrow> execution list"
  gw_log_order :: "step_log list \<Rightarrow> step_log list"
  gw_post :: "string \<Rightarrow> (string \<times> string) list \<Rightarrow> error + int \<times> string"
  gw_json_err :: "string \<Rightarrow> error"
  gw_keycloak :: string
  gw_subscribe :: "string \<Rightarrow> sub_event list"
  gw_flusher :: bool

datatype reply = ErrorReply error
  | HealthReply HealthResp | LoginReply LoginResp | TriggerReply TriggerResp
  | CreateReply int64 | ListReply ListWorkflowsResp | ItemReply WorkflowItem
  | UpdateReply bool | DeleteReply bool
  | ExecutionsReply ListExecutionsResp | ExecutionReply ExecutionItem
  | StreamReply stream_reply

text \<open>
  The common shape of the handlers: answer with the error of the parsed request or of the logic,
  or with its response.
\<close>

definition answer :: "('r \<Rightarrow> reply) \<Rightarrow> error + 'r \<Rightarrow> reply" where
  "answer ok res = (case res of Inl err \<Rightarrow> ErrorReply err | Inr resp \<Rightarrow> ok resp)"

definition HealthHandler :: "world \<Rightarrow> reply \<times> world" where
  "HealthHandler w = (answer HealthReply Health, w)"

definition LoginHandler :: "gateway_env \<Rightarrow> parsed \<Rightarrow> world \<Rightarrow> reply \<times> world" where
  "LoginHandler env p w = (case pq_login p of
      Inl err \<Rightarrow> (ErrorReply err, w)
    | Inr req \<Rightarrow> (answer LoginReply (Login (gw_post env) (gw_json_err env) (gw_keycloak env) req), w))"

definition TriggerWorkflowHandler :: "gateway_env \<Rightarrow> parsed \<Rightarrow> world \<Rightarrow> reply \<times> world" where
  "TriggerWorkflowHandler env p w = (case pq_trigger p of
      Inl err \<Rightarrow> (ErrorReply err, w)
    | Inr req \<Rightarrow> (case TriggerWorkflow (gw_jsonb env) (gw_inject env) (gw_now env) (gw_faults env) req w of
        (res, w') \<Rightarrow> (answer TriggerReply res, w')))"

definition ListExecutionsHandler :: "gateway_env \<Rightarrow> parsed \<Rightarrow> world \<Rightarrow> reply \<times> world" where
  "ListExecutionsHandler env p w = (case pq_workflowId p of
      Inl err \<Rightarrow> (ErrorReply err, w)
    | Inr i \<Rightarrow> (answer ExecutionsReply (ListExecutions (gw_execution_order env) (gw_zone env) (gw_faults env) i w), w))"

definition GetExecutionHandler :: "gateway_env \<Rightarrow> parsed \<Rightarrow> world \<Rightarrow> reply \<times> world" where
  "GetExecutionHandler env p w = (case pq_id p of
      Inl err \<Rightarrow> (ErrorReply err, w)
    | Inr i \<Rightarrow> (answer ExecutionReply
        (GetExecution (gw_log_order env) (gw_zone env) (gw_preload env) (gw_faults env) i w), w))"

definition StreamHandler :: "gateway_env \<Rightarrow> parsed \<Rightarrow> world \<Rightarrow> reply \<times> world" where
  "StreamHandler env p w = (case pq_id p of
      Inl err \<Rightarrow> (ErrorReply err, w)
    | Inr i \<Rightarrow> (StreamReply
        (ExecutionStreamHandler (f_read (gw_faults env)) (gw_flusher env) (gw_subscribe env) i w), w))"

definition CreateWorkflowHandler :: "gateway_env \<Rightarrow> parsed \<Rightarrow> ctx \<Rightarrow> world \<Rightarrow> reply \<times> world" where
  "CreateWorkflowHandler env p ctx w = (case pq_create p of
      Inl err \<Rightarrow> (ErrorReply err, w)
    | Inr req \<Rightarrow> (case CreateWorkflow (gw_jsonb env) (gw_faults env) ctx req w of
        (res, w') \<Rightarrow> (answer CreateReply res, w')))"

definition ListWorkflowsHandler :: "gateway_env \<Rightarrow> ctx \<Rightarrow> world \<Rightarrow> reply \<times> world" where
  "ListWorkflowsHandler env ctx w =
     (answer ListReply (ListWorkflows (gw_workflow_order env) (gw_faults env) ctx w), w)"

definition GetWorkflowHandler :: "gateway_env \<Rightarrow> parsed \<Rightarrow> ctx \<Rightarrow> world \<Rightarrow> reply \<times> world" where
  "GetWorkflowHandler env p ctx w = (case pq_id p of
      Inl err \<Rightarrow> (ErrorReply err, w)
    | Inr i \<Rightarrow> (case GetWorkflow (gw_faults env) ctx i w of (res, w') \<Rightarrow> (answer ItemReply res, w')))"

definition UpdateWorkflowHandler :: "gateway_env \<Rightarrow> parsed \<Rightarrow> ctx \<Rightarrow> world \<Rightarrow> reply \<times> world" where
  "UpdateWorkflowHandler env p ctx w = (case pq_update p of
      Inl err \<Rightarrow> (ErrorReply err, w)
    | Inr req \<Rightarrow> (case UpdateWorkflow (gw_jsonb env) (gw_faults env) ctx req w of
        (res, w') \<Rightarrow> (answer UpdateReply res, w')))"

definition DeleteWorkflowHandler :: "gateway_env \<Rightarrow> parsed \<Rightarrow> ctx \<Rightarrow> world \<Rightarrow> reply \<times> world" where
  "DeleteWorkflowHandler env p ctx w = (case pq_id p of
      Inl err \<Rightarrow> (ErrorReply err, w)
    | Inr i \<Rightarrow> (case DeleteWorkflow (gw_now env) (gw_faults env) ctx i w of
        (res, w') \<Rightarrow> (answer DeleteReply res, w')))"

subsection \<open>routes.go\<close>

datatype endpoint = HealthE | LoginE | TriggerE | StreamE
  | ListE | CreateE | GetE | UpdateE | DeleteE | ExecutionsE | ExecutionE

text \<open>Method, pattern and handler of a route.\<close>

type_synonym route = "string \<times> string \<times> endpoint"

definition public_routes :: "route list" where
  "public_routes =
     [(''GET'', ''/health'', HealthE),
      (''POST'', ''/auth/login'', LoginE),
      (''POST'', ''/webhooks/:workflowId'', TriggerE),
      (''GET'', ''/executions/:id/stream'', StreamE)]"

definition protected_routes :: "route list" where
  "protected_routes =
     [(''GET'', ''/workflows'', ListE),
      (''POST'', ''/workflows'', CreateE),
      (''GET'', ''/workflows/:id'', GetE),
      (''PUT'', ''/workflows/:id'', UpdateE),
      (''DELETE'', ''/workflows/:id'', DeleteE),
      (''GET'', ''/workflows/:workflowId/executions'', ExecutionsE),
      (''GET'', ''/executions/:id'', ExecutionE)]"

fun handler_of :: "gateway_env \<Rightarrow> parsed \<Rightarrow> endpoint \<Rightarrow> ctx \<Rightarrow> world \<Rightarrow> reply \<times> world" where
  "handler_of env p HealthE ctx w = HealthHandler w"
| "handler_of env p LoginE ctx w = LoginHandler env p w"
| "handler_of env p TriggerE ctx w = TriggerWorkflowHandler env p w"
| "handler_of env p StreamE ctx w = StreamHandler env p w"
| "handler_of env p ListE ctx w = ListWorkflowsHandler env ctx w"
| "handler_of env p CreateE ctx w = CreateWorkflowHandler env p ctx w"
| "handler_of env p GetE ctx w = GetWorkflowHandler env p ctx w"
| "handler_of env p UpdateE ctx w = UpdateWorkflowHandler env p ctx w"
| "handler_of env p DeleteE ctx w = DeleteWorkflowHandler env p ctx w"
| "handler_of env p ExecutionsE ctx w = ListExecutionsHandler env p w"
| "handler_of env p ExecutionE ctx w = GetExecutionHandler env p w"

definition respond :: "(reply \<Rightarrow> http_response) \<Rightarrow> reply \<times> world \<Rightarrow> http_response \<times> world" where
  "respond encode r = (encode (fst r), snd r)"

text \<open>
  What the server \<open>RegisterHandlers\<close> has set up does with a request: \<open>None\<close> if no route has its method and
  pattern. \<open>kf\<close> is the key set of the middleware, \<open>ctx\<close> the context of the incoming request.
\<close>

definition serve :: "(reply \<Rightarrow> http_response) \<Rightarrow> ('k \<Rightarrow> string \<Rightarrow> error + token) \<Rightarrow> 'k option \<Rightarrow> gateway_env \<Rightarrow> parsed
    \<Rightarrow> string \<Rightarrow> string \<Rightarrow> string \<Rightarrow> ctx \<Rightarrow> world \<Rightarrow> http_response option \<times> world" where
  "serve encode jwt_parse kf env p meth pattern authorization ctx w =
     (case find (\<lambda>(m, u, e). m = meth \<and> u = pattern) public_routes of
        Some (m, u, e) \<Rightarrow> apfst Some (respond encode (handler_of env p e ctx w))
      | None \<Rightarrow> (case find (\<lambda>(m, u, e). m = meth \<and> u = pattern) protected_routes of
          Some (m, u, e) \<Rightarrow> apfst Some
            (Handle jwt_parse kf (\<lambda>ctx w. respond encode (handler_of env p e ctx w)) authorization ctx w)
        | None \<Rightarrow> (None, w)))"

end
