(* ===== verification/GatewayProps.thy ===== *)
theory GatewayProps
  imports Gateway
begin

section \<open>The gateway's HTTP interface: what holds of it\<close>

text \<open>
  What requests with and without a valid token can do, over the whole route table; the gateway's
  invariant under all of its routes; and what a login answers.
\<close>

subsection \<open>Routes\<close>

abbreviation route_key :: "route \<Rightarrow> string \<times> string" where
  "route_key \<equiv> \<lambda>(m, u, e). (m, u)"

lemma routes_distinct: "distinct (map route_key (public_routes @ protected_routes))"
  unfolding public_routes_def protected_routes_def append.simps list.map prod.case by simp

lemma find_route:
  assumes "distinct (map route_key rs)" and "(meth, pattern, e) \<in> set rs"
  shows "find (\<lambda>(m, u, e). m = meth \<and> u = pattern) rs = Some (meth, pattern, e)"
  using assms
proof (induction rs)
  case (Cons r rs)
  obtain m u x where r: "r = (m, u, x)" by (cases r) auto
  show ?case
  proof (cases "(m, u) = (meth, pattern)")
    case True
    then have "(meth, pattern) \<notin> set (map route_key rs)" using Cons.prems(1) r by simp
    then have "(meth, pattern, e) \<notin> set rs" by force
    then show ?thesis using True Cons.prems(2) r by simp
  next
    case False
    then show ?thesis using Cons r by auto
  qed
qed simp

lemma find_no_route:
  assumes "(meth, pattern) \<notin> set (map route_key rs)"
  shows "find (\<lambda>(m, u, e). m = meth \<and> u = pattern) rs = None"
  using assms by (auto simp: find_None_iff image_iff)

lemma route_keys_apart:
  assumes "(meth, pattern, e) \<in> set protected_routes"
  shows "(meth, pattern) \<notin> set (map route_key public_routes)"
proof -
  have "(meth, pattern) \<in> set (map route_key protected_routes)" using assms by force
  then show ?thesis using routes_distinct unfolding map_append distinct_append by blast
qed

text \<open>A route is found where it is listed: no method and pattern are listed twice.\<close>

lemma serve_protected:
  assumes "(meth, pattern, e) \<in> set protected_routes"
  shows "serve encode jwt_parse kf env p meth pattern authorization ctx w = apfst Some
    (Handle jwt_parse kf (\<lambda>ctx w. respond encode (handler_of env p e ctx w)) authorization ctx w)"
  using find_route [OF _ assms] routes_distinct find_no_route [OF route_keys_apart [OF assms]]
  by (simp add: serve_def)

lemma serve_public:
  assumes "(meth, pattern, e) \<in> set public_routes"
  shows "serve encode jwt_parse kf env p meth pattern authorization ctx w =
    apfst Some (respond encode (handler_of env p e ctx w))"
  using find_route [OF _ assms] routes_distinct by (simp add: serve_def)

lemma serve_unknown:
  assumes "\<nexists>e. (meth, pattern, e) \<in> set public_routes \<union> set protected_routes"
  shows "serve encode jwt_parse kf env p meth pattern authorization ctx w = (None, w)"
proof -
  have "find (\<lambda>(m, u, e). m = meth \<and> u = pattern) public_routes = None"
    "find (\<lambda>(m, u, e). m = meth \<and> u = pattern) protected_routes = None"
    using assms by (auto simp: find_None_iff)
  then show ?thesis by (simp add: serve_def)
qed

lemma serve_cases:
  obtains e where "(meth, pattern, e) \<in> set public_routes"
  | e where "(meth, pattern, e) \<in> set protected_routes"
  | "\<nexists>e. (meth, pattern, e) \<in> set public_routes \<union> set protected_routes"
  by blast

subsection \<open>Which handlers write\<close>

lemma reader_frame:
  "snd (HealthHandler w) = w" "snd (LoginHandler env p w) = w" "snd (StreamHandler env p w) = w"
  "snd (ListExecutionsHandler env p w) = w" "snd (GetExecutionHandler env p w) = w"
  "snd (ListWorkflowsHandler env ctx w) = w"
  by (simp_all add: HealthHandler_def LoginHandler_def StreamHandler_def ListExecutionsHandler_def
      GetExecutionHandler_def ListWorkflowsHandler_def split: sum.split)

lemma trigger_handler_frame:
  "workflows (db (snd (TriggerWorkflowHandler env p w))) = workflows (db w) \<and>
   step_logs (db (snd (TriggerWorkflowHandler env p w))) = step_logs (db w) \<and>
   cache (snd (TriggerWorkflowHandler env p w)) = cache w \<and> pubsub (snd (TriggerWorkflowHandler env p w)) = pubsub w"
  by (auto simp: TriggerWorkflowHandler_def TriggerWorkflow_eq set_executions_def split: sum.split option.split)

text \<open>C14: what a request can do without a valid token. On a protected route it is answered with 401 and
  changes nothing; on the public routes only the webhook changes anything, and it changes
  neither a workflow nor a step log nor the cache.\<close>

theorem unauthenticated_requests:
  assumes "\<nexists>claims. accepted jwt_parse kf authorization claims"
    and "serve encode jwt_parse kf env p meth pattern authorization ctx w = (resp, w')"
  shows "((\<exists>e. (meth, pattern, e) \<in> set protected_routes) \<longrightarrow> w' = w \<and> (\<exists>msg. resp = Some (writeUnauthorized msg))) \<and>
    (w' \<noteq> w \<longrightarrow> meth = ''POST'' \<and> pattern = ''/webhooks/:workflowId'') \<and>
    workflows (db w') = workflows (db w) \<and> step_logs (db w') = step_logs (db w) \<and> cache w' = cache w \<and> pubsub w' = pubsub w"
proof (rule serve_cases [of meth pattern])
  fix e
  assume r: "(meth, pattern, e) \<in> set public_routes"
  then have np: "\<nexists>e. (meth, pattern, e) \<in> set protected_routes" using route_keys_apart by force
  have w': "w' = snd (handler_of env p e ctx w)" using assms(2) serve_public [OF r, of encode jwt_parse kf env p authorization ctx w] by (simp add: respond_def)
  have "(w' = w \<or> meth = ''POST'' \<and> pattern = ''/webhooks/:workflowId'') \<and> workflows (db w') = workflows (db w) \<and>
      step_logs (db w') = step_logs (db w) \<and> cache w' = cache w \<and> pubsub w' = pubsub w"
    using r trigger_handler_frame unfolding w' by (auto simp: public_routes_def reader_frame)
  with np show ?thesis by blast
next
  fix e
  assume r: "(meth, pattern, e) \<in> set protected_routes"
  from Handle_rejected [OF assms(1), where nxt = "\<lambda>ctx w. respond encode (handler_of env p e ctx w)" and ctx = ctx and w = w]
  obtain msg where
    "Handle jwt_parse kf (\<lambda>ctx w. respond encode (handler_of env p e ctx w)) authorization ctx w = (writeUnauthorized msg, w)"
    by blast
  then have "resp = Some (writeUnauthorized msg)" "w' = w" using assms(2) serve_protected [OF r, of encode jwt_parse kf env p authorization ctx w] by simp_all
  then show ?thesis using r by (auto dest: route_keys_apart)
next
  assume n: "\<nexists>e. (meth, pattern, e) \<in> set public_routes \<union> set protected_routes"
  from serve_unknown [OF this, of encode jwt_parse kf env p authorization ctx w] assms(2) show ?thesis using n by auto
qed

subsection \<open>The invariant\<close>

lemma handler_ok:
  assumes "gateway_ok w" and "f_cdel (gw_faults env) = None"
  shows "gateway_ok (snd (handler_of env p e ctx w))"
  using assms TriggerWorkflow_ok [OF assms(1)]
  by (cases e) (simp_all add: reader_frame TriggerWorkflowHandler_def CreateWorkflowHandler_def GetWorkflowHandler_def
      UpdateWorkflowHandler_def DeleteWorkflowHandler_def CreateWorkflow_ok GetWorkflow_ok UpdateWorkflow_ok
      DeleteWorkflow_ok split: sum.split prod.split; metis CreateWorkflow_ok GetWorkflow_ok UpdateWorkflow_ok DeleteWorkflow_ok snd_conv)+


lemma Handle_world:
  assumes "\<And>ctx. gateway_ok (snd (nxt ctx w))" and "gateway_ok w"
  shows "gateway_ok (snd (Handle jwt_parse kf nxt authorization ctx w))"
proof (cases "\<exists>claims. accepted jwt_parse kf authorization claims")
  case True
  then show ?thesis using Handle_accepted [where nxt = nxt] assms(1) by metis
next
  case False
  then show ?thesis using Handle_rejected [where nxt = nxt] assms(2) by (metis snd_conv)
qed

lemma serve_ok:
  assumes "gateway_ok w" and "f_cdel (gw_faults env) = None"
  shows "gateway_ok (snd (serve encode jwt_parse kf env p meth pattern authorization ctx w))"
proof (rule serve_cases [of meth pattern])
  fix e
  assume "(meth, pattern, e) \<in> set public_routes"
  then show ?thesis using handler_ok [OF assms] by (simp add: serve_public respond_def)
next
  fix e
  assume r: "(meth, pattern, e) \<in> set protected_routes"
  have "gateway_ok (snd (Handle jwt_parse kf (\<lambda>ctx w. respond encode (handler_of env p e ctx w)) authorization ctx w))"
    using handler_ok [OF assms] assms(1) by (intro Handle_world) (simp_all add: respond_def)
  then show ?thesis using r by (simp add: serve_protected)
next
  assume "\<nexists>e. (meth, pattern, e) \<in> set public_routes \<union> set protected_routes"
  then show ?thesis using assms(1) by (simp add: serve_unknown)
qed

subsection \<open>Requests with a token\<close>

definition claims_ctx :: "(string \<times> gval) list \<Rightarrow> ctx \<Rightarrow> ctx" where
  "claims_ctx claims ctx = WithRoles (WithUserID ctx (claims_user claims)) (realmRoles claims)"

lemma serve_accepted:
  assumes "accepted jwt_parse kf authorization claims" and "(meth, pattern, e) \<in> set protected_routes"
  shows "serve encode jwt_parse kf env p meth pattern authorization ctx w =
    apfst Some (respond encode (handler_of env p e (claims_ctx claims ctx) w))"
  unfolding serve_protected [OF assms(2)] Handle_accepted [OF assms(1)] claims_ctx_def ..

lemma route_facts:
  "(''GET'', ''/workflows/:id'', GetE) \<in> set protected_routes"
  "(''GET'', ''/executions/:id'', ExecutionE) \<in> set protected_routes"
  "(''GET'', ''/workflows/:workflowId/executions'', ExecutionsE) \<in> set protected_routes"
  "(''POST'', ''/webhooks/:workflowId'', TriggerE) \<in> set public_routes"
  unfolding protected_routes_def public_routes_def by simp_all

text \<open>Two databases a caller cannot tell apart by reading workflows.\<close>

definition same_for :: "ctx \<Rightarrow> database \<Rightarrow> database \<Rightarrow> bool" where
  "same_for ctx d d' \<longleftrightarrow> (\<forall>k. lookup (workflows d) k = lookup (workflows d') k \<or>
     (\<exists>wk wk'. lookup (workflows d) k = Some wk \<and> lookup (workflows d') k = Some wk' \<and> live_wf wk \<and> live_wf wk' \<and>
        \<not> can_access ctx wk \<and> \<not> can_access ctx wk'))"

lemma same_for_visible: "same_for ctx d d' \<Longrightarrow> visible_item ctx k d = visible_item ctx k d'"
  unfolding same_for_def visible_item_def by (erule allE [of _ k]) auto


text \<open>Executions have no owner: any two callers with valid tokens get the same answer to
  \<open>GET /executions/:id\<close> and to \<open>GET /workflows/:workflowId/executions\<close>, whoever the workflow
  belongs to; the step logs, with the inputs and outputs of the steps, included.\<close>

theorem executions_have_no_owner:
  assumes "accepted jwt_parse kf authorization claims" and "accepted jwt_parse kf authorization' claims'"
    and "pattern \<in> {''/executions/:id'', ''/workflows/:workflowId/executions''}"
  shows "serve encode jwt_parse kf env p ''GET'' pattern authorization ctx w =
    serve encode jwt_parse kf env p ''GET'' pattern authorization' ctx' w"
proof -
  obtain e where e: "(''GET'', pattern, e) \<in> set protected_routes" "e = ExecutionE \<or> e = ExecutionsE"
    using assms(3) route_facts(2,3) by auto
  then show ?thesis
    using serve_accepted [OF assms(1) e(1), of encode env p ctx w] serve_accepted [OF assms(2) e(1), of encode env p ctx' w] by auto
qed

fun serve_all :: "(reply \<Rightarrow> http_response) \<Rightarrow> ('k \<Rightarrow> string \<Rightarrow> error + token) \<Rightarrow> 'k option
    \<Rightarrow> (gateway_env \<times> parsed \<times> string \<times> string \<times> string) list \<Rightarrow> world \<Rightarrow> world" where
  "serve_all encode jwt_parse kf [] w = w"
| "serve_all encode jwt_parse kf ((env, p, meth, pattern, authorization) # rs) w =
     serve_all encode jwt_parse kf rs (snd (serve encode jwt_parse kf env p meth pattern authorization [] w))"

lemma serve_all_ok:
  assumes "gateway_ok w" and "\<forall>(env, req) \<in> set rs. f_cdel (gw_faults env) = None"
  shows "gateway_ok (serve_all encode jwt_parse kf rs w)"
  using assms by (induction encode jwt_parse kf rs w rule: serve_all.induct) (simp_all add: serve_ok)

text \<open>The whole route table keeps the gateway's invariant: after any sequence of requests, valid or not,
  with or without a token, in which no cache deletion fails, the tables are well-formed, every
  reference resolves, and each cached text is the present item of the live workflow it is
  stored for.\<close>

theorem routes_keep_invariant:
  assumes "gateway_ok w" and "\<forall>(env, req) \<in> set rs. f_cdel (gw_faults env) = None"
  shows "gateway_ok (serve_all encode jwt_parse kf rs w)"
  using assms by (rule serve_all_ok)

subsection \<open>Login\<close>

text \<open>The form \<open>OkJsonCtx\<close> gives a login's response, and Keycloak its own.\<close>

definition login_json :: "LoginResp \<Rightarrow> json" where
  "login_json r = JObj ([(''access_token'', JStr (lr_AccessToken r))] @
     (if lr_RefreshToken r = [] then [] else [(''refresh_token'', JStr (lr_RefreshToken r))]) @
     [(''expires_in'', JNum (show_int (sint (lr_ExpiresIn r)))), (''token_type'', JStr (lr_TokenType r))])"

definition login_utf8 :: "LoginResp \<Rightarrow> bool" where
  "login_utf8 r \<longleftrightarrow> valid_utf8 (lr_AccessToken r) \<and> valid_utf8 (lr_RefreshToken r) \<and> valid_utf8 (lr_TokenType r)"

lemma login_keys_utf8:
  "valid_utf8 ''access_token''" "valid_utf8 ''refresh_token''" "valid_utf8 ''expires_in''" "valid_utf8 ''token_type''"
  by code_simp+

lemma first_value_whole: "unmarshal s = Some j \<Longrightarrow> first_value s = Some j"
  by (simp add: first_value_def)

lemma login_json_ok:
  "login_utf8 r \<Longrightarrow> wf_json (login_json r)" "depth_json (login_json r) \<le> max_depth"
  by (cases "lr_RefreshToken r = []"; simp add: login_json_def login_utf8_def valid_number_int login_keys_utf8
      max_depth_def del: valid_utf8.simps)+

lemma decode_login_value:
  assumes "first_value body = Some (login_json r)"
  shows "decode_login body = Some r"
proof -
  have "resolve login_fields ''access_token'' = Some ''access_token''" "resolve login_fields ''refresh_token'' = Some ''refresh_token''"
    "resolve login_fields ''expires_in'' = Some ''expires_in''" "resolve login_fields ''token_type'' = Some ''token_type''"
    by (simp_all add: resolve_def login_fields_def)
  then show ?thesis
    unfolding decode_login_def assms
    by (cases "lr_RefreshToken r = []") (simp_all add: login_json_def set_login_field_def parse_int_show zero_login_def)
qed

lemma decode_login_json: "login_utf8 r \<Longrightarrow> decode_login (print_json (login_json r)) = Some r"
  by (intro decode_login_value first_value_whole unmarshal_print login_json_ok)

definition login_form :: "LoginReq \<Rightarrow> (string \<times> string) list" where
  "login_form req = [(''grant_type'', ''password''), (''client_id'', ''workflow-client''),
     (''username'', lq_Username req), (''password'', lq_Password req)]"

text \<open>A login asks Keycloak once, with the caller's name and password, and answers with the token
  response Keycloak sends with status 200, \<open>invalid credentials\<close> for any other status and an error when
  Keycloak cannot be reached; it changes nothing.\<close>

theorem login_outcome:
  assumes "url = keycloakURL @ ''/realms/workflow-app/protocol/openid-connect/token''"
  shows "(post url (login_form req) = Inl e \<longrightarrow> Login post json_err keycloakURL req = Inl (''keycloak unreachable: '' @ e)) \<and>
    (post url (login_form req) = Inr (status, body) \<and> status \<noteq> 200 \<longrightarrow>
       Login post json_err keycloakURL req = Inl ''invalid credentials'') \<and>
    (post url (login_form req) = Inr (200, print_json (login_json r)) \<and> login_utf8 r \<longrightarrow>
       Login post json_err keycloakURL req = Inr r) \<and>
    (Login post json_err keycloakURL req = Inr r' \<longrightarrow>
       (\<exists>b. post url (login_form req) = Inr (200, b) \<and> decode_login b = Some r')) \<and>
    snd (LoginHandler env p w) = w"
proof -
  have l: "Login post json_err keycloakURL req = (case post url (login_form req) of
      Inl e \<Rightarrow> Inl (''keycloak unreachable: '' @ e)
    | Inr (status, body) \<Rightarrow> if status \<noteq> 200 then Inl ''invalid credentials''
        else (case decode_login body of None \<Rightarrow> Inl (json_err body) | Some result \<Rightarrow> Inr result))"
    by (simp only: Login_def Let_def login_form_def assms)
  show ?thesis
    unfolding l using decode_login_json by (auto simp: reader_frame split: sum.splits prod.splits if_splits option.splits)
qed


subsection \<open>Samples\<close>

definition sample_jwt :: "unit \<Rightarrow> string \<Rightarrow> error + token" where
  "sample_jwt k t = Inr \<lparr>tok_Valid = True, tok_Claims = MapClaims [(''sub'', GStr t)]\<rparr>"

definition sample_env_gw :: gateway_env where
  "sample_env_gw = \<lparr>gw_jsonb = Inr, gw_inject = [], gw_now = 5, gw_zone = 0, gw_faults = no_faults, gw_preload = None,
     gw_workflow_order = rev, gw_execution_order = rev, gw_log_order = rev, gw_post = (\<lambda>u f. Inl ''refused''),
     gw_json_err = (\<lambda>b. ''unexpected end of JSON input''), gw_keycloak = ''k'', gw_subscribe = (\<lambda>c. []), gw_flusher = True\<rparr>"

definition sample_parsed :: parsed where
  "sample_parsed = \<lparr>pq_login = Inr \<lparr>lq_Username = ''u'', lq_Password = ''p''\<rparr>,
     pq_trigger = Inr \<lparr>tr_WorkflowId = 1, tr_Payload = []\<rparr>, pq_create = Inr sample_create, pq_update = Inr sample_req,
     pq_id = Inr 1, pq_workflowId = Inr 1\<rparr>"

definition sample_encode :: "reply \<Rightarrow> http_response" where
  "sample_encode r = (case r of ErrorReply e \<Rightarrow> \<lparr>rs_status = 400, rs_content_type = ''text/plain'', rs_body = e\<rparr>
     | _ \<Rightarrow> \<lparr>rs_status = 200, rs_content_type = ''application/json'', rs_body = []\<rparr>)"

lemma sample_accepted: "t \<noteq> [] \<Longrightarrow> accepted sample_jwt (Some ()) (''Bearer '' @ t) [(''sub'', GStr t)]"
  by (simp add: accepted_def sample_jwt_def)

lemma sample_claims: "claims_ctx [(''sub'', GStr t)] [] = sample_ctx t"
  by (simp add: claims_ctx_def claims_user_def realmRoles_def sample_ctx_def)

lemma sample_no_faults: "f_read (gw_faults sample_env_gw) = None" "f_cdel (gw_faults sample_env_gw) = None"
  by (simp_all add: sample_env_gw_def no_faults_def)

theorem unauthenticated_requests_witness:
  "snd (serve sample_encode sample_jwt (Some ()) sample_env_gw sample_parsed ''GET'' ''/workflows/:id'' ''Basic x'' [] sample_world) =
     sample_world \<and>
   cache (snd (serve sample_encode sample_jwt (Some ()) sample_env_gw sample_parsed ''POST'' ''/webhooks/:workflowId'' ''Basic x'' [] sample_world)) =
     cache sample_world"
proof -
  have a: "\<nexists>claims. accepted sample_jwt (Some ()) ''Basic x'' claims" by (simp add: accepted_def)
  show ?thesis
    using unauthenticated_requests [OF a surjective_pairing, where encode = sample_encode and env = sample_env_gw and p = sample_parsed
        and meth = "''GET''" and pattern = "''/workflows/:id''" and ctx = "[]" and w = sample_world]
      unauthenticated_requests [OF a surjective_pairing, where encode = sample_encode and env = sample_env_gw and p = sample_parsed
        and meth = "''POST''" and pattern = "''/webhooks/:workflowId''" and ctx = "[]" and w = sample_world] route_facts(1)
    by blast
qed

definition other_world :: world where
  "other_world = \<lparr>db = sample_db\<lparr>workflows := \<lparr>rows = [(1, sample_workflow 1 ''carol'' None), (2, sample_workflow 2 [] None),
       (3, sample_workflow 3 ''bob'' (Some 7))], next_key = 4\<rparr>\<rparr>, cache = Map.empty, pubsub = [], mq = []\<rparr>"

lemma lookup_other: "lookup (workflows (db other_world)) k =
  (if k = 1 then Some (sample_workflow 1 ''carol'' None) else lookup (workflows sample_db) k)"
  by (simp add: lookup_def sample_db_def other_world_def)

lemma other_ok: "gateway_ok other_world" "texts_utf8 (db other_world)"
proof -
  have "db_ok (db other_world)"
    by (auto simp: other_world_def db_ok_def sample_db_def table_ok_def refs_ok_def empty_table_def key_limit_def
        sample_workflow_def lookup_def)
  then show "gateway_ok other_world"
    by (simp add: gateway_ok_def cache_ok_def coherent_def cache_look_def other_world_def)
  show "texts_utf8 (db other_world)"
    unfolding texts_utf8_def lookup_other lookup_sample using sample_item_utf8 by (auto split: if_splits)
qed

lemma sample_same_for: "same_for (sample_ctx ''bob'') (db sample_world) (db other_world)"
proof -
  have "live_wf (sample_workflow 1 u None)" "u \<noteq> [] \<Longrightarrow> u \<noteq> ''bob'' \<Longrightarrow> \<not> can_access (sample_ctx ''bob'') (sample_workflow 1 u None)" for u
    by (auto simp: live_wf_def sample_workflow_def can_access_def sample_ctx_def HasRole_iff)
  moreover have "db sample_world = sample_db" by (simp add: sample_world_def)
  ultimately show ?thesis by (simp add: same_for_def lookup_other lookup_sample)
qed


theorem executions_have_no_owner_witness:
  "serve sample_encode sample_jwt (Some ()) sample_env_gw sample_parsed ''GET'' ''/executions/:id'' ''Bearer bob'' [] sample_world =
   serve sample_encode sample_jwt (Some ()) sample_env_gw sample_parsed ''GET'' ''/executions/:id'' ''Bearer alice'' [] sample_world"
proof -
  have a: "accepted sample_jwt (Some ()) ''Bearer bob'' [(''sub'', GStr ''bob'')]" using sample_accepted [of "''bob''"] by simp
  have b: "accepted sample_jwt (Some ()) ''Bearer alice'' [(''sub'', GStr ''alice'')]" using sample_accepted [of "''alice''"] by simp
  show ?thesis by (rule executions_have_no_owner [OF a b]) simp
qed

theorem routes_keep_invariant_witness:
  "gateway_ok (serve_all sample_encode sample_jwt (Some ())
     [(sample_env_gw, sample_parsed, ''POST'', ''/webhooks/:workflowId'', []),
      (sample_env_gw, sample_parsed, ''PUT'', ''/workflows/:id'', ''Bearer alice''),
      (sample_env_gw, sample_parsed, ''DELETE'', ''/workflows/:id'', ''Bearer alice'')] sample_world)"
  by (rule routes_keep_invariant [OF sample_ok]) (simp add: sample_no_faults)

theorem login_outcome_witness:
  "Login (\<lambda>u f. if f = login_form \<lparr>lq_Username = ''u'', lq_Password = ''p''\<rparr> then Inr (401, ''{}'') else Inl ''refused'') (\<lambda>b. b) ''k''
     \<lparr>lq_Username = ''u'', lq_Password = ''p''\<rparr> = Inl ''invalid credentials''"
  using login_outcome [where keycloakURL = "''k''" and req = "\<lparr>lq_Username = ''u'', lq_Password = ''p''\<rparr>" and status = 401 and body = "''{}''"
      and post = "\<lambda>u f. if f = login_form \<lparr>lq_Username = ''u'', lq_Password = ''p''\<rparr> then Inr (401, ''{}'') else Inl ''refused''"
      and json_err = "\<lambda>b. b", OF refl] by simp

end
