(* ===== verification/Worker.thy ===== *)
theory Worker
  imports Queue Engine
begin

section \<open>The worker: worker/executionworker.go\<close>

text \<open>
  \<open>api-gateway/internal/worker/executionworker.go\<close>: the consumers of the execution queue. A
  delivery has the headers and the body of a message; \<open>handle\<close> answers it with an
  acknowledgement or a rejection without requeueing, which dead-letters the message into the
  retry loop of \<open>Queue\<close>. The gRPC call \<open>RunExecution\<close> is the argument \<open>rpc\<close>: it answers
  with a response or an error and may change the shared state.
\<close>

subsection \<open>Deliveries\<close>

record Delivery =
  dl_Headers :: "amqp_table option"
  dl_Body :: string

datatype verdict = Ack | Nack

type_synonym rpc = "RunExecutionReq \<Rightarrow> world \<Rightarrow> (error + RunExecutionResp) \<times> world"

definition deathCount :: "amqp_table option \<Rightarrow> int" where
  "deathCount headers = (case headers of
      None \<Rightarrow> 0
    | Some t \<Rightarrow> (case map_of t ''x-death'' of
        Some (AList deaths) \<Rightarrow> (case deaths of
            [] \<Rightarrow> 0
          | death # _ \<Rightarrow> (case death of
              ATable d \<Rightarrow> (case map_of d ''count'' of Some (AInt64 n) \<Rightarrow> sint n | _ \<Rightarrow> 0)
            | _ \<Rightarrow> 0))
      | _ \<Rightarrow> 0))"

text \<open>
  \<open>handle\<close>: the verdict, the request sent to the engine if there is one, and the new state.
  \<open>fault\<close> is the failure of the database on the check that the execution exists.
\<close>

definition request_of :: "ExecutionMessage \<Rightarrow> RunExecutionReq" where
  "request_of msg = \<lparr>rq_ExecutionId = em_ExecutionID msg, rq_WorkflowId = em_WorkflowID msg,
     rq_TriggerPayload = em_TriggerPayload msg\<rparr>"

definition handle :: "rpc \<Rightarrow> error option \<Rightarrow> Delivery \<Rightarrow> world \<Rightarrow> verdict \<times> RunExecutionReq option \<times> world" where
  "handle rpc fault d w =
     (if deathCount (dl_Headers d) \<ge> MaxRetries then (Ack, None, w)
      else (case unmarshal_message (dl_Body d) of
          None \<Rightarrow> (Ack, None, w)
        | Some msg \<Rightarrow> (case db_first fault live_ex (executions (db w)) (db_key (em_ExecutionID msg)) of
            Inl RecordNotFound \<Rightarrow> (Ack, None, w)
          | Inl (DbError e) \<Rightarrow> (Nack, None, w)
          | Inr ex \<Rightarrow> (case rpc (request_of msg) w of
              (Inl e, w') \<Rightarrow> (Nack, Some (request_of msg), w')
            | (Inr resp, w') \<Rightarrow> (Ack, Some (request_of msg), w')))))"

subsection \<open>The consumer loop\<close>

text \<open>
  What the \<open>select\<close> of the loop receives: a delivery, the end of the context, or the closing of
  the delivery channel. The loop ends at the last two, or when nothing comes any more.
\<close>

datatype consume_event = Delivered "error option" Delivery | CtxDone | Closed

fun consume_loop :: "rpc \<Rightarrow> consume_event list \<Rightarrow> world \<Rightarrow> (verdict \<times> RunExecutionReq option) list \<times> world" where
  "consume_loop rpc [] w = ([], w)"
| "consume_loop rpc (CtxDone # evs) w = ([], w)"
| "consume_loop rpc (Closed # evs) w = ([], w)"
| "consume_loop rpc (Delivered fault d # evs) w =
     (case handle rpc fault d w of (v, req, w') \<Rightarrow>
       (case consume_loop rpc evs w' of (rs, w'') \<Rightarrow> ((v, req) # rs, w'')))"

definition consume :: "rpc \<Rightarrow> error option \<Rightarrow> consume_event list \<Rightarrow> world \<Rightarrow> (verdict \<times> RunExecutionReq option) list \<times> world" where
  "consume rpc err evs w = (case err of Some e \<Rightarrow> ([], w) | None \<Rightarrow> consume_loop rpc evs w)"

subsection \<open>Starting the pool\<close>

text \<open>
  \<open>Start\<close>: the error if there is one, the numbers of the consumers started, and whether the
  connection is still open. \<open>channel i\<close> and \<open>qos i\<close> are the errors of the calls for the
  \<open>i\<close>-th consumer.
\<close>

fun start_loop :: "(nat \<Rightarrow> error option) \<Rightarrow> (nat \<Rightarrow> error option) \<Rightarrow> nat \<Rightarrow> nat \<Rightarrow> error option \<times> nat list \<times> bool" where
  "start_loop channel qos i 0 = (None, [], True)"
| "start_loop channel qos i (Suc n) = (case channel i of
      Some e \<Rightarrow> (Some (''worker channel '' @ show_nat i @ '': '' @ e), [], False)
    | None \<Rightarrow> (case qos i of
        Some e \<Rightarrow> (Some (''worker qos '' @ show_nat i @ '': '' @ e), [], False)
      | None \<Rightarrow> (case start_loop channel qos (Suc i) n of
          (err, started, open_conn) \<Rightarrow> (err, i # started, open_conn))))"

definition Start :: "error option \<Rightarrow> (nat \<Rightarrow> error option) \<Rightarrow> (nat \<Rightarrow> error option) \<Rightarrow> nat
    \<Rightarrow> error option \<times> nat list \<times> bool" where
  "Start dial channel qos count = (case dial of
      Some e \<Rightarrow> (Some (''worker amqp dial: '' @ e), [], False)
    | None \<Rightarrow> start_loop channel qos 0 count)"

end
