(* ===== verification/WorkerProps.thy ===== *)
theory WorkerProps
  imports Worker EngineProps ExecutionProps
begin

section \<open>The worker: what holds of it\<close>

text \<open>
  When a delivery is acknowledged and when it is rejected, the life of a message in the retry
  loop, and the worker together with the engine.
\<close>

subsection \<open>Handling a delivery\<close>

text \<open>The six ways a delivery is handled.\<close>

lemma handle_cases:
  obtains
    (dropped) "deathCount (dl_Headers d) \<ge> MaxRetries" "handle rpc fault d w = (Ack, None, w)"
  | (malformed) "deathCount (dl_Headers d) < MaxRetries" "unmarshal_message (dl_Body d) = None"
      "handle rpc fault d w = (Ack, None, w)"
  | (missing) msg where "deathCount (dl_Headers d) < MaxRetries" "unmarshal_message (dl_Body d) = Some msg"
      "db_first fault live_ex (executions (db w)) (db_key (em_ExecutionID msg)) = Inl RecordNotFound"
      "handle rpc fault d w = (Ack, None, w)"
  | (db_error) msg e where "deathCount (dl_Headers d) < MaxRetries" "unmarshal_message (dl_Body d) = Some msg"
      "db_first fault live_ex (executions (db w)) (db_key (em_ExecutionID msg)) = Inl (DbError e)"
      "handle rpc fault d w = (Nack, None, w)"
  | (engine_error) msg ex e w' where "deathCount (dl_Headers d) < MaxRetries" "unmarshal_message (dl_Body d) = Some msg"
      "db_first fault live_ex (executions (db w)) (db_key (em_ExecutionID msg)) = Inr ex"
      "rpc (request_of msg) w = (Inl e, w')" "handle rpc fault d w = (Nack, Some (request_of msg), w')"
  | (finished) msg ex resp w' where "deathCount (dl_Headers d) < MaxRetries" "unmarshal_message (dl_Body d) = Some msg"
      "db_first fault live_ex (executions (db w)) (db_key (em_ExecutionID msg)) = Inr ex"
      "rpc (request_of msg) w = (Inr resp, w')" "handle rpc fault d w = (Ack, Some (request_of msg), w')"
proof (cases "deathCount (dl_Headers d) \<ge> MaxRetries")
  case True
  then show ?thesis by (intro dropped) (simp_all add: handle_def)
next
  case m: False
  then have l: "deathCount (dl_Headers d) < MaxRetries" by simp
  show ?thesis
  proof (cases "unmarshal_message (dl_Body d)")
    case None
    with l m show ?thesis by (intro malformed) (simp_all add: handle_def)
  next
    case s: (Some msg)
    show ?thesis
    proof (cases "db_first fault live_ex (executions (db w)) (db_key (em_ExecutionID msg))")
      case i: (Inl e)
      show ?thesis
      proof (cases e)
        case RecordNotFound
        show ?thesis by (rule missing [OF l s]) (use m s i RecordNotFound in \<open>simp_all add: handle_def\<close>)
      next
        case (DbError x)
        show ?thesis by (rule db_error [OF l s, of x]) (use m s i DbError in \<open>simp_all add: handle_def\<close>)
      qed
    next
      case r: (Inr ex)
      obtain res w' where p: "rpc (request_of msg) w = (res, w')" by fastforce
      show ?thesis
      proof (cases res)
        case (Inl e)
        show ?thesis by (rule engine_error [OF l s r, of e w']) (use m s r p Inl in \<open>simp_all add: handle_def\<close>)
      next
        case (Inr resp)
        show ?thesis by (rule finished [OF l s r, of resp w']) (use m s r p Inr in \<open>simp_all add: handle_def\<close>)
      qed
    qed
  qed
qed

text \<open>C24: a delivery is rejected exactly when another attempt makes sense: the message is
  well-formed, has not used up its retries, and either the database failed on the check of the
  execution or the execution is there and the engine answered with an error. In every other
  case it is acknowledged. The engine is called at most once, only for a live execution of a message within its retries, with the
  message's own keys and payload; and without a call nothing changes.\<close>

theorem handle_verdict:
  assumes "handle rpc fault d w = (v, req, w')"
  shows "(v = Nack \<longleftrightarrow> deathCount (dl_Headers d) < MaxRetries \<and>
      (\<exists>msg. unmarshal_message (dl_Body d) = Some msg \<and>
        ((\<exists>e. db_first fault live_ex (executions (db w)) (db_key (em_ExecutionID msg)) = Inl (DbError e)) \<or>
         (\<exists>ex e. db_first fault live_ex (executions (db w)) (db_key (em_ExecutionID msg)) = Inr ex \<and>
            fst (rpc (request_of msg) w) = Inl e)))) \<and>
    (\<forall>q. req = Some q \<longrightarrow> deathCount (dl_Headers d) < MaxRetries \<and>
      (\<exists>msg ex. unmarshal_message (dl_Body d) = Some msg \<and> q = request_of msg \<and>
         lookup (executions (db w)) (db_key (em_ExecutionID msg)) = Some ex \<and> live_ex ex) \<and>
      w' = snd (rpc q w)) \<and>
    (req = None \<longrightarrow> w' = w)"
proof (rule handle_cases [where d = d and rpc = rpc and fault = fault and w = w])
qed (use assms in \<open>auto dest: db_firstD\<close>)

definition sample_message :: ExecutionMessage where
  "sample_message = \<lparr>em_ExecutionID = 1, em_WorkflowID = 1, em_TriggerPayload = ''{}''\<rparr>"

subsection \<open>The life of a message\<close>

text \<open>
  The deliveries of one message: the \<open>n\<close>-th one, from 0, has the headers \<open>headers n\<close>, meets the
  engine \<open>rpc n\<close> and the database failure \<open>fault n\<close>, and before it \<open>env n\<close> is what everything
  else has done to the state. A rejected message goes round the retry loop and is delivered
  again. \<open>life\<close> follows at most as many deliveries as its first number says.
\<close>

fun life :: "(nat \<Rightarrow> rpc) \<Rightarrow> (nat \<Rightarrow> error option) \<Rightarrow> (nat \<Rightarrow> amqp_table option) \<Rightarrow> (nat \<Rightarrow> world \<Rightarrow> world) \<Rightarrow> string
    \<Rightarrow> nat \<Rightarrow> nat \<Rightarrow> world \<Rightarrow> (verdict \<times> RunExecutionReq option) list \<times> world" where
  "life rpc fault headers env body 0 n w = ([], w)"
| "life rpc fault headers env body (Suc k) n w =
     (case handle (rpc n) (fault n) \<lparr>dl_Headers = headers n, dl_Body = body\<rparr> (env n w) of
        (Ack, req, w') \<Rightarrow> ([(Ack, req)], w')
      | (Nack, req, w') \<Rightarrow> (case life rpc fault headers env body k (Suc n) w' of
          (rs, w'') \<Rightarrow> ((Nack, req) # rs, w'')))"

lemma handle_exhausted: "deathCount (dl_Headers d) \<ge> MaxRetries \<Longrightarrow> handle rpc fault d w = (Ack, None, w)"
  by (simp add: handle_def)

text \<open>With \<open>j\<close> attempts left before the retries are used up.\<close>

lemma life_bound:
  assumes h: "\<And>n. n \<le> 3 \<Longrightarrow> deathCount (headers n) = int n" and n: "n + j = 3" and k: "Suc j \<le> k"
    and l: "life rpc fault headers env body k n w = (rs, w')"
  shows "rs \<noteq> [] \<and> length rs \<le> Suc j \<and> fst (last rs) = Ack \<and> (\<forall>r \<in> set (butlast rs). fst r = Nack) \<and>
    length (filter (\<lambda>r. snd r \<noteq> None) rs) \<le> j \<and> life rpc fault headers env body (Suc j) n w = (rs, w')"
  using n k l
proof (induction j arbitrary: n k w rs w')
  case 0
  then obtain k' where k': "k = Suc k'" by (cases k) auto
  have "handle (rpc n) (fault n) \<lparr>dl_Headers = headers n, dl_Body = body\<rparr> (env n w) = (Ack, None, env n w)"
    using 0 h [of n] by (intro handle_exhausted) (simp add: MaxRetries_def)
  with 0 k' show ?case by auto
next
  case (Suc j)
  then obtain k' where k': "k = Suc k'" "Suc j \<le> k'" by (cases k) auto
  obtain v req w1 where hd: "handle (rpc n) (fault n) \<lparr>dl_Headers = headers n, dl_Body = body\<rparr> (env n w) = (v, req, w1)"
    using prod_cases3 by blast
  show ?case
  proof (cases v)
    case Ack
    with Suc.prems(3) hd k' show ?thesis by auto
  next
    case Nack
    obtain rs1 w2 where r: "life rpc fault headers env body k' (Suc n) w1 = (rs1, w2)" by fastforce
    have "rs = (Nack, req) # rs1" "w' = w2" using Suc.prems(3) hd Nack r k' by auto
    moreover have "Suc n + j = 3" using Suc.prems(1) by simp
    note Suc.IH [OF this k'(2) r]
    ultimately show ?thesis using hd Nack by auto
  qed
qed

text \<open>C25: a message is never retried for ever. When the \<open>x-death\<close> count of its \<open>n\<close>-th
  redelivery is \<open>n\<close>, it is delivered at most four times and sent to the engine at most three
  times; every delivery but the last is rejected and the last one is acknowledged, whatever
  the engine, the database and the rest of the system do in between.\<close>

theorem message_life_bounded:
  assumes "\<And>n. n \<le> 3 \<Longrightarrow> deathCount (headers n) = int n" and "4 \<le> k"
  shows "let (rs, w') = life rpc fault headers env body k 0 w in
    rs \<noteq> [] \<and> length rs \<le> 4 \<and> fst (last rs) = Ack \<and> (\<forall>r \<in> set (butlast rs). fst r = Nack) \<and>
    length (filter (\<lambda>r. snd r \<noteq> None) rs) \<le> 3 \<and> life rpc fault headers env body 4 0 w = (rs, w')"
proof -
  obtain rs w' where l: "life rpc fault headers env body k 0 w = (rs, w')" by fastforce
  have "0 + 3 = (3 :: nat)" "Suc 3 \<le> k" using assms(2) by simp_all
  from life_bound [OF assms(1) this l] l show ?thesis by (simp add: numeral_eq_Suc)
qed

text \<open>The headers RabbitMQ gives the \<open>n\<close>-th redelivery: the latest death is the first entry.\<close>

definition sample_headers :: "nat \<Rightarrow> amqp_table option" where
  "sample_headers n = (if n = 0 then Some [] else Some [(''x-death'', AList
     [ATable [(''count'', AInt64 (of_nat n)), (''reason'', AStr ''expired''), (''queue'', AStr QueueRetry)],
      ATable [(''count'', AInt64 (of_nat n)), (''reason'', AStr ''rejected''), (''queue'', AStr QueueRun)]])])"

lemma sample_deaths: "n \<le> 3 \<Longrightarrow> deathCount (sample_headers n) = int n"
proof -
  assume "n \<le> 3"
  then consider "n = 0" | "n = 1" | "n = 2" | "n = 3" by linarith
  then show ?thesis by cases (simp_all add: sample_headers_def deathCount_def)
qed

theorem message_life_bounded_witness:
  "length (fst (life (\<lambda>n q w. (Inl ''unavailable'', w)) (\<lambda>n. None) sample_headers (\<lambda>n w. w) ''{}'' 10 0 engine_world)) \<le> 4"
  using message_life_bounded [of sample_headers 10 "\<lambda>n q w. (Inl ''unavailable'', w)" "\<lambda>n. None" "\<lambda>n w. w" "''{}''" engine_world,
      OF sample_deaths]
  by (simp add: case_prod_beta Let_def)

theorem handle_verdict_witness:
  "fst (handle (\<lambda>q w. (Inl ''unavailable'', w)) None \<lparr>dl_Headers = None, dl_Body = marshal_message sample_message\<rparr> engine_world) = Nack"
proof -
  let ?d = "\<lparr>dl_Headers = None, dl_Body = marshal_message sample_message\<rparr>"
  have u: "unmarshal_message (dl_Body ?d) = Some sample_message"
    by (simp, rule unmarshal_marshal_message) code_simp
  have e: "db_first None live_ex (executions (db engine_world)) (db_key (em_ExecutionID sample_message)) = Inr engine_execution"
    by (simp add: db_first_def engine_world_def lookup_def sample_message_def db_key_def live_ex_def engine_execution_def)
  have m: "deathCount (dl_Headers ?d) < MaxRetries" by (simp add: deathCount_def MaxRetries_def)
  obtain v req w' where h: "handle (\<lambda>q w. (Inl ''unavailable'', w)) None ?d engine_world = (v, req, w')"
    using prod_cases3 by blast
  have "v = Nack" using handle_verdict [OF h] u e m by auto
  then show ?thesis using h by simp
qed


subsection \<open>The worker and the engine\<close>

text \<open>The engine as the worker calls it.\<close>

definition engine :: "golib \<Rightarrow> (string \<Rightarrow> error + string) \<Rightarrow> (string \<Rightarrow> error option) \<Rightarrow> run_oracle \<Rightarrow> rpc" where
  "engine lib jsonb scan_uid ro q w = RunExecution lib jsonb scan_uid True ro q w"

lemma handle_engine:
  assumes d: "deathCount (dl_Headers d) < MaxRetries" and m: "unmarshal_message (dl_Body d) = Some msg"
    and ok: "db_ok (db w)" and x: "lookup (executions (db w)) (sint (em_ExecutionID msg)) = Some ex" "live_ex ex"
  shows "handle (engine lib jsonb scan_uid ro) None d w =
    (case RunExecution lib jsonb scan_uid True ro (request_of msg) w of
       (Inl e, w') \<Rightarrow> (Nack, Some (request_of msg), w')
     | (Inr resp, w') \<Rightarrow> (Ack, Some (request_of msg), w'))"
proof -
  have t: "table_ok ex_ID (executions (db w))" using ok by (simp add: db_ok_def)
  have "ex_ID ex = em_ExecutionID msg" using row_sint [OF t x(1)] by (rule signed_word_eqI)
  then have "db_key (em_ExecutionID msg) = sint (em_ExecutionID msg)" using lookup_key_eq [OF t x(1)] by simp
  then have "db_first None live_ex (executions (db w)) (db_key (em_ExecutionID msg)) = Inr ex"
    using x by (simp add: db_first_None)
  then show ?thesis using d m by (simp add: handle_def engine_def)
qed

lemma settles:
  assumes "deathCount (dl_Headers d) < MaxRetries" and "unmarshal_message (dl_Body d) = Some msg"
    and "db_ok (db w)" and "lookup (executions (db w)) (sint (em_ExecutionID msg)) = Some ex" and "live_ex ex"
    and "lookup (workflows (db w)) (sint (em_WorkflowID msg)) = Some wk" and "live_wf wk" and "scan_uid (wf_UserID wk) = None"
    and "ro_workflow ro = None" and "ro_execution ro = None" and "ro_finish ro = None"
  shows "\<exists>w'. handle (engine lib jsonb scan_uid ro) None d w = (Ack, Some (request_of msg), w') \<and>
    lookup (executions (db w')) (sint (em_ExecutionID msg)) =
      Some (ex\<lparr>ex_Status := run_status (run_of lib True ro wk), ex_FinishedAt := Some (ro_now ro)\<rparr>) \<and>
    run_status (run_of lib True ro wk) \<in> {''success'', ''failed''}"
proof -
  have l: "load_workflow scan_uid ro (em_WorkflowID msg) w = Inr wk" "load_execution ro (em_ExecutionID msg) w = Inr ex"
    using assms(4-10) by (simp_all add: load_workflow_def load_execution_def db_first_None)
  have k: "db_key (ex_ID ex) = sint (em_ExecutionID msg)" using loaded_ids(2) [OF assms(3) l(2)] by simp
  have "RunExecution lib jsonb scan_uid True ro (request_of msg) w =
    (Inr \<lparr>rr_Status = run_status (run_of lib True ro wk), rr_Error = run_message (run_of lib True ro wk)\<rparr>,
     run_final lib jsonb True ro wk ex w)"
    by (simp add: RunExecution_spec request_of_def l)
  then show ?thesis
    using handle_engine [OF assms(1-5)] run_final_executions [OF assms(4,5) k] assms(11)
    by (auto simp: final_row_def run_status_def split: option.split)
qed

text \<open>A delivery whose workflow and execution the engine can load is settled in one go: it is
  acknowledged after one call, and the execution's row then carries the final status of the
  abstract run, \<open>success\<close> or \<open>failed\<close>, and the time it finished.\<close>

theorem delivery_settles_execution:
  assumes "deathCount (dl_Headers d) < MaxRetries" and "unmarshal_message (dl_Body d) = Some msg"
    and "db_ok (db w)" and "lookup (executions (db w)) (sint (em_ExecutionID msg)) = Some ex" and "live_ex ex"
    and "lookup (workflows (db w)) (sint (em_WorkflowID msg)) = Some wk" and "live_wf wk" and "scan_uid (wf_UserID wk) = None"
    and "ro_workflow ro = None" and "ro_execution ro = None" and "ro_finish ro = None"
  shows "\<exists>w'. handle (engine lib jsonb scan_uid ro) None d w = (Ack, Some (request_of msg), w') \<and>
    lookup (executions (db w')) (sint (em_ExecutionID msg)) =
      Some (ex\<lparr>ex_Status := run_status (run_of lib True ro wk), ex_FinishedAt := Some (ro_now ro)\<rparr>) \<and>
    run_status (run_of lib True ro wk) \<in> {''success'', ''failed''}"
  using assms by (rule settles)

theorem delivery_settles_execution_witness:
  "\<exists>w'. handle (engine sample_lib Inr (\<lambda>u. None) sample_oracle) None
      \<lparr>dl_Headers = None, dl_Body = marshal_message sample_message\<rparr> engine_world = (Ack, Some (request_of sample_message), w') \<and>
    lookup (executions (db w')) 1 = Some (engine_execution\<lparr>ex_Status := ''failed'', ex_FinishedAt := Some 99\<rparr>)"
proof -
  let ?d = "\<lparr>dl_Headers = None, dl_Body = marshal_message sample_message\<rparr>"
  have m: "deathCount (dl_Headers ?d) < MaxRetries" by (simp add: deathCount_def MaxRetries_def)
  have u: "unmarshal_message (dl_Body ?d) = Some sample_message"
    by (simp, rule unmarshal_marshal_message) code_simp
  have h: "lookup (executions (db engine_world)) (sint (em_ExecutionID sample_message)) = Some engine_execution"
    "live_ex engine_execution" "lookup (workflows (db engine_world)) (sint (em_WorkflowID sample_message)) = Some engine_workflow"
    "live_wf engine_workflow" "ro_workflow sample_oracle = None" "ro_execution sample_oracle = None"
    by (simp_all add: engine_world_def lookup_def sample_message_def live_ex_def engine_execution_def live_wf_def
        engine_workflow_def sample_oracle_def)
  show ?thesis
    using delivery_settles_execution [where scan_uid = "\<lambda>u. None" and lib = sample_lib and jsonb = Inr,
        OF m u engine_db_ok h(1-4) refl h(5,6) sample_finish(1)] sample_run_error
    by (simp add: sample_message_def run_status_def sample_finish)
qed

text \<open>A message whose workflow the engine cannot read is lost: when the owner stored with
  the workflow cannot be read as an unsigned integer, every delivery within the retries is rejected, the fourth one is
  acknowledged, and nothing has changed: the execution is still \<open>pending\<close>, without a step
  log, and no message will run it.\<close>

theorem unreadable_owner_is_dropped:
  assumes "\<And>n. n \<le> 3 \<Longrightarrow> deathCount (headers n) = int n" and "unmarshal_message body = Some msg"
    and "db_ok (db w)" and "lookup (executions (db w)) (sint (em_ExecutionID msg)) = Some ex" and "live_ex ex"
    and "lookup (workflows (db w)) (sint (em_WorkflowID msg)) = Some wk" and "scan_uid (wf_UserID wk) = Some e"
  shows "life (\<lambda>n. engine lib jsonb scan_uid (ro n)) (\<lambda>n. None) headers (\<lambda>n w. w) body 4 0 w =
    ([(Nack, Some (request_of msg)), (Nack, Some (request_of msg)), (Nack, Some (request_of msg)), (Ack, None)], w)"
proof -
  have r: "\<exists>err. RunExecution lib jsonb scan_uid True (ro n) (request_of msg) w = (Inl err, w)" for n
    unfolding run_load_failure using assms(6,7) by (simp add: request_of_def)
  have h: "handle (engine lib jsonb scan_uid (ro n)) None \<lparr>dl_Headers = headers n, dl_Body = body\<rparr> w =
    (Nack, Some (request_of msg), w)" if "n < 3" for n
  proof -
    have d: "deathCount (dl_Headers \<lparr>dl_Headers = headers n, dl_Body = body\<rparr>) < MaxRetries"
      using assms(1) [of n] that by (simp add: MaxRetries_def)
    have u: "unmarshal_message (dl_Body \<lparr>dl_Headers = headers n, dl_Body = body\<rparr>) = Some msg"
      using assms(2) by simp
    show ?thesis using handle_engine [OF d u assms(3-5), of lib jsonb scan_uid "ro n"] r [of n] by auto
  qed
  have l: "handle (engine lib jsonb scan_uid (ro 3)) None \<lparr>dl_Headers = headers 3, dl_Body = body\<rparr> w = (Ack, None, w)"
    using assms(1) [of 3] by (intro handle_exhausted) (simp add: MaxRetries_def)
  show ?thesis
    using h [of 0] h [of "Suc 0"] h [of 2] l by (simp add: numeral_eq_Suc)
qed

text \<open>A delivery that comes twice runs twice: nothing in the worker or the engine looks at
  the status of the execution, so a second delivery of an acknowledged message (RabbitMQ
  delivers at least once) executes every step again and appends a second series of step logs.\<close>

theorem redelivery_runs_again:
  assumes "deathCount (dl_Headers d) < MaxRetries" and "unmarshal_message (dl_Body d) = Some msg"
    and "db_ok (db w)" and "handle (engine lib jsonb scan_uid ro1) None d w = (Ack, Some q, w1)"
    and "handle (engine lib jsonb scan_uid ro2) None d w1 = (Ack, Some q', w2)"
    and "lookup (workflows (db w)) (sint (em_WorkflowID msg)) = Some wk"
    and "next_key (step_logs (db w)) + 2 * int (length (steps_of wk)) \<le> key_limit"
  shows "logs_of (db w2) = logs_of (db w) @
      written_logs jsonb ro1 (em_ExecutionID msg) 0 (run_of lib True ro1 wk) @
      written_logs jsonb ro2 (em_ExecutionID msg) 0 (run_of lib True ro2 wk)"
proof -
  have step: "\<exists>resp. RunExecution lib jsonb scan_uid True ro (request_of msg) v = (Inr resp, v')"
    if "handle (engine lib jsonb scan_uid ro) None d v = (Ack, Some r, v')" for ro r v v'
    using that assms(1,2)
    by (cases rule: handle_cases [where d = d and rpc = "engine lib jsonb scan_uid ro" and fault = None and w = v])
      (auto simp: engine_def)
  obtain resp1 resp2 where r: "RunExecution lib jsonb scan_uid True ro1 (request_of msg) w = (Inr resp1, w1)"
    "RunExecution lib jsonb scan_uid True ro2 (request_of msg) w1 = (Inr resp2, w2)"
    using step [OF assms(4)] step [OF assms(5)] by blast
  have q: "rq_WorkflowId (request_of msg) = em_WorkflowID msg" "rq_ExecutionId (request_of msg) = em_ExecutionID msg"
    by (simp_all add: request_of_def)
  have l: "lookup (workflows (db w)) (sint (rq_WorkflowId (request_of msg))) = Some wk"
    "next_key (step_logs (db w)) + int (length (steps_of wk)) \<le> key_limit"
    using assms(6,7) q by simp_all
  note one = RunExecution_logs [OF assms(3) r(1) l]
  have l2: "lookup (workflows (db w1)) (sint (rq_WorkflowId (request_of msg))) = Some wk"
    "next_key (step_logs (db w1)) + int (length (steps_of wk)) \<le> key_limit"
    using one l(1) assms(7) by auto
  have "db_ok (db w1)" using one by blast
  note two = RunExecution_logs [OF this r(2) l2]
  show ?thesis using one two q by simp
qed

theorem redelivery_runs_again_witness:
  "\<exists>w1 w2. handle (engine sample_lib Inr (\<lambda>u. None) sample_oracle) None
       \<lparr>dl_Headers = None, dl_Body = marshal_message sample_message\<rparr> engine_world = (Ack, Some (request_of sample_message), w1) \<and>
     handle (engine sample_lib Inr (\<lambda>u. None) sample_oracle) None
       \<lparr>dl_Headers = None, dl_Body = marshal_message sample_message\<rparr> w1 = (Ack, Some (request_of sample_message), w2) \<and>
     logs_of (db w2) = written_logs Inr sample_oracle 1 0 (run_of sample_lib True sample_oracle engine_workflow) @
       written_logs Inr sample_oracle 1 0 (run_of sample_lib True sample_oracle engine_workflow)"
proof -
  let ?d = "\<lparr>dl_Headers = None, dl_Body = marshal_message sample_message\<rparr>"
  let ?h = "handle (engine sample_lib Inr (\<lambda>u. None) sample_oracle) None ?d"
  have m: "deathCount (dl_Headers ?d) < MaxRetries" by (simp add: deathCount_def MaxRetries_def)
  have u: "unmarshal_message (dl_Body ?d) = Some sample_message"
    by (simp, rule unmarshal_marshal_message) code_simp
  have o: "ro_workflow sample_oracle = None" "ro_execution sample_oracle = None" by (simp_all add: sample_oracle_def)
  have wk: "lookup (workflows (db engine_world)) (sint (em_WorkflowID sample_message)) = Some engine_workflow"
    "live_wf engine_workflow"
    by (simp_all add: engine_world_def lookup_def sample_message_def live_wf_def engine_workflow_def)
  have x: "lookup (executions (db engine_world)) (sint (em_ExecutionID sample_message)) = Some engine_execution" "live_ex engine_execution"
    by (simp_all add: engine_world_def lookup_def sample_message_def live_ex_def engine_execution_def)
  obtain w1 where h1: "?h engine_world = (Ack, Some (request_of sample_message), w1)"
    and e1: "lookup (executions (db w1)) (sint (em_ExecutionID sample_message)) =
      Some (engine_execution\<lparr>ex_Status := run_status (run_of sample_lib True sample_oracle engine_workflow), ex_FinishedAt := Some (ro_now sample_oracle)\<rparr>)"
    using settles [where scan_uid = "\<lambda>u. None" and lib = sample_lib and jsonb = Inr,
        OF m u engine_db_ok x wk refl o sample_finish(1)] by blast
  have r1: "w1 = snd (RunExecution sample_lib Inr (\<lambda>u. None) True sample_oracle (request_of sample_message) engine_world)"
    using handle_engine [OF m u engine_db_ok x, of sample_lib Inr "\<lambda>u. None" sample_oracle] h1
    by (auto split: prod.splits sum.splits)
  have ok1: "db_ok (db w1)" unfolding r1 by (rule RunExecution_ok [OF engine_db_ok])
  have wk1: "lookup (workflows (db w1)) (sint (em_WorkflowID sample_message)) = Some engine_workflow"
    using wk(1) by (simp add: r1 RunExecution_frame)
  have lv: "live_ex (engine_execution\<lparr>ex_Status := run_status (run_of sample_lib True sample_oracle engine_workflow), ex_FinishedAt := Some (ro_now sample_oracle)\<rparr>)"
    by (simp add: live_ex_def engine_execution_def)
  obtain w2 where h2: "?h w1 = (Ack, Some (request_of sample_message), w2)"
    using settles [where scan_uid = "\<lambda>u. None" and lib = sample_lib and jsonb = Inr,
        OF m u ok1 e1 lv wk1 wk(2) refl o sample_finish(1)] by blast
  have c: "next_key (step_logs (db engine_world)) + 2 * int (length (steps_of engine_workflow)) \<le> key_limit"
    using sample_steps_length by (simp add: engine_world_def empty_table_def key_limit_def)
  have e: "logs_of (db engine_world) = []" by (simp add: engine_world_def logs_of_def empty_table_def)
  show ?thesis
    using redelivery_runs_again [OF m u engine_db_ok h1 h2 wk(1) c] h1 h2 e by (auto simp: sample_message_def)
qed

theorem unreadable_owner_is_dropped_witness:
  "snd (life (\<lambda>n. engine sample_lib Inr (\<lambda>u. if u = ''7'' then Some ''invalid syntax'' else None) sample_oracle) (\<lambda>n. None)
     sample_headers (\<lambda>n w. w) (marshal_message sample_message) 4 0 engine_world) = engine_world"
proof -
  have u: "unmarshal_message (marshal_message sample_message) = Some sample_message"
    by (rule unmarshal_marshal_message) code_simp
  have h: "lookup (executions (db engine_world)) (sint (em_ExecutionID sample_message)) = Some engine_execution"
    "live_ex engine_execution" "lookup (workflows (db engine_world)) (sint (em_WorkflowID sample_message)) = Some engine_workflow"
    "(\<lambda>u. if u = ''7'' then Some ''invalid syntax'' else None) (wf_UserID engine_workflow) = Some ''invalid syntax''"
    by (simp_all add: engine_world_def lookup_def sample_message_def live_ex_def engine_execution_def engine_workflow_def)
  have "life (\<lambda>n. engine sample_lib Inr (\<lambda>u. if u = ''7'' then Some ''invalid syntax'' else None) sample_oracle) (\<lambda>n. None)
     sample_headers (\<lambda>n w. w) (marshal_message sample_message) 4 0 engine_world =
    ([(Nack, Some (request_of sample_message)), (Nack, Some (request_of sample_message)),
      (Nack, Some (request_of sample_message)), (Ack, None)], engine_world)"
    by (rule unreadable_owner_is_dropped [where ro = "\<lambda>n. sample_oracle" and headers = sample_headers and
          scan_uid = "\<lambda>u. if u = ''7'' then Some ''invalid syntax'' else None", OF sample_deaths u engine_db_ok h])
  then show ?thesis by simp
qed

end
