(* ===== verification/Scheduler.thy ===== *)
theory Scheduler
  imports Queue Workflows
begin

section \<open>The scheduler: scheduler-service/cron/scheduler.go\<close>

text \<open>
  \<open>scheduler-service/cron/scheduler.go\<close>: every minute the scheduler reads the active workflows
  with a schedule and triggers those whose cron expression fires now.

  The cron library is not in the repository: \<open>parse_cron\<close>, an argument, is \<open>cron.ParseStandard\<close>,
  and \<open>next\<close> is the method \<open>Next\<close> of the schedule it returns. \<open>sched_oracle\<close> holds what one check
  meets from outside: the error of its query and the order of the rows; and for the \<open>n\<close>-th
  workflow it triggers, the errors of the two writes and the clock.
\<close>

record sched_oracle =
  sc_find :: "error option"
  sc_order :: "workflow list \<Rightarrow> workflow list"
  sc_create :: "nat \<Rightarrow> error option"
  sc_publish :: "nat \<Rightarrow> error option"
  sc_now :: "nat \<Rightarrow> time"

subsection \<open>TriggerConfig\<close>

definition set_cron_field :: "string \<Rightarrow> json \<Rightarrow> string \<Rightarrow> string option" where
  "set_cron_field n v c = dec_string v c"

text \<open>The field \<open>Cron\<close> of \<open>json.Unmarshal(data, &cfg)\<close>.\<close>

definition unmarshal_cron :: "string \<Rightarrow> string option" where
  "unmarshal_cron s = (case unmarshal s of None \<Rightarrow> None
     | Some j \<Rightarrow> decode_struct [''cron''] set_cron_field j [])"

subsection \<open>Triggering\<close>

definition schedule_payload :: string where
  \<open>schedule_payload = ''{"source":"schedule"}''\<close>

definition s_exchange :: string where "s_exchange = ''workflows''"

definition s_dlx :: string where "s_dlx = ''workflows.dlx''"

definition s_queueRun :: string where "s_queueRun = ''execution.run''"

definition s_queueRetry :: string where "s_queueRetry = ''execution.retry''"

definition s_routingKeyRun :: string where "s_routingKeyRun = ''execution.run''"

definition s_retryTTLMs :: int where "s_retryTTLMs = 10000"

definition trigger :: "(string \<Rightarrow> error + string) \<Rightarrow> error option \<Rightarrow> error option \<Rightarrow> time \<Rightarrow> workflow \<Rightarrow> world \<Rightarrow> world" where
  "trigger jsonb create_err publish_err now wk w =
     (case jsonb schedule_payload of
        Inl e \<Rightarrow> w
      | Inr stored \<Rightarrow> (case db_create create_err
            (\<lambda>i. \<lparr>ex_ID = i, ex_DeletedAt = None, ex_WorkflowID = wf_ID wk, ex_Status = ''pending'',
               ex_StartedAt = now, ex_FinishedAt = None, ex_TriggerPayload = stored\<rparr>)
            (executions (db w)) of
          Inl e \<Rightarrow> w
        | Inr (i, t) \<Rightarrow>
            let w = w\<lparr>db := (db w)\<lparr>executions := t\<rparr>\<rparr>;
                msg = \<lparr>em_ExecutionID = i, em_WorkflowID = wf_ID wk, em_TriggerPayload = schedule_payload\<rparr>;
                body = marshal_message msg
            in (case publish_err of
                  Some e \<Rightarrow> w
                | None \<Rightarrow> w\<lparr>mq := mq w @ [\<lparr>pub_exchange = s_exchange, pub_key = s_routingKeyRun,
                    pub_headers = [], pub_body = body\<rparr>]\<rparr>)))"

subsection \<open>Checking\<close>

definition truncate_minute :: "time \<Rightarrow> time" where
  "truncate_minute t = t - t mod minute"

text \<open>The schedule of a workflow, if its configuration has one.\<close>

definition schedule_of :: "(string \<Rightarrow> error + 's) \<Rightarrow> workflow \<Rightarrow> 's option" where
  "schedule_of parse_cron wk = (case unmarshal_cron (wf_TriggerConfig wk) of
      None \<Rightarrow> None
    | Some c \<Rightarrow> if c = [] then None else (case parse_cron c of Inl e \<Rightarrow> None | Inr s \<Rightarrow> Some s))"

definition fires :: "('s \<Rightarrow> time \<Rightarrow> time) \<Rightarrow> 's \<Rightarrow> time \<Rightarrow> bool" where
  "fires next s t = (let now = truncate_minute t; minuteAgo = now - minute
     in next s minuteAgo < now + second)"

definition scheduled :: "workflow \<Rightarrow> bool" where
  "scheduled wk \<longleftrightarrow> wf_TriggerType wk = ''schedule'' \<and> wf_IsActive wk \<and> live_wf wk"

text \<open>\<open>n\<close> counts the workflows triggered so far in this check.\<close>

fun check_loop :: "(string \<Rightarrow> error + 's) \<Rightarrow> ('s \<Rightarrow> time \<Rightarrow> time) \<Rightarrow> (string \<Rightarrow> error + string) \<Rightarrow> sched_oracle \<Rightarrow> time
    \<Rightarrow> nat \<Rightarrow> workflow list \<Rightarrow> world \<Rightarrow> world" where
  "check_loop parse_cron next jsonb so t n [] w = w"
| "check_loop parse_cron next jsonb so t n (wk # wks) w = (case schedule_of parse_cron wk of
      None \<Rightarrow> check_loop parse_cron next jsonb so t n wks w
    | Some s \<Rightarrow>
        if fires next s t
        then check_loop parse_cron next jsonb so t (Suc n) wks
               (trigger jsonb (sc_create so n) (sc_publish so n) (sc_now so n) wk w)
        else check_loop parse_cron next jsonb so t n wks w)"

definition checkAndTrigger :: "(string \<Rightarrow> error + 's) \<Rightarrow> ('s \<Rightarrow> time \<Rightarrow> time) \<Rightarrow> (string \<Rightarrow> error + string)
    \<Rightarrow> sched_oracle \<Rightarrow> time \<Rightarrow> world \<Rightarrow> world" where
  "checkAndTrigger parse_cron next jsonb so t w =
     (case db_find (sc_find so) (sc_order so) scheduled (workflows (db w)) of
        Inl e \<Rightarrow> w
      | Inr wks \<Rightarrow> check_loop parse_cron next jsonb so t 0 wks w)"

text \<open>
  \<open>Run\<close>: one check at the start, one at each tick, until the context ends. An event of the
  loop is a tick, with what its check meets, or the end.
\<close>

datatype sched_event = Tick sched_oracle time | Stop

fun run_ticks :: "(string \<Rightarrow> error + 's) \<Rightarrow> ('s \<Rightarrow> time \<Rightarrow> time) \<Rightarrow> (string \<Rightarrow> error + string) \<Rightarrow> sched_event list \<Rightarrow> world \<Rightarrow> world" where
  "run_ticks parse_cron next jsonb [] w = w"
| "run_ticks parse_cron next jsonb (Stop # evs) w = w"
| "run_ticks parse_cron next jsonb (Tick so t # evs) w =
     run_ticks parse_cron next jsonb evs (checkAndTrigger parse_cron next jsonb so t w)"

definition RunScheduler :: "(string \<Rightarrow> error + 's) \<Rightarrow> ('s \<Rightarrow> time \<Rightarrow> time) \<Rightarrow> (string \<Rightarrow> error + string) \<Rightarrow> sched_oracle \<Rightarrow> time
    \<Rightarrow> sched_event list \<Rightarrow> world \<Rightarrow> world" where
  "RunScheduler parse_cron next jsonb so t evs w =
     run_ticks parse_cron next jsonb evs (checkAndTrigger parse_cron next jsonb so t w)"

subsection \<open>Topology and connection\<close>

definition s_declareTopology :: "(amqp_decl \<Rightarrow> error option) \<Rightarrow> amqp_decl list \<times> error option" where
  "s_declareTopology amqp = declare_seq amqp
     [(ExchangeDeclare s_exchange ''topic'' True False False False, ''exchange '' @ quoted s_exchange),
      (ExchangeDeclare s_dlx ''direct'' True False False False, ''exchange '' @ quoted s_dlx),
      (QueueDeclare s_queueRun True False False False
         [(''x-dead-letter-exchange'', AStr s_dlx), (''x-dead-letter-routing-key'', AStr s_routingKeyRun)],
       ''queue '' @ quoted s_queueRun),
      (QueueBind s_queueRun s_routingKeyRun s_exchange False, ''bind '' @ quoted s_queueRun),
      (QueueDeclare s_queueRetry True False False False
         [(''x-message-ttl'', AInt32 (word_of_int s_retryTTLMs)),
          (''x-dead-letter-exchange'', AStr s_exchange), (''x-dead-letter-routing-key'', AStr s_routingKeyRun)],
       ''queue '' @ quoted s_queueRetry),
      (QueueBind s_queueRetry s_routingKeyRun s_dlx False, ''bind '' @ quoted s_queueRetry)]"

text \<open>The two handles of a scheduler: is its connection open, its channel?\<close>

record SchedulerConn =
  s_conn :: bool
  s_ch :: bool

definition s_Close :: "SchedulerConn \<Rightarrow> SchedulerConn" where
  "s_Close s = s\<lparr>s_ch := False, s_conn := False\<rparr>"

definition s_New :: "error option \<Rightarrow> error option \<Rightarrow> (amqp_decl \<Rightarrow> error option)
    \<Rightarrow> (error + SchedulerConn) \<times> SchedulerConn \<times> amqp_decl list" where
  "s_New dial channel amqp = (case dial of
      Some e \<Rightarrow> (Inl (''amqp dial: '' @ e), \<lparr>s_conn = False, s_ch = False\<rparr>, [])
    | None \<Rightarrow> (case channel of
        Some e \<Rightarrow> (Inl (''amqp channel: '' @ e), \<lparr>s_conn = False, s_ch = False\<rparr>, [])
      | None \<Rightarrow> let s = \<lparr>s_conn = True, s_ch = True\<rparr> in
          (case s_declareTopology amqp of
             (issued, Some e) \<Rightarrow> (Inl e, s_Close s, issued)
           | (issued, None) \<Rightarrow> (Inr s, s, issued))))"

end
