(* ===== verification/SchedulerProps.thy ===== *)
theory SchedulerProps
  imports Scheduler ExecutionProps
begin

section \<open>The scheduler: what holds of it\<close>

text \<open>
  When a schedule fires, what one check triggers, and how the scheduler's trigger and topology
  relate to the gateway's.
\<close>

subsection \<open>The two services agree\<close>

lemma s_constants: "s_exchange = Exchange" "s_dlx = DLX" "s_queueRun = QueueRun" "s_queueRetry = QueueRetry"
  "s_routingKeyRun = RoutingKeyRun" "s_retryTTLMs = retryTTLMs"
  by (simp_all add: s_exchange_def Exchange_def s_dlx_def DLX_def s_queueRun_def QueueRun_def s_queueRetry_def
      QueueRetry_def s_routingKeyRun_def RoutingKeyRun_def s_retryTTLMs_def retryTTLMs_def)

text \<open>The scheduler declares the topology the gateway declares: the same calls in the same
  order, stopping at the same call with the same error whatever the broker answers; and it
  opens its connection with the same all-or-nothing outcome.\<close>

theorem topologies_agree:
  "s_declareTopology amqp = declareTopology amqp \<and>
   (case (s_New dial channel amqp, New dial channel amqp) of
      ((r, opened, issued), (r', opened', issued')) \<Rightarrow>
        issued = issued' \<and> s_conn opened = p_conn opened' \<and> s_ch opened = p_ch opened' \<and>
        isl r = isl r' \<and> (isl r \<longrightarrow> \<not> s_conn opened \<and> \<not> s_ch opened))"
proof -
  have t: "s_declareTopology amqp = declareTopology amqp" for amqp
    by (simp add: s_declareTopology_def declareTopology_def s_constants)
  then show ?thesis
    by (cases "declareTopology amqp"; cases "snd (declareTopology amqp)")
      (auto simp: s_New_def New_def Close_def s_Close_def Let_def split: option.split)
qed

theorem topologies_agree_witness:
  "s_declareTopology (\<lambda>d. None) = declareTopology (\<lambda>d. None)"
  using topologies_agree [of "\<lambda>d. None" None None] by blast

definition schedule_req :: "workflow \<Rightarrow> TriggerReq" where
  "schedule_req wk = \<lparr>tr_WorkflowId = wf_ID wk, tr_Payload = schedule_payload\<rparr>"

lemma trigger_eq:
  "trigger jsonb create_err publish_err now wk w = (case jsonb schedule_payload of Inl e \<Rightarrow> w
     | Inr stored \<Rightarrow> (case db_create create_err (\<lambda>i. pending_row (wf_ID wk) i now stored) (executions (db w)) of
         Inl e \<Rightarrow> w
       | Inr (i, t) \<Rightarrow> (case publish_err of
           Some e \<Rightarrow> set_executions t w
         | None \<Rightarrow> (set_executions t w)\<lparr>mq := mq w @ [publication [] (queued_message (schedule_req wk) i)]\<rparr>)))"
proof -
  have p: "trigger_payload (schedule_req wk) = schedule_payload"
    by (simp add: trigger_payload_def schedule_req_def schedule_payload_def)
  have h: "publish_headers [] = []" by (simp add: publish_headers_def)
  show ?thesis
    unfolding trigger_def pending_row_def [symmetric] publication_def queued_message_def p h s_constants Let_def
    by (simp add: set_executions_def schedule_req_def split: sum.split option.split)
qed

text \<open>The scheduler triggers a workflow just as the gateway's webhook would with the payload
  \<open>{"source":"schedule"}\<close> and no trace: on a live workflow and with the same failures of the
  two writes, both leave the same state.\<close>

theorem scheduler_triggers_like_webhook:
  assumes "lookup (workflows (db w)) (sint (wf_ID wk)) = Some wk" and "live_wf wk" and "f_read F = None"
  shows "trigger jsonb (f_write F) (f_publish F) now wk w =
    snd (TriggerWorkflow jsonb [] now F (schedule_req wk) w)"
proof -
  have "db_first (f_read F) live_wf (workflows (db w)) (sint (tr_WorkflowId (schedule_req wk))) = Inr wk"
    using assms by (simp add: db_first_None schedule_req_def)
  moreover have "trigger_payload (schedule_req wk) = schedule_payload"
    by (simp add: trigger_payload_def schedule_req_def schedule_payload_def)
  moreover have "tr_WorkflowId (schedule_req wk) = wf_ID wk" by (simp add: schedule_req_def)
  ultimately show ?thesis
    by (simp add: TriggerWorkflow_eq trigger_eq split: sum.split option.split)
qed

theorem scheduler_triggers_like_webhook_witness:
  "trigger sample_jsonb None None 5 (sample_workflow 2 [] None) sample_world =
   snd (TriggerWorkflow sample_jsonb [] 5 no_faults (schedule_req (sample_workflow 2 [] None)) sample_world)"
proof -
  have "lookup (workflows (db sample_world)) (sint (wf_ID (sample_workflow 2 [] None))) = Some (sample_workflow 2 [] None)"
    "live_wf (sample_workflow 2 [] None)" "f_read no_faults = None"
    by (simp_all add: sample_world_def lookup_sample sample_workflow_def live_wf_def no_faults_def)
  from scheduler_triggers_like_webhook [OF this, of sample_jsonb 5] show ?thesis
    by (simp add: no_faults_def)
qed

subsection \<open>When a schedule fires\<close>

text \<open>
  What the scheduler relies on of a cron expression: it matches whole minutes, and \<open>next s t\<close> is
  the first instant after \<open>t\<close> that it matches.
\<close>

definition cron_next :: "('s \<Rightarrow> time \<Rightarrow> time) \<Rightarrow> ('s \<Rightarrow> time \<Rightarrow> bool) \<Rightarrow> 's \<Rightarrow> bool" where
  "cron_next next matches s \<longleftrightarrow> (\<forall>u. matches s u \<longrightarrow> u mod minute = 0) \<and>
     (\<forall>t. t < next s t \<and> matches s (next s t) \<and> (\<forall>u. t < u \<and> u < next s t \<longrightarrow> \<not> matches s u))"

lemma truncate_whole [simp]: "truncate_minute t mod minute = 0"
  by (simp add: truncate_minute_def minute_def second_def minus_mod_eq_mult_div)

lemma fires_matches:
  assumes c: "cron_next next matches s"
  shows "fires next s t \<longleftrightarrow> matches s (truncate_minute t)"
proof
  let ?n = "truncate_minute t" and ?x = "next s (truncate_minute t - minute)"
  have x: "?n - minute < ?x" "matches s ?x" "?x mod minute = 0"
    using c by (auto simp: cron_next_def)
  assume "fires next s t"
  then have l: "?x < ?n + second" by (simp add: fires_def Let_def)
  obtain a b where ab: "?n = minute * a" "?x = minute * b"
    using truncate_whole [of t] x(3) by (metis dvdE mod_0_imp_dvd)
  have "a - 1 < b" using x(1) ab by (simp add: minute_def second_def algebra_simps)
  moreover have "b < a + 1" using l ab by (simp add: minute_def second_def)
  ultimately have "?x = ?n" using ab by simp
  with x(2) show "matches s ?n" by simp
next
  let ?n = "truncate_minute t" and ?x = "next s (truncate_minute t - minute)"
  assume m: "matches s ?n"
  have "?x \<le> ?n"
  proof (rule ccontr)
    assume "\<not> ?x \<le> ?n"
    then have "?n - minute < ?n \<and> ?n < ?x" by (simp add: minute_def second_def)
    with c m show False by (auto simp: cron_next_def)
  qed
  then show "fires next s t" by (simp add: fires_def Let_def second_def)
qed

text \<open>A cron schedule fires in a check exactly when it matches the minute the check falls
  in. So over checks that fall in consecutive minutes a workflow is triggered once for each
  minute its expression matches; and a second check within the same minute, as after a
  restart, fires again whenever the first did.\<close>

theorem fires_once_per_matching_minute:
  assumes "cron_next next matches s"
  shows "(fires next s t \<longleftrightarrow> matches s (truncate_minute t)) \<and>
    ((\<forall>i < length ts. truncate_minute (ts ! i) = m + int i * minute) \<longrightarrow>
       length (filter (fires next s) ts) = card {i. i < length ts \<and> matches s (m + int i * minute)}) \<and>
    (truncate_minute t = truncate_minute t' \<longrightarrow> fires next s t = fires next s t')"
proof (intro conjI impI)
  assume ts: "\<forall>i < length ts. truncate_minute (ts ! i) = m + int i * minute"
  have "length (filter (fires next s) ts) = card {i. i < length ts \<and> fires next s (ts ! i)}"
    by (rule length_filter_conv_card)
  also have "{i. i < length ts \<and> fires next s (ts ! i)} = {i. i < length ts \<and> matches s (m + int i * minute)}"
    using ts fires_matches [OF assms] by auto
  finally show "length (filter (fires next s) ts) = card {i. i < length ts \<and> matches s (m + int i * minute)}" .
qed (simp_all add: fires_matches [OF assms])

text \<open>Every five minutes.\<close>

definition sample_next :: "unit \<Rightarrow> time \<Rightarrow> time" where
  "sample_next s t = t - t mod (5 * minute) + 5 * minute"

definition sample_matches :: "unit \<Rightarrow> time \<Rightarrow> bool" where
  "sample_matches s u \<longleftrightarrow> u mod (5 * minute) = 0"

lemma next_multiple:
  fixes n :: int
  assumes "0 < n"
  shows "t < t - t mod n + n" and "(t - t mod n + n) mod n = 0" and "u mod n = 0 \<Longrightarrow> t < u \<Longrightarrow> t - t mod n + n \<le> u"
proof -
  have x: "t - t mod n + n = n * (t div n + 1)" by (simp add: minus_mod_eq_mult_div algebra_simps)
  show "t < t - t mod n + n" using pos_mod_bound [OF assms, of t] by simp
  show "(t - t mod n + n) mod n = 0" unfolding x by simp
  assume "u mod n = 0" "t < u"
  then obtain b where b: "u = n * b" by (metis dvdE mod_0_imp_dvd)
  have "t div n < b"
  proof (rule ccontr)
    assume "\<not> t div n < b"
    then have "n * b \<le> n * (t div n)" using assms by simp
    also have "\<dots> \<le> t" using assms by (simp add: minus_mod_eq_mult_div [symmetric])
    finally show False using \<open>t < u\<close> b by simp
  qed
  then show "t - t mod n + n \<le> u" unfolding x b using assms by simp
qed

lemma sample_cron: "cron_next sample_next sample_matches s"
proof -
  have p: "0 < 5 * minute" by (simp add: minute_def second_def)
  have m: "u mod minute = 0" if "u mod (5 * minute) = 0" for u
  proof -
    from that obtain b where "u = 5 * minute * b" by (metis dvdE mod_0_imp_dvd)
    then have "u = minute * (5 * b)" by simp
    then show ?thesis by (simp only: mod_mult_self1_is_0)
  qed
  note n = next_multiple [OF p]
  show ?thesis
    unfolding cron_next_def sample_next_def sample_matches_def
  proof (intro conjI allI impI)
    fix t u :: int
    assume "t < u \<and> u < t - t mod (5 * minute) + 5 * minute"
    then show "u mod (5 * minute) \<noteq> 0" using n(3) [of u t] by linarith
  next
    fix u :: int
    assume "u mod (5 * minute) = 0"
    then show "u mod minute = 0" by (rule m)
  next
    fix t :: int
    show "t < t - t mod (5 * minute) + 5 * minute" by (rule n(1))
    show "(t - t mod (5 * minute) + 5 * minute) mod (5 * minute) = 0" by (rule n(2))
  qed
qed

theorem fires_once_per_matching_minute_witness:
  "fires sample_next () (600 * second + 7) \<and> \<not> fires sample_next () (660 * second)"
proof -
  have "truncate_minute (600 * second + 7) = 600 * second" "truncate_minute (660 * second) = 660 * second"
    by (simp_all add: truncate_minute_def minute_def second_def)
  then show ?thesis
    using fires_once_per_matching_minute [OF sample_cron, where t = "600 * second + 7" and t' = 0 and ts = "[]" and m = 0]
      fires_once_per_matching_minute [OF sample_cron, where t = "660 * second" and t' = 0 and ts = "[]" and m = 0]
    by (simp add: sample_matches_def minute_def second_def)
qed



subsection \<open>What a check triggers\<close>

definition due :: "(string \<Rightarrow> error + 's) \<Rightarrow> ('s \<Rightarrow> time \<Rightarrow> time) \<Rightarrow> time \<Rightarrow> workflow \<Rightarrow> bool" where
  "due parse_cron next t wk \<longleftrightarrow> (case schedule_of parse_cron wk of None \<Rightarrow> False | Some s \<Rightarrow> fires next s t)"

fun trigger_all :: "(string \<Rightarrow> error + string) \<Rightarrow> sched_oracle \<Rightarrow> nat \<Rightarrow> workflow list \<Rightarrow> world \<Rightarrow> world" where
  "trigger_all jsonb so n [] w = w"
| "trigger_all jsonb so n (wk # wks) w = trigger_all jsonb so (Suc n) wks
     (trigger jsonb (sc_create so n) (sc_publish so n) (sc_now so n) wk w)"

lemma check_loop_due:
  "check_loop parse_cron next jsonb so t n wks w = trigger_all jsonb so n (filter (due parse_cron next t) wks) w"
  by (induction wks arbitrary: n w) (simp_all add: due_def split: option.split)

lemma trigger_frame [simp]:
  "workflows (db (trigger jsonb c p now wk w)) = workflows (db w)"
  "step_logs (db (trigger jsonb c p now wk w)) = step_logs (db w)"
  "cache (trigger jsonb c p now wk w) = cache w" "pubsub (trigger jsonb c p now wk w) = pubsub w"
  by (auto simp: trigger_eq split: sum.split option.split)

lemma trigger_ok:
  assumes ok: "db_ok (db w)" and wk: "lookup (workflows (db w)) (db_key (wf_ID wk)) \<noteq> None"
  shows "db_ok (db (trigger jsonb c p now wk w))"
proof -
  have "db_ok ((db w)\<lparr>executions := t\<rparr>)"
    if "db_create c (\<lambda>i. pending_row (wf_ID wk) i now stored) (executions (db w)) = Inr (i, t)" for i t stored
    using wk by (intro db_ok_create_execution [OF ok that, of "wf_ID wk"]) (simp_all add: pending_row_def)
  then show ?thesis using ok by (auto simp: trigger_eq split: sum.split option.split)
qed

lemma found_rows:
  assumes ok: "db_ok (db w)" and f: "db_find (sc_find so) (sc_order so) scheduled (workflows (db w)) = Inr wks"
    and o: "\<And>xs. set (sc_order so xs) = set xs" and wk: "wk \<in> set wks"
  shows "lookup (workflows (db w)) (db_key (wf_ID wk)) \<noteq> None"
proof -
  have t: "table_ok wf_ID (workflows (db w))" using ok by (simp add: db_ok_def)
  have "wk \<in> snd ` set (rows (workflows (db w)))"
    using f o wk by (auto simp: db_find_def split: option.splits)
  then obtain k where "lookup (workflows (db w)) k = Some wk" using lookup_range [OF t] by blast
  then show ?thesis using lookup_key_eq [OF t] by auto
qed

text \<open>With no failure, each trigger appends a row and its message.\<close>

definition no_sched_faults :: "sched_oracle \<Rightarrow> bool" where
  "no_sched_faults so \<longleftrightarrow> sc_find so = None \<and> (\<forall>n. sc_create so n = None \<and> sc_publish so n = None) \<and>
     (\<forall>xs. mset (sc_order so xs) = mset xs)"

lemma pending_row_simps: "ex_WorkflowID (pending_row wid i now st) = wid" "ex_Status (pending_row wid i now st) = ''pending''"
  "ex_TriggerPayload (pending_row wid i now st) = st"
  by (simp_all add: pending_row_def)

definition row_message :: "int \<times> execution \<Rightarrow> ExecutionMessage" where
  "row_message r = \<lparr>em_ExecutionID = ex_ID (snd r), em_WorkflowID = ex_WorkflowID (snd r),
     em_TriggerPayload = schedule_payload\<rparr>"

lemma trigger_all_rows:
  assumes "no_sched_faults so" and "jsonb schedule_payload = Inr stored"
    and "next_key (executions (db w)) + int (length wks) \<le> key_limit"
  shows "\<exists>new. rows (executions (db (trigger_all jsonb so n wks w))) = rows (executions (db w)) @ new \<and>
    map (ex_WorkflowID \<circ> snd) new = map wf_ID wks \<and>
    (\<forall>r \<in> set new. ex_Status (snd r) = ''pending'' \<and> ex_TriggerPayload (snd r) = stored) \<and>
    mq (trigger_all jsonb so n wks w) = mq w @ map (\<lambda>r. publication [] (row_message r)) new"
  using assms(3)
proof (induction wks arbitrary: n w)
  case (Cons wk wks)
  let ?i = "word_of_int (next_key (executions (db w))) :: uint64"
  let ?r = "(next_key (executions (db w)), pending_row (wf_ID wk) ?i (sc_now so n) stored)"
  let ?w = "trigger jsonb (sc_create so n) (sc_publish so n) (sc_now so n) wk w"
  have c: "db_create None (\<lambda>i. pending_row (wf_ID wk) i (sc_now so n) stored) (executions (db w)) =
      Inr (?i, insert_row (\<lambda>i. pending_row (wf_ID wk) i (sc_now so n) stored) (executions (db w)))"
    using Cons.prems by (simp add: db_create_def)
  have m: "queued_message (schedule_req wk) ?i = row_message ?r"
    by (simp add: queued_message_def schedule_req_def row_message_def pending_row_def trigger_payload_def schedule_payload_def)
  have w: "?w = (set_executions (insert_row (\<lambda>i. pending_row (wf_ID wk) i (sc_now so n) stored) (executions (db w))) w)
      \<lparr>mq := mq w @ [publication [] (row_message ?r)]\<rparr>"
    using assms(1,2) c m by (simp add: trigger_eq no_sched_faults_def)
  have e: "rows (executions (db ?w)) = rows (executions (db w)) @ [?r]"
    "next_key (executions (db ?w)) = next_key (executions (db w)) + 1"
    "mq ?w = mq w @ [publication [] (row_message ?r)]"
    unfolding w by (simp_all add: insert_row_def)
  have "next_key (executions (db ?w)) + int (length wks) \<le> key_limit" using Cons.prems e(2) by simp
  from Cons.IH [OF this, of "Suc n"] obtain new where n:
    "rows (executions (db (trigger_all jsonb so (Suc n) wks ?w))) = rows (executions (db ?w)) @ new"
    "map (ex_WorkflowID \<circ> snd) new = map wf_ID wks"
    "\<forall>r \<in> set new. ex_Status (snd r) = ''pending'' \<and> ex_TriggerPayload (snd r) = stored"
    "mq (trigger_all jsonb so (Suc n) wks ?w) = mq ?w @ map (\<lambda>r. publication [] (row_message r)) new"
    by blast
  show ?case
  proof (intro exI [of _ "?r # new"] conjI)
    show "rows (executions (db (trigger_all jsonb so n (wk # wks) w))) = rows (executions (db w)) @ ?r # new"
      by (simp only: trigger_all.simps n(1) e(1) append_assoc append.simps)
    show "map (ex_WorkflowID \<circ> snd) (?r # new) = map wf_ID (wk # wks)"
      by (simp add: pending_row_simps n(2) [unfolded comp_def] comp_def)
    show "\<forall>r \<in> set (?r # new). ex_Status (snd r) = ''pending'' \<and> ex_TriggerPayload (snd r) = stored"
      using n(3) by (simp add: pending_row_simps)
    show "mq (trigger_all jsonb so n (wk # wks) w) = mq w @ map (\<lambda>r. publication [] (row_message r)) (?r # new)"
      by (simp only: trigger_all.simps n(4) e(3) append_assoc append.simps list.map)
  qed
qed simp

lemma schedule_payload_utf8: "valid_utf8 schedule_payload"
  by code_simp

text \<open>C22: a check triggers exactly what is due: when nothing fails, it creates one pending
  execution for each live, active workflow with a schedule whose configuration parses and
  whose expression fires now, and for nothing else; and it publishes one message for each of them, in the same order, which a
  worker decodes to that execution and that workflow.\<close>

theorem check_triggers_due:
  assumes "no_sched_faults so" and "jsonb schedule_payload = Inr stored"
    and "next_key (executions (db w)) + int (length (rows (workflows (db w)))) \<le> key_limit"
  shows "\<exists>new. rows (executions (db (checkAndTrigger parse_cron nxt jsonb so t w))) = rows (executions (db w)) @ new \<and>
    mset (map (ex_WorkflowID \<circ> snd) new) =
      image_mset wf_ID (mset (filter (\<lambda>wk. scheduled wk \<and> due parse_cron nxt t wk) (map snd (rows (workflows (db w)))))) \<and>
    (\<forall>r \<in> set new. ex_Status (snd r) = ''pending'' \<and> ex_TriggerPayload (snd r) = stored) \<and>
    (\<exists>ps. mq (checkAndTrigger parse_cron nxt jsonb so t w) = mq w @ ps \<and>
       map (\<lambda>p. (pub_exchange p, pub_key p, unmarshal_message (pub_body p))) ps =
       map (\<lambda>r. (Exchange, RoutingKeyRun, Some (row_message r))) new)"
proof -
  define all where "all = sc_order so (filter scheduled (map snd (rows (workflows (db w)))))"
  define ds where "ds = filter (due parse_cron nxt t) all"
  have e: "checkAndTrigger parse_cron nxt jsonb so t w = trigger_all jsonb so 0 ds w"
    using assms(1) by (simp add: checkAndTrigger_def db_find_def no_sched_faults_def check_loop_due ds_def all_def)
  have ma: "mset all = mset (filter scheduled (map snd (rows (workflows (db w)))))"
    using assms(1) by (simp add: all_def no_sched_faults_def)
  have "length ds \<le> length all" by (simp add: ds_def)
  also have "length all \<le> length (rows (workflows (db w)))"
    using mset_eq_length [OF ma] length_filter_le [of scheduled "map snd (rows (workflows (db w)))"] by simp
  finally have "next_key (executions (db w)) + int (length ds) \<le> key_limit" using assms(3) by simp
  from trigger_all_rows [where jsonb = jsonb and so = so and stored = stored and n = 0 and w = w and wks = ds,
      OF assms(1,2) this] obtain new where n:
    "rows (executions (db (trigger_all jsonb so 0 ds w))) = rows (executions (db w)) @ new"
    "map (ex_WorkflowID \<circ> snd) new = map wf_ID ds"
    "\<forall>r \<in> set new. ex_Status (snd r) = ''pending'' \<and> ex_TriggerPayload (snd r) = stored"
    "mq (trigger_all jsonb so 0 ds w) = mq w @ map (\<lambda>r. publication [] (row_message r)) new"
    by blast
  have ids: "mset (map (ex_WorkflowID \<circ> snd) new) = image_mset wf_ID
      (mset (filter (\<lambda>wk. scheduled wk \<and> due parse_cron nxt t wk) (map snd (rows (workflows (db w))))))"
    unfolding n(2) ds_def by (simp add: ma filter_filter_mset conj_commute)
  have u: "unmarshal_message (marshal_message (row_message r)) = Some (row_message r)" for r
    by (rule unmarshal_marshal_message) (simp add: row_message_def schedule_payload_utf8)
  show ?thesis
    unfolding e using n(1,3,4) ids u
    by (intro exI [of _ new] conjI exI [of _ "map (\<lambda>r. publication [] (row_message r)) new"])
      (simp_all add: publication_def)
qed


definition sample_sched :: sched_oracle where
  "sample_sched = \<lparr>sc_find = None, sc_order = (\<lambda>xs. xs), sc_create = (\<lambda>n. None), sc_publish = (\<lambda>n. None), sc_now = (\<lambda>n. 3)\<rparr>"

definition scheduled_workflow :: workflow where
  \<open>scheduled_workflow = \<lparr>wf_ID = 1, wf_DeletedAt = None, wf_UserID = [], wf_Name = ''w'', wf_TriggerType = ''schedule'',
     wf_TriggerConfig = ''{"cron": "*/5 * * * *"}'', wf_Steps = ''[]'', wf_IsActive = True\<rparr>\<close>

theorem check_triggers_due_witness:
  "length (rows (executions (db (checkAndTrigger (\<lambda>c. Inr ()) sample_next Inr sample_sched (600 * second)
     (empty_world\<lparr>db := (db empty_world)\<lparr>workflows := \<lparr>rows = [(1, scheduled_workflow)], next_key = 2\<rparr>\<rparr>\<rparr>))))) = 1"
proof -
  let ?w = "empty_world\<lparr>db := (db empty_world)\<lparr>workflows := \<lparr>rows = [(1, scheduled_workflow)], next_key = 2\<rparr>\<rparr>\<rparr>"
  have f: "no_sched_faults sample_sched" by (simp add: no_sched_faults_def sample_sched_def)
  have k: "next_key (executions (db ?w)) + int (length (rows (workflows (db ?w)))) \<le> key_limit"
    by (simp add: empty_world_def empty_table_def key_limit_def)
  have c: "unmarshal_cron (wf_TriggerConfig scheduled_workflow) = Some ''*/5 * * * *''" by code_simp
  have s: "schedule_of (\<lambda>c. Inr ()) scheduled_workflow = Some ()" by (simp add: schedule_of_def c)
  have m: "truncate_minute (600 * second) = 600 * second"
    by (simp add: truncate_minute_def minute_def second_def)
  have "fires sample_next () (600 * second)"
    unfolding fires_matches [OF sample_cron] m by (simp add: sample_matches_def minute_def second_def)
  then have d: "due (\<lambda>c. Inr ()) sample_next (600 * second) scheduled_workflow" by (simp add: due_def s)
  have l: "scheduled scheduled_workflow" by (simp add: scheduled_def scheduled_workflow_def live_wf_def)
  obtain new where n: "rows (executions (db (checkAndTrigger (\<lambda>c. Inr ()) sample_next Inr sample_sched (600 * second) ?w))) = rows (executions (db ?w)) @ new"
    "mset (map (ex_WorkflowID \<circ> snd) new) = image_mset wf_ID (mset (filter (\<lambda>wk. scheduled wk \<and>
       due (\<lambda>c. Inr ()) sample_next (600 * second) wk) (map snd (rows (workflows (db ?w))))))"
    using check_triggers_due [where jsonb = Inr and stored = schedule_payload and w = ?w and parse_cron = "\<lambda>c. Inr ()"
        and nxt = sample_next and t = "600 * second", OF f refl k] by blast
  have "size (mset (map (ex_WorkflowID \<circ> snd) new)) = 1" unfolding n(2) using d l by simp
  then show ?thesis unfolding n(1) by (simp add: empty_world_def empty_table_def)
qed

end
