(* ===== verification/System.thy ===== *)
theory System
  imports GatewayProps WorkerProps SchedulerProps
begin

section \<open>The system: all services on one state\<close>

text \<open>
  The gateway, its workers, the execution engine and the scheduler share the database, the
  broker, the cache and the channels. A step of the system is a request to the gateway, the
  expiry of a cache entry, a check of the scheduler, a delivery of a published message to a worker, which
  calls the engine, or a streaming call of the engine. A published message can be delivered at
  any time and any number of times, with any headers: RabbitMQ delivers at least once, and the
  retry loop delivers again. Steps are atomic: the model interleaves the services' operations, not the single
  database calls inside them.
\<close>

subsection \<open>Transition systems\<close>

text \<open>What the proofs about all reachable states use of the steps.\<close>

locale invariant_of =
  fixes step :: "'w \<Rightarrow> 'w \<Rightarrow> bool" and inv :: "'w \<Rightarrow> bool"
  assumes kept: "step w w' \<Longrightarrow> inv w \<Longrightarrow> inv w'"
begin

lemma reachable: "rtranclp step w w' \<Longrightarrow> inv w \<Longrightarrow> inv w'"
  by (induction rule: rtranclp_induct) (auto intro: kept)

end

locale history_of = invariant_of step inv
  for step :: "'w \<Rightarrow> 'w \<Rightarrow> bool" and inv :: "'w \<Rightarrow> bool" +
  fixes keeps :: "'w \<Rightarrow> 'w \<Rightarrow> bool"
  assumes step_keeps: "step w w' \<Longrightarrow> inv w \<Longrightarrow> keeps w w'"
    and keeps_refl: "keeps w w"
    and keeps_trans: "keeps u v \<Longrightarrow> keeps v w \<Longrightarrow> keeps u w"
begin

lemma reachable_keeps: "rtranclp step w w' \<Longrightarrow> inv w \<Longrightarrow> keeps w w'"
proof (induction rule: rtranclp_induct)
  case base
  show ?case by (rule keeps_refl)
next
  case (step v w')
  then show ?case using step_keeps [OF step.hyps(2) reachable [OF step.hyps(1)]] keeps_trans by blast
qed

end

subsection \<open>What is kept of executions, step logs and messages\<close>

text \<open>Only the status and the end of an execution ever change.\<close>

definition same_execution :: "execution \<Rightarrow> execution \<Rightarrow> bool" where
  "same_execution ex ex' \<longleftrightarrow> ex_ID ex' = ex_ID ex \<and> ex_DeletedAt ex' = ex_DeletedAt ex \<and>
     ex_WorkflowID ex' = ex_WorkflowID ex \<and> ex_StartedAt ex' = ex_StartedAt ex \<and> ex_TriggerPayload ex' = ex_TriggerPayload ex"

definition statuses :: "string list" where
  "statuses = [''pending'', ''running'', ''success'', ''failed'']"

definition row_ok :: "execution \<Rightarrow> bool" where
  "row_ok ex \<longleftrightarrow> live_ex ex \<and> ex_Status ex \<in> set statuses \<and>
     (ex_Status ex \<in> {''success'', ''failed''} \<longrightarrow> ex_FinishedAt ex \<noteq> None)"

definition rows_ok :: "world \<Rightarrow> bool" where
  "rows_ok w \<longleftrightarrow> (\<forall>k ex. lookup (executions (db w)) k = Some ex \<longrightarrow> row_ok ex)"

text \<open>The message of an execution that exists, for its workflow, routed to the run queue.\<close>

definition message_ok :: "database \<Rightarrow> publishing \<Rightarrow> bool" where
  "message_ok d p \<longleftrightarrow> pub_exchange p = Exchange \<and> pub_key p = RoutingKeyRun \<and>
     (\<exists>msg ex. unmarshal_message (pub_body p) = Some msg \<and> lookup (executions d) (sint (em_ExecutionID msg)) = Some ex \<and>
        live_ex ex \<and> ex_WorkflowID ex = em_WorkflowID msg)"

definition sys_ok :: "world \<Rightarrow> bool" where
  "sys_ok w \<longleftrightarrow> gateway_ok w \<and> rows_ok w \<and> (\<forall>p \<in> set (mq w). message_ok (db w) p)"

definition history :: "world \<Rightarrow> world \<Rightarrow> bool" where
  "history w w' \<longleftrightarrow>
     (\<forall>k ex. lookup (executions (db w)) k = Some ex \<longrightarrow> (\<exists>ex'. lookup (executions (db w')) k = Some ex' \<and> same_execution ex ex')) \<and>
     (\<forall>k l. lookup (step_logs (db w)) k = Some l \<longrightarrow> lookup (step_logs (db w')) k = Some l) \<and>
     (\<exists>ps. mq w' = mq w @ ps)"

lemma same_execution_refl [simp]: "same_execution ex ex"
  by (simp add: same_execution_def)

lemma same_execution_trans: "same_execution a b \<Longrightarrow> same_execution b c \<Longrightarrow> same_execution a c"
  by (simp add: same_execution_def)

lemma same_execution_fields: "same_execution ex ex' \<Longrightarrow> ex_WorkflowID ex' = ex_WorkflowID ex \<and> live_ex ex' = live_ex ex"
  by (simp add: same_execution_def live_ex_def)

lemma history_refl: "history w w"
  by (auto simp: history_def)

lemma historyD:
  assumes "history w w'"
  shows "lookup (executions (db w)) k = Some ex \<Longrightarrow> \<exists>ex'. lookup (executions (db w')) k = Some ex' \<and> same_execution ex ex'"
    and "lookup (step_logs (db w)) k = Some l \<Longrightarrow> lookup (step_logs (db w')) k = Some l"
    and "\<exists>ps. mq w' = mq w @ ps"
  using assms by (simp_all add: history_def)

lemma history_trans:
  assumes a: "history u v" and b: "history v w"
  shows "history u w"
  unfolding history_def
proof (intro conjI allI impI)
  fix k ex assume "lookup (executions (db u)) k = Some ex"
  then obtain ex' where x: "lookup (executions (db v)) k = Some ex'" "same_execution ex ex'" using historyD(1) [OF a] by blast
  then obtain ex'' where "lookup (executions (db w)) k = Some ex''" "same_execution ex' ex''" using historyD(1) [OF b] by blast
  with x(2) show "\<exists>ex'. lookup (executions (db w)) k = Some ex' \<and> same_execution ex ex'" using same_execution_trans by blast
next
  fix k l assume "lookup (step_logs (db u)) k = Some l"
  then show "lookup (step_logs (db w)) k = Some l" using historyD(2) [OF a] historyD(2) [OF b] by simp
next
  show "\<exists>ps. mq w = mq u @ ps" using historyD(3) [OF a] historyD(3) [OF b] by auto
qed

lemma history_message:
  assumes h: "history w w'" and m: "message_ok (db w) p"
  shows "message_ok (db w') p"
proof -
  obtain msg ex where x: "unmarshal_message (pub_body p) = Some msg"
    "lookup (executions (db w)) (sint (em_ExecutionID msg)) = Some ex" "live_ex ex" "ex_WorkflowID ex = em_WorkflowID msg"
    using m by (auto simp: message_ok_def)
  obtain ex' where y: "lookup (executions (db w')) (sint (em_ExecutionID msg)) = Some ex'" "same_execution ex ex'"
    using historyD(1) [OF h x(2)] by blast
  then show ?thesis using m x same_execution_fields [OF y(2)] by (auto simp: message_ok_def)
qed

text \<open>One step: history is kept, new rows and new messages are in order.\<close>

lemma sys_okI:
  assumes "sys_ok w" and "gateway_ok w'" and "history w w'" and "rows_ok w'"
    and "\<And>p. p \<in> set (mq w') \<Longrightarrow> p \<in> set (mq w) \<or> message_ok (db w') p"
  shows "sys_ok w'"
  using assms history_message unfolding sys_ok_def by blast

lemma sys_ok_same:
  assumes "sys_ok w" and "gateway_ok w'" and "executions (db w') = executions (db w)"
    and "step_logs (db w') = step_logs (db w)" and "mq w' = mq w"
  shows "sys_ok w' \<and> history w w'"
proof -
  have h: "history w w'" using assms(3-5) by (simp add: history_def)
  moreover have "rows_ok w'" using assms(1,3) by (simp add: sys_ok_def rows_ok_def)
  ultimately show ?thesis using sys_okI [OF assms(1,2)] assms(5) by simp
qed

lemma gateway_ok_frame:
  assumes "gateway_ok w" and "db_ok (db w')" and "workflows (db w') = workflows (db w)" and "cache w' = cache w"
  shows "gateway_ok w'"
  using assms by (simp add: gateway_ok_def cache_ok_def coherent_def cache_look_def cached_truth_def)

subsection \<open>Triggering\<close>

text \<open>A new pending row, with or without its message.\<close>

lemma sys_ok_pending:
  assumes ok: "sys_ok w" and c: "db_create f (\<lambda>i. pending_row wid i now stored) (executions (db w)) = Inr (i, t)"
    and w': "w' = set_executions t w \<or> w' = (set_executions t w)\<lparr>mq := mq w @ [p]\<rparr>" and g: "gateway_ok w'"
    and p: "pub_exchange p = Exchange" "pub_key p = RoutingKeyRun" "unmarshal_message (pub_body p) = Some msg"
      "em_ExecutionID msg = i" "em_WorkflowID msg = wid"
  shows "sys_ok w' \<and> history w w'"
proof -
  have d: "db_ok (db w)" using ok by (simp add: sys_ok_def gateway_ok_def)
  note n = pending_created [OF d c]
  have x: "executions (db w') = t" "step_logs (db w') = step_logs (db w)" using w' by auto
  have h: "history w w'"
    unfolding history_def
  proof (intro conjI allI impI)
    show "\<exists>ex'. lookup (executions (db w')) k = Some ex' \<and> same_execution ex ex'"
      if "lookup (executions (db w)) k = Some ex" for k ex
      using that n(1,2) x(1) by auto
    show "\<exists>ps. mq w' = mq w @ ps" using w' by auto
  qed (simp add: x)
  have "rows_ok w'"
    using ok n(2) by (auto simp: rows_ok_def sys_ok_def x pending_row_def row_ok_def live_ex_def statuses_def)
  moreover have "message_ok (db w') p"
    using p n(2) x by (auto simp: message_ok_def pending_row_def live_ex_def)
  moreover have "q \<in> set (mq w) \<or> q = p" if "q \<in> set (mq w')" for q using that w' by auto
  ultimately have "sys_ok w'" by (intro sys_okI [OF ok g h]) blast+
  with h show ?thesis by blast
qed

lemma sys_ok_trigger:
  assumes ok: "sys_ok w" and t: "TriggerWorkflow jsonb inject now F req w = (r, w')" and u: "valid_utf8 (tr_Payload req)"
  shows "sys_ok w' \<and> history w w'"
proof -
  have g: "gateway_ok w'" using TriggerWorkflow_ok [OF _ t] ok by (simp add: sys_ok_def)
  have "valid_utf8 ''{}''" by code_simp
  then have "valid_utf8 (trigger_payload req)" using u unfolding trigger_payload_def by (simp only: split: if_split) simp
  then have m: "unmarshal_message (marshal_message (queued_message req i)) = Some (queued_message req i)" for i
    by (intro unmarshal_marshal_message) (simp add: queued_message_def)
  show ?thesis
    using t
  proof (cases rule: TriggerWorkflow_cases)
    case (enqueue wk stored i t e)
    show ?thesis
      by (rule sys_ok_pending [OF ok enqueue(3), of w' "publication inject (queued_message req i)" "queued_message req i"])
        (use enqueue g m in \<open>simp_all add: publication_def queued_message_def\<close>)
  next
    case (queued wk stored i t)
    show ?thesis
      by (rule sys_ok_pending [OF ok queued(3), of w' "publication inject (queued_message req i)" "queued_message req i"])
        (use queued g m in \<open>simp_all add: publication_def queued_message_def\<close>)
  qed (use ok history_refl in simp_all)
qed


subsection \<open>Running\<close>

lemma record_outcome_logs_kept:
  assumes "db_ok (db w)" and "lookup (step_logs (db w)) k = Some l"
  shows "lookup (step_logs (db (record_outcome jsonb ro ex wid n oc w))) k = Some l"
proof -
  have t: "table_ok sl_ID (step_logs (db w))" using assms(1) by (simp add: db_ok_def)
  show ?thesis
    using rs.look_ins_some [OF t assms(2)] assms(2) db_createD(2)
    by (fastforce simp: record_outcome_eq Let_def split: option.split sum.split)
qed

lemma record_all_logs_kept:
  assumes "db_ok (db w)" and "lookup (executions (db w)) (db_key (ex_ID ex)) \<noteq> None"
    and "lookup (step_logs (db w)) k = Some l"
  shows "lookup (step_logs (db (record_all jsonb ro ex wid n ocs w))) k = Some l"
  using assms
  by (induction ocs arbitrary: n w) (simp_all add: record_outcome_ok record_outcome_logs_kept)

lemma run_final_logs_kept:
  assumes "db_ok (db w)" and "lookup (executions (db w)) (db_key (ex_ID ex)) \<noteq> None"
    and "lookup (step_logs (db w)) k = Some l"
  shows "lookup (step_logs (db (run_final lib jsonb rdb ro wk ex w))) k = Some l"
proof -
  have "db_ok (db (mark_running ro ex w))"
    unfolding mark_running_def by (rule set_status_ok [OF assms(1)]) simp_all
  moreover have "lookup (executions (db (mark_running ro ex w))) (db_key (ex_ID ex)) \<noteq> None"
    using assms(2) by (simp add: mark_running_def set_status_exists)
  moreover have "lookup (step_logs (db (mark_running ro ex w))) k = Some l"
    using assms(3) by (simp add: mark_running_def)
  ultimately show ?thesis by (simp add: run_final_def record_all_logs_kept)
qed

lemma final_row_ok:
  assumes "row_ok ex"
  shows "row_ok (final_row ro (run_status ocs) ex)" and "same_execution ex (final_row ro (run_status ocs) ex)"
proof -
  have "run_status ocs \<in> {''success'', ''failed''}" by (simp add: run_status_def split: option.split)
  then have "run_status ocs \<in> set statuses" by (auto simp: statuses_def)
  moreover have "''running'' \<in> set statuses" by (simp add: statuses_def)
  ultimately show "row_ok (final_row ro (run_status ocs) ex)"
    using assms by (simp add: row_ok_def final_row_def live_ex_def)
  show "same_execution ex (final_row ro (run_status ocs) ex)" by (simp add: final_row_def same_execution_def)
qed

lemma sys_ok_run:
  assumes ok: "sys_ok w" and r: "RunExecution lib jsonb scan_uid rdb ro req w = (res, w')"
  shows "sys_ok w' \<and> history w w'"
proof (cases res)
  case (Inl e)
  then have "w' = w" using r by (auto simp: RunExecution_spec split: sum.splits)
  then show ?thesis using ok history_refl by simp
next
  case (Inr resp)
  have g: "gateway_ok w" and d: "db_ok (db w)" and ro: "rows_ok w"
    and m: "\<forall>p \<in> set (mq w). message_ok (db w) p" using ok by (simp_all add: sys_ok_def gateway_ok_def)
  show ?thesis
  proof (rule RunExecution_done [OF d r [unfolded Inr]])
    fix wk ex
    assume h: "lookup (executions (db w)) (sint (rq_ExecutionId req)) = Some ex" "live_ex ex"
      "db_key (ex_ID ex) = sint (rq_ExecutionId req)" "w' = run_final lib jsonb rdb ro wk ex w"
    note x = run_final_executions [OF h(1-3), of lib jsonb rdb ro wk, folded h(4)]
    have e: "row_ok ex" using ro h(1) by (simp add: rows_ok_def)
    have k: "lookup (executions (db w)) (db_key (ex_ID ex)) \<noteq> None" using h(1,3) by simp
    have d': "db_ok (db w')" using run_final_ok [OF d k] h(4) by simp
    have g': "gateway_ok w'" by (rule gateway_ok_frame [OF g d']) (simp_all add: h(4))
    have hi: "history w w'"
      unfolding history_def
    proof (intro conjI allI impI)
      show "\<exists>ex''. lookup (executions (db w')) j = Some ex'' \<and> same_execution ex' ex''"
        if "lookup (executions (db w)) j = Some ex'" for j ex'
        using that x [of j] final_row_ok(2) [OF e] h(1) by auto
      show "lookup (step_logs (db w')) j = Some l" if "lookup (step_logs (db w)) j = Some l" for j l
        using run_final_logs_kept [OF d k that] h(4) by simp
      show "\<exists>ps. mq w' = mq w @ ps" by (simp add: h(4))
    qed
    have "rows_ok w'" using ro x final_row_ok(1) [OF e] by (simp add: rows_ok_def)
    moreover have "mq w' = mq w" by (simp add: h(4))
    ultimately show ?thesis using hi sys_okI [OF ok g' hi] by simp
  qed
qed

lemma stream_world: "snd (snd (StreamExecution lib jsonb scan_uid rdb ro req w)) = snd (RunExecution lib jsonb scan_uid rdb ro req w)"
  by (simp add: RunExecution_spec StreamExecution_spec Let_def split: sum.split)

lemma sys_ok_handle:
  assumes ok: "sys_ok w" and h: "handle (engine lib jsonb scan_uid ro) fault d w = (v, req, w')"
  shows "sys_ok w' \<and> history w w'"
proof -
  have "w' = w \<or> (\<exists>q res. RunExecution lib jsonb scan_uid True ro q w = (res, w'))"
    using h by (cases rule: handle_cases [where d = d and fault = fault and w = w and rpc = "engine lib jsonb scan_uid ro"]) (auto simp: engine_def)
  then show ?thesis using ok history_refl sys_ok_run [OF ok] by blast
qed

subsection \<open>Scheduling\<close>

lemma sys_ok_sched_trigger:
  assumes ok: "sys_ok w" and wk: "lookup (workflows (db w)) (db_key (wf_ID wk)) \<noteq> None"
  shows "sys_ok (trigger jsonb ce pe now wk w) \<and> history w (trigger jsonb ce pe now wk w)"
proof (cases "\<exists>stored i t. jsonb schedule_payload = Inr stored \<and>
    db_create ce (\<lambda>i. pending_row (wf_ID wk) i now stored) (executions (db w)) = Inr (i, t)")
  case True
  then obtain stored i t where j: "jsonb schedule_payload = Inr stored"
    and c: "db_create ce (\<lambda>i. pending_row (wf_ID wk) i now stored) (executions (db w)) = Inr (i, t)" by blast
  have g0: "gateway_ok w" and d: "db_ok (db w)" using ok by (simp_all add: sys_ok_def gateway_ok_def)
  have g: "gateway_ok (trigger jsonb ce pe now wk w)"
    by (rule gateway_ok_frame [OF g0 trigger_ok [OF d wk]]) simp_all
  have p: "trigger_payload (schedule_req wk) = schedule_payload" "tr_WorkflowId (schedule_req wk) = wf_ID wk"
    by (simp_all add: trigger_payload_def schedule_req_def schedule_payload_def)
  have m: "unmarshal_message (marshal_message (queued_message (schedule_req wk) i)) = Some (queued_message (schedule_req wk) i)"
    by (rule unmarshal_marshal_message) (simp add: queued_message_def p schedule_payload_utf8)
  have e: "trigger jsonb ce pe now wk w = (case pe of Some e \<Rightarrow> set_executions t w
      | None \<Rightarrow> (set_executions t w)\<lparr>mq := mq w @ [publication [] (queued_message (schedule_req wk) i)]\<rparr>)"
    by (simp add: trigger_eq j c)
  show ?thesis
    by (rule sys_ok_pending [OF ok c _ g, of "publication [] (queued_message (schedule_req wk) i)" "queued_message (schedule_req wk) i"])
      (use e m in \<open>simp_all add: publication_def queued_message_def p split: option.split\<close>)
next
  case False
  then have "trigger jsonb ce pe now wk w = w" by (auto simp: trigger_eq split: sum.split)
  then show ?thesis using ok history_refl by simp
qed

lemma sys_ok_trigger_all:
  assumes "sys_ok w" and "\<forall>wk \<in> set wks. lookup (workflows (db w)) (db_key (wf_ID wk)) \<noteq> None"
  shows "sys_ok (trigger_all jsonb so n wks w) \<and> history w (trigger_all jsonb so n wks w)"
  using assms
proof (induction wks arbitrary: n w)
  case (Cons wk wks)
  let ?w = "trigger jsonb (sc_create so n) (sc_publish so n) (sc_now so n) wk w"
  have s: "sys_ok ?w \<and> history w ?w" using Cons.prems by (intro sys_ok_sched_trigger) simp_all
  have "\<forall>wk \<in> set wks. lookup (workflows (db ?w)) (db_key (wf_ID wk)) \<noteq> None" using Cons.prems(2) by simp
  from Cons.IH [OF conjunct1 [OF s] this] s show ?case using history_trans by fastforce
qed (simp add: history_refl)

lemma sys_ok_check:
  assumes ok: "sys_ok w" and o: "\<And>xs. set (sc_order so xs) = set xs"
  shows "sys_ok (checkAndTrigger parse_cron nxt jsonb so t w) \<and> history w (checkAndTrigger parse_cron nxt jsonb so t w)"
proof (cases "db_find (sc_find so) (sc_order so) scheduled (workflows (db w))")
  case (Inl e)
  with ok show ?thesis by (simp add: checkAndTrigger_def history_refl)
next
  case (Inr wks)
  have "db_ok (db w)" using ok by (simp add: sys_ok_def gateway_ok_def)
  then have "\<forall>wk \<in> set (filter (due parse_cron nxt t) wks). lookup (workflows (db w)) (db_key (wf_ID wk)) \<noteq> None"
    using found_rows [OF _ Inr o] by simp
  from sys_ok_trigger_all [OF ok this] show ?thesis using Inr by (simp add: checkAndTrigger_def check_loop_due)
qed


subsection \<open>Requests\<close>

definition same_runs :: "world \<Rightarrow> world \<Rightarrow> bool" where
  "same_runs w w' \<longleftrightarrow> executions (db w') = executions (db w) \<and> step_logs (db w') = step_logs (db w) \<and> mq w' = mq w"

lemma redis_runs [simp]: "mq (redis_setex f k v ttl w) = mq w" "mq (redis_del f k w) = mq w" "mq (set_workflows t w) = mq w"
  by (simp_all add: redis_setex_def redis_del_def set_workflows_def split: option.split)

lemma workflow_runs:
  "same_runs w (snd (CreateWorkflow jsonb F ctx cr w))" "same_runs w (snd (GetWorkflow F ctx i w))"
  "same_runs w (snd (UpdateWorkflow jsonb F ctx ur w))" "same_runs w (snd (DeleteWorkflow now F ctx i w))"
  by (auto simp: same_runs_def CreateWorkflow_def GetWorkflow_def UpdateWorkflow_def DeleteWorkflow_def Let_def
      split: sum.split option.split)

lemma handler_runs: "e \<noteq> TriggerE \<Longrightarrow> same_runs w (snd (handler_of env p e ctx w))"
  using workflow_runs [of w]
  by (cases e) (auto simp: reader_frame CreateWorkflowHandler_def GetWorkflowHandler_def UpdateWorkflowHandler_def
      DeleteWorkflowHandler_def case_prod_beta same_runs_def split: sum.split)

text \<open>The payload of a request is decoded from JSON, so it is UTF-8.\<close>

definition payload_utf8 :: "parsed \<Rightarrow> bool" where
  "payload_utf8 p \<longleftrightarrow> (case pq_trigger p of Inl e \<Rightarrow> True | Inr req \<Rightarrow> valid_utf8 (tr_Payload req))"

lemma sys_ok_handler:
  assumes ok: "sys_ok w" and f: "f_cdel (gw_faults env) = None" and u: "payload_utf8 p"
  shows "sys_ok (snd (handler_of env p e ctx w)) \<and> history w (snd (handler_of env p e ctx w))"
proof (cases "e = TriggerE")
  case True
  show ?thesis
  proof (cases "pq_trigger p")
    case (Inl err)
    with True ok show ?thesis by (simp add: TriggerWorkflowHandler_def history_refl)
  next
    case (Inr req)
    obtain r w' where t: "TriggerWorkflow (gw_jsonb env) (gw_inject env) (gw_now env) (gw_faults env) req w = (r, w')" by fastforce
    show ?thesis
      using sys_ok_trigger [OF ok t] u True Inr t by (simp add: TriggerWorkflowHandler_def payload_utf8_def)
  qed
next
  case False
  have "gateway_ok (snd (handler_of env p e ctx w))" using handler_ok [OF _ f] ok by (simp add: sys_ok_def)
  then show ?thesis using sys_ok_same [OF ok] handler_runs [OF False] by (simp add: same_runs_def)
qed

lemma serve_snd:
  "snd (serve encode jwt_parse kf env p meth pattern authorization ctx w) = w \<or>
   (\<exists>e ctx'. snd (serve encode jwt_parse kf env p meth pattern authorization ctx w) = snd (handler_of env p e ctx' w))"
proof (rule serve_cases [of meth pattern])
  fix e assume "(meth, pattern, e) \<in> set public_routes"
  then show ?thesis by (auto simp: serve_public respond_def)
next
  fix e assume r: "(meth, pattern, e) \<in> set protected_routes"
  show ?thesis
  proof (cases "\<exists>claims. accepted jwt_parse kf authorization claims")
    case True
    then obtain claims where a: "accepted jwt_parse kf authorization claims" ..
    have "snd (serve encode jwt_parse kf env p meth pattern authorization ctx w) = snd (handler_of env p e (claims_ctx claims ctx) w)"
      by (simp add: serve_accepted [OF a r] respond_def)
    then show ?thesis by blast
  next
    case False
    obtain msg where "Handle jwt_parse kf (\<lambda>ctx w. respond encode (handler_of env p e ctx w)) authorization ctx w =
        (writeUnauthorized msg, w)"
      using Handle_rejected [OF False, where nxt = "\<lambda>ctx w. respond encode (handler_of env p e ctx w)" and ctx = ctx and w = w] by blast
    then show ?thesis by (simp add: serve_protected [OF r])
  qed
next
  assume "\<nexists>e. (meth, pattern, e) \<in> set public_routes \<union> set protected_routes"
  then show ?thesis by (simp add: serve_unknown)
qed

lemma sys_ok_serve:
  assumes "sys_ok w" and "f_cdel (gw_faults env) = None" and "payload_utf8 p"
  shows "sys_ok (snd (serve encode jwt_parse kf env p meth pattern authorization ctx w)) \<and>
    history w (snd (serve encode jwt_parse kf env p meth pattern authorization ctx w))"
  using serve_snd [of encode jwt_parse kf env p meth pattern authorization ctx w] sys_ok_handler [OF assms] assms(1) history_refl
  by metis

subsection \<open>The steps of the system\<close>

text \<open>What is fixed while the services run.\<close>

record ('k, 's) services =
  sv_encode :: "reply \<Rightarrow> http_response"
  sv_jwt :: "'k \<Rightarrow> string \<Rightarrow> error + token"
  sv_keys :: "'k option"
  sv_lib :: golib
  sv_jsonb :: "string \<Rightarrow> error + string"
  sv_scan :: "string \<Rightarrow> error option"
  sv_cron :: "string \<Rightarrow> error + 's"
  sv_next :: "'s \<Rightarrow> time \<Rightarrow> time"

inductive sys_step :: "('k, 's) services \<Rightarrow> world \<Rightarrow> world \<Rightarrow> bool" for S where
  request: "f_cdel (gw_faults env) = None \<Longrightarrow> payload_utf8 p \<Longrightarrow>
    sys_step S w (snd (serve (sv_encode S) (sv_jwt S) (sv_keys S) env p meth pattern authorization ctx w))"
| expiry: "sys_step S w (cache_expire k w)"
| check: "(\<And>xs. set (sc_order so xs) = set xs) \<Longrightarrow>
    sys_step S w (checkAndTrigger (sv_cron S) (sv_next S) (sv_jsonb S) so t w)"
| delivery: "p \<in> set (mq w) \<Longrightarrow> dl_Body d = pub_body p \<Longrightarrow>
    handle (engine (sv_lib S) (sv_jsonb S) (sv_scan S) ro) fault d w = (v, req, w') \<Longrightarrow> sys_step S w w'"
| stream: "sys_step S w (snd (snd (StreamExecution (sv_lib S) (sv_jsonb S) (sv_scan S) True ro req w)))"

lemma sys_step_ok: "sys_step S w w' \<Longrightarrow> sys_ok w \<Longrightarrow> sys_ok w' \<and> history w w'"
proof (induction rule: sys_step.induct)
  case (expiry w k)
  then have "gateway_ok (cache_expire k w)" using expire_ok by (simp add: sys_ok_def)
  with expiry show ?case by (intro sys_ok_same) (simp_all add: cache_expire_def)
next
  case (stream w ro req)
  show ?case unfolding stream_world using sys_ok_run [OF stream surjective_pairing] by blast
qed (simp_all add: sys_ok_serve sys_ok_check sys_ok_handle)

interpretation sys: history_of "sys_step S" sys_ok history for S
  by unfold_locales (use sys_step_ok history_refl history_trans in blast)+

lemma sys_ok_empty: "sys_ok empty_world"
  using empty_ok by (simp add: sys_ok_def rows_ok_def empty_world_def empty_table_def lookup_def)


subsection \<open>Properties of every reachable state\<close>


text \<open>C26: history is never rewritten: in every run of the system an execution keeps its row, its workflow, its start
  and its payload, only its status and end can change; a step log, once written, stays as it is; and a published message stays
  published.\<close>

theorem system_history:
  assumes "rtranclp (sys_step S) w w'" and "sys_ok w"
  shows "(lookup (executions (db w)) k = Some ex \<longrightarrow> (\<exists>ex'. lookup (executions (db w')) k = Some ex' \<and>
      ex_ID ex' = ex_ID ex \<and> ex_DeletedAt ex' = ex_DeletedAt ex \<and> ex_WorkflowID ex' = ex_WorkflowID ex \<and>
      ex_StartedAt ex' = ex_StartedAt ex \<and> ex_TriggerPayload ex' = ex_TriggerPayload ex)) \<and>
    (lookup (step_logs (db w)) j = Some l \<longrightarrow> lookup (step_logs (db w')) j = Some l) \<and>
    (\<exists>ps. mq w' = mq w @ ps)"
  using sys.reachable_keeps [OF assms] unfolding history_def same_execution_def by blast

text \<open>C5: no message is lost unread: in every reachable state, a delivery of any published message, within the retries
  and with the database up, is passed on to the engine, with the keys of an existing live execution of
  the workflow: it is never dropped as malformed or as belonging to no execution, whatever the
  engine then answers.\<close>

theorem messages_reach_the_engine:
  assumes "rtranclp (sys_step S) w w'" and "sys_ok w" and "p \<in> set (mq w')" and "dl_Body d = pub_body p"
    and "deathCount (dl_Headers d) < MaxRetries"
  shows "\<exists>q ex v w''. handle rpc None d w' = (v, Some q, w'') \<and> w'' = snd (rpc q w') \<and> (v = Ack \<longleftrightarrow> \<not> isl (fst (rpc q w'))) \<and>
    lookup (executions (db w')) (sint (rq_ExecutionId q)) = Some ex \<and> live_ex ex \<and> ex_WorkflowID ex = rq_WorkflowId q \<and>
    lookup (workflows (db w')) (sint (rq_WorkflowId q)) \<noteq> None"
proof -
  have ok: "sys_ok w'" using sys.reachable [OF assms(1,2)] .
  then have d: "db_ok (db w')" and m: "message_ok (db w') p" using assms(3) by (simp_all add: sys_ok_def gateway_ok_def)
  obtain msg ex where x: "unmarshal_message (dl_Body d) = Some msg"
    "lookup (executions (db w')) (sint (em_ExecutionID msg)) = Some ex" "live_ex ex" "ex_WorkflowID ex = em_WorkflowID msg"
    using m assms(4) by (auto simp: message_ok_def)
  have t: "table_ok ex_ID (executions (db w'))" "table_ok wf_ID (workflows (db w'))" using d by (simp_all add: db_ok_def)
  have "ex_ID ex = em_ExecutionID msg" using row_sint [OF t(1) x(2)] by (rule signed_word_eqI)
  then have k: "db_key (em_ExecutionID msg) = sint (em_ExecutionID msg)" using lookup_key_eq [OF t(1) x(2)] by simp
  obtain wk where wk: "lookup (workflows (db w')) (db_key (em_WorkflowID msg)) = Some wk"
    using refs_okD(1) [OF d x(2)] x(4) by auto
  have "wf_ID wk = em_WorkflowID msg" using lookup_key_eq [OF t(2) wk] unfolding db_key_def by (rule word_uint_eqI)
  then have "sint (em_WorkflowID msg) = db_key (em_WorkflowID msg)" using row_sint [OF t(2) wk] by simp
  then have wf: "lookup (workflows (db w')) (sint (rq_WorkflowId (request_of msg))) \<noteq> None" using wk by (simp add: request_of_def)
  have f: "db_first None live_ex (executions (db w')) (db_key (em_ExecutionID msg)) = Inr ex"
    using x k by (simp add: db_first_None)
  obtain res w'' where r: "rpc (request_of msg) w' = (res, w'')" by fastforce
  have h: "handle rpc None d w' = ((case res of Inl e \<Rightarrow> Nack | Inr resp \<Rightarrow> Ack), Some (request_of msg), w'')"
    using assms(5) x(1) f r by (simp add: handle_def split: sum.split)
  show ?thesis
    by (rule exI [of _ "request_of msg"], rule exI [of _ ex], rule exI [of _ "case res of Inl e \<Rightarrow> Nack | Inr resp \<Rightarrow> Ack"],
        rule exI [of _ w'']) (use h x wf r in \<open>simp add: request_of_def split: sum.split\<close>)
qed


subsection \<open>From the webhook to the result\<close>

lemma written_logs_execution:
  "l \<in> set (written_logs jsonb ro xid n ocs) \<Longrightarrow> sl_ExecutionID l = xid"
  by (induction ocs arbitrary: n) (auto simp: log_row_def split: sum.splits option.splits if_splits)

lemma logs_of_execution:
  "map (\<lambda>l. l\<lparr>sl_ID := 0\<rparr>) (filter (\<lambda>s. sl_ExecutionID s = x) (map snd (rows (step_logs d)))) =
   filter (\<lambda>s. sl_ExecutionID s = x) (logs_of d)"
  by (simp add: logs_of_def filter_map comp_def case_prod_beta)

lemma no_logs_of_fresh:
  assumes ok: "db_ok (db w)" and f: "lookup (executions (db w)) (sint x) = None"
    and e: "sint x = next_key (executions (db w))" "next_key (executions (db w)) < key_limit"
  shows "filter (\<lambda>s. sl_ExecutionID s = x) (logs_of (db w)) = []"
proof -
  have t: "table_ok sl_ID (step_logs (db w))" "table_ok ex_ID (executions (db w))" using ok by (simp_all add: db_ok_def)
  have "1 \<le> sint x" using e(1) t(2) by (simp add: table_ok_def)
  then have "db_key (word_of_int (sint x)) = sint x" using e by (intro db_key_word) simp_all
  then have x: "db_key x = sint x" by simp
  have "sl_ExecutionID l \<noteq> x" if "(k, l) \<in> set (rows (step_logs (db w)))" for k l
    using that refs_okD(2) [OF ok] f x lookup_row [OF t(1)] by metis
  then show ?thesis unfolding logs_of_def by (fastforce simp: filter_empty_conv)
qed

text \<open>C2: the whole way of an execution: when a webhook has been answered with an execution's key and
  its message is delivered while the workflow can be loaded and every write of the run succeeds,
  the delivery is acknowledged and \<open>GET /executions/:id\<close> then shows the status of the abstract run of
  the workflow's steps and, up to their keys and order, exactly its step logs.\<close>

theorem webhook_to_result:
  assumes "gateway_ok w" and "TriggerWorkflow jsonb inject now F req w = (Inr resp, w1)" and "valid_utf8 (trigger_payload req)"
    and "lookup (workflows (db w)) (sint (tr_WorkflowId req)) = Some wk" and "scan_uid (wf_UserID wk) = None"
    and "ro_workflow ro = None" and "ro_execution ro = None" and "ro_finish ro = None"
    and "next_key (step_logs (db w)) + int (length (steps_of wk)) \<le> key_limit"
    and "dl_Body d = pub_body (last (mq w1))" and "deathCount (dl_Headers d) < MaxRetries"
    and "\<And>xs. mset (order xs) = mset xs" and "f_read G = None"
  shows "\<exists>w2 item. handle (engine lib jsonb scan_uid ro) None d w1 = (Ack, Some \<lparr>rq_ExecutionId = ts_ExecutionId resp,
        rq_WorkflowId = tr_WorkflowId req, rq_TriggerPayload = trigger_payload req\<rparr>, w2) \<and>
    GetExecution order zone None G (ts_ExecutionId resp) w2 = Inr item \<and>
    ei_Status item = run_status (run_of lib True ro wk) \<and>
    mset (map (\<lambda>l. l\<lparr>si_Id := 0\<rparr>) (ei_StepLogs item)) =
      image_mset toStepLogItem (mset (written_logs jsonb ro (ts_ExecutionId resp) 0 (run_of lib True ro wk)))"
  using assms(2)
proof (cases rule: TriggerWorkflow_cases)
  case (queued wk' stored i t)
  have ok: "db_ok (db w)" using assms(1) by (simp add: gateway_ok_def)
  note c = pending_created [OF ok queued(3)]
  let ?x = "ts_ExecutionId resp" and ?m = "queued_message req i"
  let ?ex = "pending_row (tr_WorkflowId req) i now stored" and ?ocs = "run_of lib True ro wk"
  have wk': "wk' = wk" "live_wf wk" using db_firstD [OF queued(1)] assms(4) by auto
  have x: "?x = i" using queued by simp
  have w1: "workflows (db w1) = workflows (db w)" "step_logs (db w1) = step_logs (db w)" "executions (db w1) = t"
    using queued by simp_all
  have ok1: "db_ok (db w1)" using TriggerWorkflow_ok [OF assms(1,2)] by (simp add: gateway_ok_def)
  have u: "unmarshal_message (dl_Body d) = Some ?m"
    unfolding assms(10) using queued assms(3) by (simp add: publication_def unmarshal_marshal_message queued_message_def)
  have e: "lookup (executions (db w1)) (sint (em_ExecutionID ?m)) = Some ?ex" "live_ex ?ex"
    unfolding w1(3) using c(2) by (simp_all add: queued_message_def pending_row_def live_ex_def)
  have l: "lookup (workflows (db w1)) (sint (em_WorkflowID ?m)) = Some wk" using assms(4) w1(1) by (simp add: queued_message_def)
  obtain w2 where h: "handle (engine lib jsonb scan_uid ro) None d w1 = (Ack, Some (request_of ?m), w2)"
    and e2: "lookup (executions (db w2)) (sint (em_ExecutionID ?m)) = Some (?ex\<lparr>ex_Status := run_status ?ocs, ex_FinishedAt := Some (ro_now ro)\<rparr>)"
    using settles [where lib = lib and jsonb = jsonb and scan_uid = scan_uid, OF assms(11) u ok1 e l wk'(2) assms(5-8)] by blast
  obtain resp' where r: "RunExecution lib jsonb scan_uid True ro (request_of ?m) w1 = (Inr resp', w2)"
    using h handle_engine [OF assms(11) u ok1 e, of lib jsonb scan_uid ro] by (auto split: prod.splits sum.splits)
  have rl: "lookup (workflows (db w1)) (sint (rq_WorkflowId (request_of ?m))) = Some wk"
    "next_key (step_logs (db w1)) + int (length (steps_of wk)) \<le> key_limit" "rq_ExecutionId (request_of ?m) = i"
    using l assms(9) w1(2) by (simp_all add: request_of_def queued_message_def)
  have logs: "logs_of (db w2) = logs_of (db w) @ written_logs jsonb ro i 0 ?ocs"
    using RunExecution_logs [OF ok1 r rl(1,2)] rl(3) w1(2) by (simp add: logs_of_def)
  have fr: "filter (\<lambda>s. sl_ExecutionID s = i) (logs_of (db w)) = []"
    using no_logs_of_fresh [OF ok c(1,3)] db_createD(3) [OF queued(3)] by simp
  let ?ls = "filter (\<lambda>s. sl_ExecutionID s = i) (map snd (rows (step_logs (db w2))))"
  have f: "map (\<lambda>l. l\<lparr>sl_ID := 0\<rparr>) ?ls = written_logs jsonb ro i 0 ?ocs"
    unfolding logs_of_execution logs filter_append fr using written_logs_execution by (auto simp: filter_id_conv)
  define item where "item = \<lparr>ei_Id = i, ei_Status = run_status ?ocs, ei_StartedAt = Format zone now, ei_StepLogs = map toStepLogItem (order ?ls)\<rparr>"
  have "GetExecution order zone None G i w2 = Inr item"
    using e2 assms(13) by (simp add: GetExecution_def db_first_None db_find_def item_def queued_message_def pending_row_def live_ex_def)
  moreover have "mset (map (\<lambda>l. l\<lparr>si_Id := 0\<rparr>) (ei_StepLogs item)) = image_mset toStepLogItem (mset (written_logs jsonb ro i 0 ?ocs))"
  proof -
    have z: "(toStepLogItem l)\<lparr>si_Id := 0\<rparr> = toStepLogItem (l\<lparr>sl_ID := 0\<rparr>)" for l
      by (simp add: toStepLogItem_def)
    have "mset (map (\<lambda>l. l\<lparr>si_Id := 0\<rparr>) (ei_StepLogs item)) = image_mset toStepLogItem (image_mset (\<lambda>l. l\<lparr>sl_ID := 0\<rparr>) (mset (order ?ls)))"
      by (simp add: item_def multiset.map_comp comp_def z)
    also have "image_mset (\<lambda>l. l\<lparr>sl_ID := 0\<rparr>) (mset (order ?ls)) = mset (written_logs jsonb ro i 0 ?ocs)"
      unfolding assms(12) f [symmetric] by simp
    finally show ?thesis .
  qed
  ultimately show ?thesis using h x by (intro exI [of _ w2] exI [of _ item]) (simp add: item_def request_of_def queued_message_def)
qed simp_all


subsection \<open>A sample run of the system\<close>

definition sample_services :: "(unit, unit) services" where
  "sample_services = \<lparr>sv_encode = sample_encode, sv_jwt = sample_jwt, sv_keys = Some (), sv_lib = sample_lib,
     sv_jsonb = Inr, sv_scan = (\<lambda>u. None), sv_cron = (\<lambda>c. Inr ()), sv_next = sample_next\<rparr>"

definition webhook_req :: TriggerReq where
  "webhook_req = \<lparr>tr_WorkflowId = 1, tr_Payload = []\<rparr>"

definition webhook_world :: world where
  "webhook_world = snd (TriggerWorkflow Inr [] 5 no_faults webhook_req engine_world)"

lemma webhook_triggers: "TriggerWorkflow Inr [] 5 no_faults webhook_req engine_world =
    (Inr \<lparr>ts_Message = ''execution queued'', ts_ExecutionId = 2\<rparr>, webhook_world)"
  unfolding webhook_world_def by (rule pair_fst) code_simp

lemma webhook_payload: "trigger_payload webhook_req = ''{}''" "tr_WorkflowId webhook_req = 1"
  by (simp_all add: trigger_payload_def webhook_req_def)

lemma webhook_mq: "mq webhook_world = [publication [] (queued_message webhook_req 2)]"
proof -
  have e: "mq engine_world = []" by (simp add: engine_world_def)
  show ?thesis
    using webhook_triggers
  proof (cases rule: TriggerWorkflow_cases)
    case (queued wk stored i t)
    then have "i = 2" by simp
    then show ?thesis unfolding queued(6) e by simp
  qed simp_all
qed

lemma engine_sys_ok: "sys_ok engine_world"
proof -
  have "cache_ok engine_world" by (simp add: cache_ok_def coherent_def cache_look_def engine_world_def)
  moreover have "rows_ok engine_world"
    by (simp add: rows_ok_def engine_world_def lookup_def row_ok_def engine_execution_def live_ex_def statuses_def)
  ultimately show ?thesis using engine_db_ok by (simp add: sys_ok_def gateway_ok_def engine_world_def)
qed

lemma webhook_reachable: "rtranclp (sys_step sample_services) engine_world webhook_world"
proof -
  have s: "snd (serve (sv_encode sample_services) (sv_jwt sample_services) (sv_keys sample_services) sample_env_gw sample_parsed
      ''POST'' ''/webhooks/:workflowId'' [] [] engine_world) = webhook_world"
    unfolding serve_public [OF route_facts(4)]
    by (simp add: respond_def TriggerWorkflowHandler_def sample_parsed_def sample_env_gw_def webhook_world_def webhook_req_def case_prod_beta)
  have "payload_utf8 sample_parsed" by (simp add: payload_utf8_def sample_parsed_def)
  from sys_step.request [OF sample_no_faults(2) this, of sample_services engine_world "''POST''" "''/webhooks/:workflowId''" "[]" "[]"]
  show ?thesis unfolding s by (rule r_into_rtranclp)
qed


theorem system_history_witness:
  "\<exists>ex. lookup (executions (db webhook_world)) 1 = Some ex \<and> ex_WorkflowID ex = 1"
proof -
  have "lookup (executions (db engine_world)) 1 = Some engine_execution" "ex_WorkflowID engine_execution = 1"
    by (simp_all add: engine_world_def lookup_def engine_execution_def)
  then show ?thesis
    using system_history [OF webhook_reachable engine_sys_ok, of 1 engine_execution 0 undefined] by auto
qed

theorem messages_reach_the_engine_witness:
  "\<exists>q v w2. handle (\<lambda>q w. (Inl ''unavailable'', w)) None
     \<lparr>dl_Headers = None, dl_Body = pub_body (publication [] (queued_message webhook_req 2))\<rparr> webhook_world = (v, Some q, w2) \<and> v \<noteq> Ack"
proof -
  have p: "publication [] (queued_message webhook_req 2) \<in> set (mq webhook_world)" by (simp add: webhook_mq)
  have c: "deathCount (dl_Headers \<lparr>dl_Headers = None, dl_Body = pub_body (publication [] (queued_message webhook_req 2))\<rparr>) < MaxRetries"
    by (simp add: deathCount_def MaxRetries_def)
  show ?thesis
    using messages_reach_the_engine [OF webhook_reachable engine_sys_ok p _ c, of "\<lambda>q w. (Inl ''unavailable'', w)"] by auto
qed

theorem webhook_to_result_witness:
  "\<exists>w2 item. handle (engine sample_lib Inr (\<lambda>u. None) sample_oracle) None
       \<lparr>dl_Headers = None, dl_Body = pub_body (last (mq webhook_world))\<rparr> webhook_world =
       (Ack, Some \<lparr>rq_ExecutionId = 2, rq_WorkflowId = 1, rq_TriggerPayload = ''{}''\<rparr>, w2) \<and>
     GetExecution rev 0 None no_faults 2 w2 = Inr item \<and> ei_Status item = ''failed''"
proof -
  let ?d = "\<lparr>dl_Headers = None, dl_Body = pub_body (last (mq webhook_world))\<rparr>"
  have u: "valid_utf8 (trigger_payload webhook_req)" unfolding webhook_payload by code_simp
  have k: "lookup (workflows (db engine_world)) (sint (tr_WorkflowId webhook_req)) = Some engine_workflow"
    by (simp add: engine_world_def lookup_def webhook_payload)
  have c: "next_key (step_logs (db engine_world)) + int (length (steps_of engine_workflow)) \<le> key_limit"
    using sample_steps_length by (simp add: engine_world_def empty_table_def key_limit_def)
  have m: "deathCount (dl_Headers ?d) < MaxRetries" by (simp add: deathCount_def MaxRetries_def)
  have b: "dl_Body ?d = pub_body (last (mq webhook_world))" by simp
  have o: "ro_workflow sample_oracle = None" "ro_execution sample_oracle = None" "f_read no_faults = None"
    by (simp_all add: sample_oracle_def no_faults_def)
  have g: "gateway_ok engine_world" using engine_sys_ok by (simp add: sys_ok_def)
  show ?thesis
    using webhook_to_result [where d = ?d and order = rev and G = no_faults and zone = 0 and lib = sample_lib and scan_uid = "\<lambda>u. None",
        OF g webhook_triggers u k refl o(1,2) sample_finish(1) c b m _ o(3)] sample_run_error
    by (auto simp: run_status_def webhook_payload)
qed

end
