(* ===== verification/GatewayEngine.thy ===== *)
theory GatewayEngine
  imports EngineProps
begin

section \<open>The gateway's own engine: api-gateway/internal/engine\<close>

text \<open>
  \<open>api-gateway/internal/engine\<close> is the executor the gateway used before the execution engine
  became a service: \<open>executor.go\<close> with copies of the step definition and of five runners. Its
  names carry the prefix \<open>g\_\<close> here. The two copies are maintained by hand; the theory translates
  this one from its own files and shows that it agrees with the engine's.

  The records of the runners' fields, the oracles and \<open>golib\<close> are those of \<open>Runners\<close> and
  \<open>Engine\<close>: the structs have the same fields.
\<close>

subsection \<open>runner.go and the runners\<close>

definition g_stepTimeout :: int where
  "g_stepTimeout = 30 * second"

definition g_with_timeout :: "(int \<times> error) option \<Rightarrow> int \<times> error" where
  "g_with_timeout parent = (case parent of
      None \<Rightarrow> (g_stepTimeout, ''context deadline exceeded'')
    | Some (t, e) \<Rightarrow> if t < g_stepTimeout then (t, e) else (g_stepTimeout, ''context deadline exceeded''))"

definition g_ctx_done :: "step_env \<Rightarrow> error option" where
  "g_ctx_done env = (let (t, e) = g_with_timeout (env_cancel env) in if t \<le> 0 then Some e else None)"

definition g_newHTTPRequestRunner :: "gmap option \<Rightarrow> error + httpRequestRunner" where
  "g_newHTTPRequestRunner cfg =
     (let url = cfg_string cfg ''url'' in
      if url = [] then Inl ''http_request: missing url''
      else let method = cfg_string cfg ''method'';
               method = (if method = [] then ''GET'' else method);
               body = cfg_string cfg ''body''
           in Inr \<lparr>h_url = url, h_method = method, h_body = body\<rparr>)"

definition g_run_http :: "step_env \<Rightarrow> httpRequestRunner \<Rightarrow> gmap \<Rightarrow> error + gmap" where
  "g_run_http env r input = (case env_http env (h_method r) (h_url r) (h_body r) of
      BadRequest e \<Rightarrow> Inl (''create request: '' @ e)
    | RequestFailed e \<Rightarrow> Inl (''http '' @ h_method r @ '' '' @ h_url r @ '': '' @ e)
    | Response code raw \<Rightarrow>
        let parsed = (case Option.bind (unmarshal raw) dec_any of None \<Rightarrow> GStr raw | Some v \<Rightarrow> v)
        in Inr [(''status'', GInt code), (''body'', parsed)])"

definition g_newTransformRunner :: "gmap option \<Rightarrow> error + transformRunner" where
  "g_newTransformRunner cfg =
     (let tmpl = cfg_string cfg ''template'' in
      if tmpl = [] then Inl ''transform: missing template''
      else let key = cfg_string cfg ''outputKey'';
               key = (if key = [] then ''result'' else key)
           in Inr \<lparr>t_tmpl = tmpl, t_outputKey = key\<rparr>)"

definition g_run_transform :: "golib \<Rightarrow> step_env \<Rightarrow> transformRunner \<Rightarrow> gmap \<Rightarrow> error + gmap" where
  "g_run_transform lib env r input = (case g_ctx_done env of
      Some e \<Rightarrow> Inl e
    | None \<Rightarrow> (case tmpl_parse lib (t_tmpl r) of
        Some e \<Rightarrow> Inl (''parse template: '' @ e)
      | None \<Rightarrow> (case tmpl_exec lib (t_tmpl r) input of
          Inl e \<Rightarrow> Inl (''execute template: '' @ e)
        | Inr buf \<Rightarrow> Inr [(t_outputKey r, GStr buf)])))"

definition g_newDelayRunner :: "gmap option \<Rightarrow> error + delayRunner" where
  "g_newDelayRunner cfg =
     (let seconds = (case map_get cfg ''seconds'' of GFloat s \<Rightarrow> s | _ \<Rightarrow> f64_of_nat 1)
      in Inr \<lparr>d_duration = f64_to_int64 (f64_mult seconds (f64_of_nat (nat second)))\<rparr>)"

definition g_run_delay :: "step_env \<Rightarrow> delayRunner \<Rightarrow> gmap \<Rightarrow> error + gmap" where
  "g_run_delay env r input =
     (let (t, e) = g_with_timeout (env_cancel env); after = max 0 (d_duration r); done = max 0 t
      in if after < done \<or> after = done \<and> env_pick env then Inr input
         else Inl (''delay interrupted: '' @ e))"

definition g_newConditionRunner :: "gmap option \<Rightarrow> error + conditionRunner" where
  "g_newConditionRunner cfg =
     (let field = cfg_string cfg ''field''; operator = cfg_string cfg ''operator''; v = cfg_string cfg ''value''
      in if field = [] \<or> operator = [] then Inl ''condition: missing field or operator''
         else Inr \<lparr>c_field = field, c_operator = operator, c_value = v\<rparr>)"

definition g_run_condition :: "golib \<Rightarrow> step_env \<Rightarrow> conditionRunner \<Rightarrow> gmap \<Rightarrow> error + gmap" where
  "g_run_condition lib env r input = (case g_ctx_done env of
      Some e \<Rightarrow> Inl e
    | None \<Rightarrow>
        let actual = fmt_v (map_get (Some input) (c_field r));
            a = fst (parse_float actual); b = fst (parse_float (c_value r));
            result = (if c_operator r \<in> {''eq'', ''==''} then Some (actual = c_value r)
                      else if c_operator r \<in> {''neq'', ''!=''} then Some (actual \<noteq> c_value r)
                      else if c_operator r \<in> {''gt'', ''>''} then Some (f64_less b a)
                      else if c_operator r \<in> {''lt'', ''<''} then Some (f64_less a b)
                      else None)
        in (case result of
              None \<Rightarrow> Inl (''condition: unknown operator '' @ fmt_q lib (c_operator r))
            | Some c \<Rightarrow> Inr [(''condition'', GBool c), (''input'', GMap input)]))"

definition g_newSendEmailRunner :: "gmap option \<Rightarrow> error + sendEmailRunner" where
  "g_newSendEmailRunner cfg =
     (let dest = cfg_string cfg ''to''; subj = cfg_string cfg ''subject''; body = cfg_string cfg ''body''
      in if dest = [] then Inl ''send_email: missing to''
         else Inr \<lparr>m_to = dest, m_subject = subj, m_body = body\<rparr>)"

definition g_run_email :: "golib \<Rightarrow> step_env \<Rightarrow> sendEmailRunner \<Rightarrow> gmap \<Rightarrow> (error + gmap) \<times> effect list" where
  "g_run_email lib env r input = (case g_ctx_done env of
      Some e \<Rightarrow> (Inl e, [])
    | None \<Rightarrow> (Inr [(''sent'', GBool True), (''to'', GStr (m_to r))],
        [Printed (''[EMAIL] to='' @ m_to r @ '' subject='' @ fmt_q lib (m_subject r) @ '' body=''
           @ fmt_q lib (m_body r) @ [CHR 0x0A])]))"

datatype g_StepRunner =
    GHTTPRequest httpRequestRunner
  | GTransform transformRunner
  | GDelay delayRunner
  | GCondition conditionRunner
  | GSendEmail sendEmailRunner

definition g_NewStepRunner :: "StepDef \<Rightarrow> error + g_StepRunner" where
  "g_NewStepRunner step =
     (if sd_Type step = ''http_request'' then map_sum id GHTTPRequest (g_newHTTPRequestRunner (sd_Config step))
      else if sd_Type step = ''transform'' then map_sum id GTransform (g_newTransformRunner (sd_Config step))
      else if sd_Type step = ''delay'' then map_sum id GDelay (g_newDelayRunner (sd_Config step))
      else if sd_Type step = ''condition'' then map_sum id GCondition (g_newConditionRunner (sd_Config step))
      else if sd_Type step = ''send_email'' then map_sum id GSendEmail (g_newSendEmailRunner (sd_Config step))
      else Inl (''unknown step type: '' @ sd_Type step))"

fun g_Run :: "golib \<Rightarrow> step_env \<Rightarrow> g_StepRunner \<Rightarrow> gmap \<Rightarrow> (error + gmap) \<times> effect list" where
  "g_Run lib env (GHTTPRequest r) input = (g_run_http env r input, [])"
| "g_Run lib env (GTransform r) input = (g_run_transform lib env r input, [])"
| "g_Run lib env (GDelay r) input = (g_run_delay env r input, [])"
| "g_Run lib env (GCondition r) input = (g_run_condition lib env r input, [])"
| "g_Run lib env (GSendEmail r) input = g_run_email lib env r input"

subsection \<open>executor.go\<close>

record g_ExecutionEvent =
  ge_Type :: string
  ge_ExecutionID :: uint64
  ge_StepID :: string
  ge_Status :: string
  ge_DurationMs :: int64

definition g_event_json :: "g_ExecutionEvent \<Rightarrow> json" where
  "g_event_json ev = JObj (concat
     [[(''type'', JStr (ge_Type ev))],
      [(''executionId'', JNum (show_nat (unat (ge_ExecutionID ev))))],
      (if ge_StepID ev = [] then [] else [(''stepId'', JStr (ge_StepID ev))]),
      [(''status'', JStr (ge_Status ev))],
      (if ge_DurationMs ev = 0 then [] else [(''durationMs'', JNum (show_int (sint (ge_DurationMs ev))))])])"

definition g_publishEvent :: "bool \<Rightarrow> string \<Rightarrow> g_ExecutionEvent \<Rightarrow> world \<Rightarrow> world" where
  "g_publishEvent lost channel event w =
     (if lost then w else w\<lparr>pubsub := pubsub w @ [(channel, print_json (g_event_json event))]\<rparr>)"

definition g_finishExecution :: "run_oracle \<Rightarrow> string \<Rightarrow> execution \<Rightarrow> string \<Rightarrow> world \<Rightarrow> world" where
  "g_finishExecution ro channel ex status w =
     g_publishEvent (ro_finish_drop ro) channel
       \<lparr>ge_Type = ''finished'', ge_ExecutionID = ex_ID ex, ge_StepID = [], ge_Status = status, ge_DurationMs = 0\<rparr>
       (case db_updates (ro_finish ro) live_ex (db_key (ex_ID ex))
            (\<lambda>r. r\<lparr>ex_Status := status, ex_FinishedAt := Some (ro_now ro)\<rparr>) (executions (db w)) of
          Inl e \<Rightarrow> w | Inr t \<Rightarrow> w\<lparr>db := (db w)\<lparr>executions := t\<rparr>\<rparr>)"

text \<open>The status, the output and the error of one step, with the effects of its runner.\<close>

definition g_exec_step :: "golib \<Rightarrow> step_env \<Rightarrow> StepDef \<Rightarrow> gmap \<Rightarrow> string \<times> gmap option \<times> string \<times> effect list" where
  "g_exec_step lib env stepDef input = (case g_NewStepRunner stepDef of
      Inl factoryErr \<Rightarrow> (''failed'', None, factoryErr, [])
    | Inr runner \<Rightarrow> (case g_Run lib env runner input of
        (Inr output, fx) \<Rightarrow> (''success'', Some output, [], fx)
      | (Inl runErr, fx) \<Rightarrow> (''failed'', None, runErr, fx)))"

definition g_create_log :: "(string \<Rightarrow> error + string) \<Rightarrow> error option \<Rightarrow> execution \<Rightarrow> StepDef \<Rightarrow> string
    \<Rightarrow> gmap \<Rightarrow> gmap option \<Rightarrow> string \<Rightarrow> int64 \<Rightarrow> world \<Rightarrow> world" where
  "g_create_log jsonb fault ex stepDef status input output stepErrMsg durationMs w =
     (let inputJSON = marshal_map (Some input); outputJSON = marshal_map output in
      case store_json jsonb inputJSON of Inl e \<Rightarrow> w | Inr inp \<Rightarrow>
      (case store_json jsonb outputJSON of Inl e \<Rightarrow> w | Inr out \<Rightarrow>
      (case db_create fault
         (\<lambda>i. \<lparr>sl_ID = i, sl_ExecutionID = ex_ID ex, sl_StepID = sd_ID stepDef, sl_StepType = sd_Type stepDef,
            sl_Status = status, sl_Input = inp, sl_Output = out, sl_Error = stepErrMsg, sl_DurationMs = durationMs\<rparr>)
         (step_logs (db w)) of
        Inl e \<Rightarrow> w
      | Inr (i, t) \<Rightarrow> w\<lparr>db := (db w)\<lparr>step_logs := t\<rparr>\<rparr>)))"

fun g_loop :: "golib \<Rightarrow> (string \<Rightarrow> error + string) \<Rightarrow> run_oracle \<Rightarrow> string \<Rightarrow> execution \<Rightarrow> nat
    \<Rightarrow> StepDef list \<Rightarrow> gmap \<Rightarrow> world \<Rightarrow> world" where
  "g_loop lib jsonb ro channel ex n [] input w = g_finishExecution ro channel ex ''success'' w"
| "g_loop lib jsonb ro channel ex n (stepDef # steps) input w =
     (let so = ro_steps ro n in
      case g_exec_step lib (so_env so) stepDef input of
        (status, output, stepErrMsg, fx) \<Rightarrow>
          (let w = apply_effects fx w;
               w = g_create_log jsonb (so_log so) ex stepDef status input output stepErrMsg (so_duration so) w;
               w = g_publishEvent (so_drop so) channel
                 \<lparr>ge_Type = ''step_done'', ge_ExecutionID = ex_ID ex, ge_StepID = sd_ID stepDef,
                   ge_Status = status, ge_DurationMs = so_duration so\<rparr> w
           in if status = ''failed'' then g_finishExecution ro channel ex ''failed'' w
              else g_loop lib jsonb ro channel ex (Suc n) steps (case output of None \<Rightarrow> [] | Some out \<Rightarrow> out) w))"

definition g_RunWorkflow :: "golib \<Rightarrow> (string \<Rightarrow> error + string) \<Rightarrow> run_oracle \<Rightarrow> execution \<Rightarrow> workflow \<Rightarrow> world \<Rightarrow> world" where
  "g_RunWorkflow lib jsonb ro ex wk w =
     (let channel = ''executions:'' @ show_nat (unat (wf_ID wk)) in
      case unmarshal_steps (wf_Steps wk) of
        None \<Rightarrow> g_finishExecution ro channel ex ''success'' w
      | Some steps \<Rightarrow>
          if length steps = 0 then g_finishExecution ro channel ex ''success'' w
          else g_loop lib jsonb ro channel ex 0 steps [] w)"

subsection \<open>The two copies agree\<close>

primrec runner_of :: "g_StepRunner \<Rightarrow> StepRunner" where
  "runner_of (GHTTPRequest r) = HTTPRequest r"
| "runner_of (GTransform r) = Transform r"
| "runner_of (GDelay r) = Delay r"
| "runner_of (GCondition r) = Condition r"
| "runner_of (GSendEmail r) = SendEmail r"

named_theorems copies \<open>a definition of the gateway's engine is that of the execution engine\<close>

lemma timeout_copies [copies]: "g_with_timeout = with_timeout" "g_ctx_done = ctx_done"
  by (simp_all add: fun_eq_iff g_with_timeout_def with_timeout_def g_stepTimeout_def stepTimeout_def
      g_ctx_done_def ctx_done_def split: option.split)

lemma new_copies [copies]:
  "g_newHTTPRequestRunner = newHTTPRequestRunner" "g_newTransformRunner = newTransformRunner"
  "g_newDelayRunner = newDelayRunner" "g_newConditionRunner = newConditionRunner"
  "g_newSendEmailRunner = newSendEmailRunner"
  by (simp_all add: fun_eq_iff Let_def g_newHTTPRequestRunner_def newHTTPRequestRunner_def g_newTransformRunner_def
      newTransformRunner_def g_newDelayRunner_def newDelayRunner_def g_newConditionRunner_def
      newConditionRunner_def g_newSendEmailRunner_def newSendEmailRunner_def)

lemma run_copies [copies]:
  "g_run_http = run_http" "g_run_transform = run_transform" "g_run_delay = run_delay"
  "g_run_email = run_email"
  by (simp_all add: fun_eq_iff copies Let_def g_run_http_def run_http_def parse_body_def g_run_transform_def
      run_transform_def g_run_delay_def run_delay_def g_run_email_def run_email_def
      split: option.split http_outcome.split)

lemma condition_copies [copies]: "g_run_condition = run_condition"
  by (simp add: fun_eq_iff copies Let_def g_run_condition_def run_condition_def compare_values_def split: option.split)

lemma Run_copies: "g_Run lib env r input = Run lib env (runner_of r) input"
  by (cases r) (simp_all add: copies)

lemma New_copies:
  "sd_Type s \<noteq> ''ai_task'' \<Longrightarrow> NewRunner rdb s ch = map_sum id runner_of (g_NewStepRunner s)"
  by (auto simp: NewRunner_def g_NewStepRunner_def copies map_sum.compositionality comp_def id_def)


lemma exec_copies:
  assumes "sd_Type s \<noteq> ''ai_task''"
  shows "exec_step lib rdb env s ch input = (case g_exec_step lib env s input of (st, out, e, fx) \<Rightarrow> (st, e, out, fx))"
  using New_copies [OF assms, of rdb ch]
  by (auto simp: exec_step_def g_exec_step_def Run_copies split: sum.split prod.split)

definition event_of :: "g_ExecutionEvent \<Rightarrow> redisEvent" where
  "event_of ev = \<lparr>re_Type = ge_Type ev, re_ExecutionID = ge_ExecutionID ev, re_StepID = ge_StepID ev,
     re_Status = ge_Status ev, re_DurationMs = ge_DurationMs ev\<rparr>"

lemma event_copies: "g_event_json ev = event_json (event_of ev)"
  by (simp add: g_event_json_def event_json_def event_of_def)

lemma publish_copies:
  "g_publishEvent lost (channel_of wid) ev w =
     publishRedisEvent lost wid (ge_ExecutionID ev) (ge_Type ev) (ge_StepID ev) (ge_Status ev) (ge_DurationMs ev) w"
  by (simp add: g_publishEvent_def publishRedisEvent_def event_copies marshal_event_def event_of_def)

lemma finish_copies: "g_finishExecution ro (channel_of wid) ex st w = finishExecution ro ex wid st w"
  by (simp add: g_finishExecution_def finishExecution_def publish_copies set_status_def)

lemma log_copies: "g_create_log jsonb fault ex s st input output e d w = writeStepLog jsonb fault ex s st e input output d w"
  by (simp add: g_create_log_def writeStepLog_def Let_def split: sum.split)

lemma loop_copies:
  assumes "\<forall>s \<in> set steps. sd_Type s \<noteq> ''ai_task''"
  shows "g_loop lib jsonb ro (channel_of wid) ex n steps input w =
    snd (snd (steps_loop lib jsonb rdb ro ex wid n steps input w))"
  using assms
  by (induction steps arbitrary: n input w)
    (simp_all add: finish_copies exec_copies record_step_def publish_copies log_copies Let_def split: prod.split)

text \<open>C36: without \<open>ai\_task\<close> steps the two engines are equivalent: from the same state and with
  the same outside they leave the same rows, the same events and the same everything else.\<close>

theorem gateway_engine_agrees:
  assumes "\<forall>s \<in> set (steps_of wk). sd_Type s \<noteq> ''ai_task''"
  shows "g_RunWorkflow lib jsonb ro ex wk w = snd (snd (runSteps lib jsonb rdb ro ex wk w))"
  using assms unfolding g_RunWorkflow_def runSteps_def channel_of_def [symmetric] Let_def
  by (auto simp: steps_of_def finish_copies loop_copies split: option.split)

lemma g_publish_frame [simp]: "db (g_publishEvent lost ch ev w) = db w"
  by (simp add: g_publishEvent_def)

lemma g_finish_executions:
  assumes "ro_finish ro = None"
  shows "executions (db (g_finishExecution ro ch ex st w)) = executions (db (finishExecution ro ex wid st w))"
  by (simp add: g_finishExecution_def finishExecution_def set_status_def publishRedisEvent_def split: sum.split)

lemma g_loop_ai:
  assumes "\<exists>s \<in> set steps. sd_Type s = ''ai_task''"
  shows "\<exists>w'. g_loop lib jsonb ro ch ex n steps input w = g_finishExecution ro ch ex ''failed'' w' \<and>
    executions (db w') = executions (db w)"
  using assms
proof (induction steps arbitrary: n input w)
  case (Cons s steps)
  let ?so = "ro_steps ro n"
  obtain st out e fx where x: "g_exec_step lib (so_env ?so) s input = (st, out, e, fx)" by (metis prod_cases4)
  define w1 where "w1 = g_publishEvent (so_drop ?so) ch
    \<lparr>ge_Type = ''step_done'', ge_ExecutionID = ex_ID ex, ge_StepID = sd_ID s, ge_Status = st, ge_DurationMs = so_duration ?so\<rparr>
    (g_create_log jsonb (so_log ?so) ex s st input out e (so_duration ?so) (apply_effects fx w))"
  have fr: "executions (db w1) = executions (db w)"
    by (auto simp: w1_def log_copies writeStepLog_def apply_effects_eq split: sum.split)
  have l: "g_loop lib jsonb ro ch ex n (s # steps) input w = (if st = ''failed'' then g_finishExecution ro ch ex ''failed'' w1
      else g_loop lib jsonb ro ch ex (Suc n) steps (case out of None \<Rightarrow> [] | Some y \<Rightarrow> y) w1)"
    by (simp add: x w1_def Let_def)
  show ?case
  proof (cases "st = ''failed''")
    case True
    then show ?thesis using l fr by auto
  next
    case False
    then have "sd_Type s \<noteq> ''ai_task''" using x by (auto simp: g_exec_step_def g_NewStepRunner_def)
    then have "\<exists>s \<in> set steps. sd_Type s = ''ai_task''" using Cons.prems by auto
    from Cons.IH [OF this, of "Suc n" "case out of None \<Rightarrow> [] | Some y \<Rightarrow> y" w1] show ?thesis
      unfolding l if_not_P [OF False] fr by blast
  qed
qed simp


lemma g_run_ai:
  assumes "\<exists>s \<in> set (steps_of wk). sd_Type s = ''ai_task''"
  shows "\<exists>w'. g_RunWorkflow lib jsonb ro ex wk w = g_finishExecution ro (channel_of (wf_ID wk)) ex ''failed'' w' \<and>
    executions (db w') = executions (db w)"
proof -
  have "unmarshal_steps (wf_Steps wk) = Some (steps_of wk)" "steps_of wk \<noteq> []"
    using assms by (cases "unmarshal_steps (wf_Steps wk)"; auto simp: steps_of_def)+
  then show ?thesis
    using g_loop_ai [OF assms] unfolding g_RunWorkflow_def channel_of_def [symmetric] Let_def by simp
qed

text \<open>The gateway's engine knows no \<open>ai\_task\<close>: it never lets a workflow with such a step
  succeed. Whatever the other steps do, the execution ends as \<open>failed\<close> with the time it ended, even
  where the execution engine would run every step successfully.\<close>

theorem gateway_engine_rejects_ai:
  assumes "\<exists>s \<in> set (steps_of wk). sd_Type s = ''ai_task''"
    and "lookup (executions (db w)) (db_key (ex_ID ex)) = Some ex" and "live_ex ex" and "ro_finish ro = None"
  shows "lookup (executions (db (g_RunWorkflow lib jsonb ro ex wk w))) k =
    (if k = db_key (ex_ID ex) then Some (ex\<lparr>ex_Status := ''failed'', ex_FinishedAt := Some (ro_now ro)\<rparr>)
     else lookup (executions (db w)) k)"
proof -
  obtain w' where f: "g_RunWorkflow lib jsonb ro ex wk w = finishExecution ro ex (wf_ID wk) ''failed'' w'"
    and e: "executions (db w') = executions (db w)"
    using g_run_ai [OF assms(1)] unfolding finish_copies by blast
  show ?thesis
    unfolding f finishExecution_def publish_frame(1)
    using set_status_lookup [of w' _ ex ex] assms(2-4) e by simp
qed

definition ai_workflow :: workflow where
  \<open>ai_workflow = engine_workflow\<lparr>wf_Steps := ''[{"id":"s","type":"ai_task","config":{"prompt":"p"}}]''\<rparr>\<close>

definition email_workflow :: workflow where
  \<open>email_workflow = engine_workflow\<lparr>wf_Steps := ''[{"id":"m","type":"send_email","config":{"to":"a"}},{"id":"t","type":"transform"}]''\<rparr>\<close>

lemma ai_steps: "map sd_Type (steps_of ai_workflow) = [''ai_task'']" by code_simp

lemma email_steps: "map sd_Type (steps_of email_workflow) = [''send_email'', ''transform'']" by code_simp

theorem gateway_engine_agrees_witness:
  "g_RunWorkflow sample_lib Inr sample_oracle engine_execution email_workflow engine_world =
   snd (snd (runSteps sample_lib Inr True sample_oracle engine_execution email_workflow engine_world))"
proof -
  have i: "sd_Type ` set (steps_of email_workflow) = {''send_email'', ''transform''}"
    unfolding set_map [symmetric] email_steps by simp
  have a: "\<forall>s \<in> set (steps_of email_workflow). sd_Type s \<noteq> ''ai_task''"
  proof
    fix s assume "s \<in> set (steps_of email_workflow)"
    then have "sd_Type s \<in> sd_Type ` set (steps_of email_workflow)" by (rule imageI)
    then show "sd_Type s \<noteq> ''ai_task''" unfolding i by auto
  qed
  show ?thesis
    by (rule gateway_engine_agrees [where wk = email_workflow and lib = sample_lib and jsonb = Inr and ro = sample_oracle
          and ex = engine_execution and w = engine_world and rdb = True, OF a])
qed

theorem gateway_engine_rejects_ai_witness:
  "map_option ex_Status (lookup (executions (db (g_RunWorkflow sample_lib Inr sample_oracle engine_execution ai_workflow engine_world))) 1) =
     Some ''failed''"
proof -
  have "''ai_task'' \<in> sd_Type ` set (steps_of ai_workflow)" unfolding set_map [symmetric] ai_steps by simp
  then have a: "\<exists>s \<in> set (steps_of ai_workflow). sd_Type s = ''ai_task''" by force
  have k: "db_key (ex_ID engine_execution) = 1" by (simp add: engine_execution_def db_key_def)
  have l: "lookup (executions (db engine_world)) (db_key (ex_ID engine_execution)) = Some engine_execution" "live_ex engine_execution"
    unfolding k by (simp_all add: engine_world_def lookup_def live_ex_def engine_execution_def)
  show ?thesis
    using gateway_engine_rejects_ai [OF a l sample_finish(1), of sample_lib Inr 1] k by simp
qed

end
