(* ===== verification/Concurrency.thy ===== *)
theory Concurrency
  imports EngineProps ExecutionProps
begin

section \<open>Concurrent calls of the engine\<close>

text \<open>
  gRPC serves each call in its own goroutine, and the gateway's workers call the engine from
  several consumers at once: the runs of \<open>execution-engine/internal/server/server.go\<close>
  interleave. This theory cuts \<open>RunExecution\<close> where another goroutine can act, into one step per
  query, statement and publish, and interleaves any number of such calls with each other and with
  requests that write other rows.

  A single call cut into steps is the \<open>RunExecution\<close> of \<open>Engine\<close>. For a pool of calls: every
  schedule ends; the step logs written are those of all runs, each once; and a call whose
  execution no other call runs leaves its row and answers as if it had been alone.
\<close>

subsection \<open>A call, step by step\<close>

text \<open>
  Where a call stands: received; the workflow loaded; the execution loaded, with the update to
  \<open>running\<close> to come; at the head of the loop; a step has run and its effects, oldest first, are
  to come, then its log; the log is written and the event is to come; the run is over and the
  final update is to come; the last event is to come; the call has returned.
\<close>

datatype call =
    Received RunExecutionReq
  | GotWorkflow RunExecutionReq workflow
  | GotExecution workflow execution
  | AtLoop workflow execution nat "StepDef list" gmap
  | Ran workflow execution nat StepDef "StepDef list" gmap "string \<times> string \<times> gmap option" "effect list"
  | Logged workflow execution nat StepDef "StepDef list" "string \<times> string \<times> gmap option"
  | Finishing workflow execution string string
  | Announcing workflow execution string string
  | Returned "error + RunExecutionResp"

fun call_step :: "golib \<Rightarrow> (string \<Rightarrow> error + string) \<Rightarrow> (string \<Rightarrow> error option) \<Rightarrow> bool \<Rightarrow> run_oracle
    \<Rightarrow> call \<times> world \<Rightarrow> call \<times> world" where
  "call_step lib jsonb scan_uid rdb ro (Received req, w) =
     (case load_workflow scan_uid ro (rq_WorkflowId req) w of
        Inl e \<Rightarrow> (Returned (Inl e), w) | Inr wk \<Rightarrow> (GotWorkflow req wk, w))"
| "call_step lib jsonb scan_uid rdb ro (GotWorkflow req wk, w) =
     (case load_execution ro (rq_ExecutionId req) w of
        Inl e \<Rightarrow> (Returned (Inl e), w) | Inr ex \<Rightarrow> (GotExecution wk ex, w))"
| "call_step lib jsonb scan_uid rdb ro (GotExecution wk ex, w) =
     (AtLoop wk ex 0 (case unmarshal_steps (wf_Steps wk) of None \<Rightarrow> [] | Some steps \<Rightarrow> steps) [], mark_running ro ex w)"
| "call_step lib jsonb scan_uid rdb ro (AtLoop wk ex n [] input, w) = (Finishing wk ex ''success'' [], w)"
| "call_step lib jsonb scan_uid rdb ro (AtLoop wk ex n (stepDef # steps) input, w) =
     (case exec_step lib rdb (so_env (ro_steps ro n)) stepDef (channel_of (wf_ID wk)) input of
        (status, errMsg, output, fx) \<Rightarrow> (Ran wk ex n stepDef steps input (status, errMsg, output) fx, w))"
| "call_step lib jsonb scan_uid rdb ro (Ran wk ex n stepDef steps input res (f # fx), w) =
     (Ran wk ex n stepDef steps input res fx, apply_effect f w)"
| "call_step lib jsonb scan_uid rdb ro (Ran wk ex n stepDef steps input (status, errMsg, output) [], w) =
     (Logged wk ex n stepDef steps (status, errMsg, output),
      writeStepLog jsonb (so_log (ro_steps ro n)) ex stepDef status errMsg input output (so_duration (ro_steps ro n)) w)"
| "call_step lib jsonb scan_uid rdb ro (Logged wk ex n stepDef steps (status, errMsg, output), w) =
     (if status = ''failed'' then Finishing wk ex ''failed'' errMsg
      else AtLoop wk ex (Suc n) steps (case output of None \<Rightarrow> [] | Some out \<Rightarrow> out),
      publishRedisEvent (so_drop (ro_steps ro n)) (wf_ID wk) (ex_ID ex) ''step_done'' (sd_ID stepDef) status
        (so_duration (ro_steps ro n)) w)"
| "call_step lib jsonb scan_uid rdb ro (Finishing wk ex status errMsg, w) =
     (Announcing wk ex status errMsg,
      set_status (ro_finish ro) ex (\<lambda>r. r\<lparr>ex_Status := status, ex_FinishedAt := Some (ro_now ro)\<rparr>) w)"
| "call_step lib jsonb scan_uid rdb ro (Announcing wk ex status errMsg, w) =
     (Returned (Inr \<lparr>rr_Status = status, rr_Error = errMsg\<rparr>),
      publishRedisEvent (ro_finish_drop ro) (wf_ID wk) (ex_ID ex) ''finished'' [] status 0 w)"
| "call_step lib jsonb scan_uid rdb ro (Returned r, w) = (Returned r, w)"

fun returned :: "call \<Rightarrow> bool" where
  "returned (Returned r) = True"
| "returned _ = False"

subsection \<open>One call alone\<close>

lemma call_steps_step:
  "call_step lib jsonb scan_uid rdb ro s = s' \<Longrightarrow>
   \<exists>n. (call_step lib jsonb scan_uid rdb ro ^^ n) s' = t \<Longrightarrow> \<exists>n. (call_step lib jsonb scan_uid rdb ro ^^ n) s = t"
  by (metis comp_apply funpow_Suc_right)

lemma returned_stays: "(call_step lib jsonb scan_uid rdb ro ^^ n) (Returned r, w) = (Returned r, w)"
  by (induction n) simp_all

lemma call_steps_unique:
  assumes "(call_step lib jsonb scan_uid rdb ro ^^ m) s = (Returned r, w)"
    and "(call_step lib jsonb scan_uid rdb ro ^^ n) s = (Returned r', w')"
  shows "r = r' \<and> w = w'"
proof -
  have one: "r = r' \<and> w = w'"
    if "m \<le> n" "(call_step lib jsonb scan_uid rdb ro ^^ m) s = (Returned r, w)"
      "(call_step lib jsonb scan_uid rdb ro ^^ n) s = (Returned r', w')" for m n r r' w w'
  proof -
    have "(call_step lib jsonb scan_uid rdb ro ^^ (n - m)) (Returned r, w) = (Returned r', w')"
      using that by (metis comp_apply funpow_add le_add_diff_inverse2)
    then show ?thesis by (simp add: returned_stays)
  qed
  show ?thesis using one [OF _ assms] one [OF _ assms(2,1)] by (cases "m \<le> n") auto
qed

lemma effects_alone:
  "\<exists>k. (call_step lib jsonb scan_uid rdb ro ^^ k) (Ran wk ex n stepDef steps input res fx, w) =
     (Ran wk ex n stepDef steps input res [], apply_effects fx w)"
proof (induction fx arbitrary: w)
  case Nil
  show ?case by (rule exI [of _ 0]) (simp add: apply_effects_def)
next
  case (Cons f fx)
  show ?case using call_steps_step [OF call_step.simps(6) Cons.IH] by (simp add: apply_effects_def)
qed

lemma finish_alone:
  "\<exists>k. (call_step lib jsonb scan_uid rdb ro ^^ k) (Finishing wk ex status errMsg, w) =
     (Returned (Inr \<lparr>rr_Status = status, rr_Error = errMsg\<rparr>), finishExecution ro ex (wf_ID wk) status w)"
  by (rule exI [of _ "Suc (Suc 0)"]) (simp add: finishExecution_def)

lemma loop_alone:
  assumes "steps_loop lib jsonb rdb ro ex (wf_ID wk) n steps input w = (status, errMsg, w')"
  shows "\<exists>k. (call_step lib jsonb scan_uid rdb ro ^^ k) (AtLoop wk ex n steps input, w) =
     (Returned (Inr \<lparr>rr_Status = status, rr_Error = errMsg\<rparr>), w')"
  using assms
proof (induction steps arbitrary: n input w)
  case Nil
  then show ?case using call_steps_step [OF call_step.simps(4) finish_alone] by auto
next
  case (Cons s steps)
  obtain st e out fx where x: "exec_step lib rdb (so_env (ro_steps ro n)) s (channel_of (wf_ID wk)) input = (st, e, out, fx)"
    by (metis prod_cases4)
  let ?res = "(st, e, out)"
  let ?log = "(Logged wk ex n s steps ?res, writeStepLog jsonb (so_log (ro_steps ro n)) ex s st e input out
      (so_duration (ro_steps ro n)) (apply_effects fx w))"
  have r: "record_step jsonb (ro_steps ro n) ex (wf_ID wk) s input (st, e, out, fx) w = snd (call_step lib jsonb scan_uid rdb ro ?log)"
    by (simp add: record_step_def)
  have "\<exists>k. (call_step lib jsonb scan_uid rdb ro ^^ k) (call_step lib jsonb scan_uid rdb ro ?log) =
     (Returned (Inr \<lparr>rr_Status = status, rr_Error = errMsg\<rparr>), w')"
  proof (cases "st = ''failed''")
    case True
    with Cons.prems x have w': "status = ''failed''" "errMsg = e"
      "w' = finishExecution ro ex (wf_ID wk) ''failed'' (snd (call_step lib jsonb scan_uid rdb ro ?log))"
      unfolding r [symmetric] by (auto simp: Let_def)
    have "call_step lib jsonb scan_uid rdb ro ?log =
        (Finishing wk ex ''failed'' e, snd (call_step lib jsonb scan_uid rdb ro ?log))"
      using True by simp
    then show ?thesis using w' finish_alone by metis
  next
    case False
    then show ?thesis using Cons.prems x r Cons.IH by (simp add: Let_def)
  qed
  from call_steps_step [OF refl this] have l: "\<exists>k. (call_step lib jsonb scan_uid rdb ro ^^ k) ?log =
     (Returned (Inr \<lparr>rr_Status = status, rr_Error = errMsg\<rparr>), w')" .
  from call_steps_step [OF call_step.simps(7) this]
  have "\<exists>k. (call_step lib jsonb scan_uid rdb ro ^^ k) (Ran wk ex n s steps input ?res [], apply_effects fx w) =
     (Returned (Inr \<lparr>rr_Status = status, rr_Error = errMsg\<rparr>), w')" .
  with effects_alone [of lib jsonb scan_uid rdb ro wk ex n s steps input ?res fx w]
  have "\<exists>k. (call_step lib jsonb scan_uid rdb ro ^^ k) (Ran wk ex n s steps input ?res fx, w) =
     (Returned (Inr \<lparr>rr_Status = status, rr_Error = errMsg\<rparr>), w')"
    by (metis comp_apply funpow_add)
  from call_steps_step [OF _ this] show ?case using x by simp
qed

lemma call_reaches:
  assumes run: "RunExecution lib jsonb scan_uid rdb ro req w = (r0, w0)"
  shows "\<exists>n. (call_step lib jsonb scan_uid rdb ro ^^ n) (Received req, w) = (Returned r0, w0)"
proof (cases "load_workflow scan_uid ro (rq_WorkflowId req) w")
  case (Inl e)
  then show ?thesis using run by (intro exI [of _ "Suc 0"]) (simp add: RunExecution_def)
next
  case wk: (Inr wk)
  show ?thesis
  proof (cases "load_execution ro (rq_ExecutionId req) w")
    case (Inl e)
    then show ?thesis using run wk by (intro exI [of _ "Suc (Suc 0)"]) (simp add: RunExecution_def)
  next
    case ex: (Inr ex)
    obtain st e where "steps_loop lib jsonb rdb ro ex (wf_ID wk) 0 (steps_of wk) [] (mark_running ro ex w) = (st, e, w0)"
      and r0: "r0 = Inr \<lparr>rr_Status = st, rr_Error = e\<rparr>"
      using run wk ex by (auto simp: RunExecution_def runSteps_def steps_of_def split: option.splits if_splits prod.splits)
    from loop_alone [OF this(1), of scan_uid]
    have "\<exists>n. (call_step lib jsonb scan_uid rdb ro ^^ n) (GotExecution wk ex, w) = (Returned r0, w0)"
      unfolding r0 by (intro call_steps_step [OF call_step.simps(3)]) (simp add: steps_of_def)
    with wk ex show ?thesis
      by (intro call_steps_step [OF refl [of "call_step lib jsonb scan_uid rdb ro (Received req, w)"]])
        (simp, rule call_steps_step [OF refl], simp)
  qed
qed


subsection \<open>A pool of calls\<close>

text \<open>
  A pool is the list of the calls under way, each with its oracle. What the rest of the system
  does meanwhile is a quiet change: rows may be added to the tables of workflows and
  executions, and cache, channels and queue may change; the rows that exist stay as they are. So
  it is when no request edits or deletes a workflow of the pool while it runs.
\<close>

type_synonym thread = "run_oracle \<times> call"

definition quiet :: "world \<Rightarrow> world \<Rightarrow> bool" where
  "quiet w w' \<longleftrightarrow> step_logs (db w') = step_logs (db w) \<and>
     (\<forall>k r. lookup (workflows (db w)) k = Some r \<longrightarrow> lookup (workflows (db w')) k = Some r) \<and>
     (\<forall>k r. lookup (executions (db w)) k = Some r \<longrightarrow> lookup (executions (db w')) k = Some r) \<and>
     table_ok ex_ID (executions (db w'))"

text \<open>A trigger is such a change, whether it succeeds or not.\<close>

lemma quiet_insert:
  assumes "table_ok ex_ID (executions (db w))" and "db_create f mk (executions (db w)) = Inr (i, t)" and "\<And>k. ex_ID (mk k) = k"
  shows "quiet w (set_executions t w)"
  using db_createD [OF assms(2)] rs.ok_ins [OF assms(1), of mk] rs.look_ins_some [OF assms(1)] assms(3)
  by (auto simp: quiet_def set_executions_def)

lemma quiet_trigger:
  assumes ok: "db_ok (db w)" and t: "TriggerWorkflow jsonb inject now F req w = (r, w')"
  shows "quiet w w'"
proof -
  have e: "table_ok ex_ID (executions (db w))" using ok by (simp add: db_ok_def)
  then have refl: "quiet w w" by (simp add: quiet_def)
  have id: "ex_ID (pending_row j k now s) = k" for j k s by (simp add: pending_row_def)
  from t show ?thesis
    by (cases rule: TriggerWorkflow_cases)
      (use refl quiet_insert [OF e _ id] in \<open>auto simp: quiet_def set_executions_def\<close>)
qed

inductive pool_act :: "golib \<Rightarrow> (string \<Rightarrow> error + string) \<Rightarrow> (string \<Rightarrow> error option) \<Rightarrow> bool
    \<Rightarrow> thread list \<times> world \<Rightarrow> thread list \<times> world \<Rightarrow> bool"
  for lib jsonb scan_uid rdb where
    act: "pool_act lib jsonb scan_uid rdb (ts, w) (ts[i := (ro, c')], w')"
      if "i < length ts" "ts ! i = (ro, c)" "\<not> returned c" "call_step lib jsonb scan_uid rdb ro (c, w) = (c', w')"

inductive pool_step :: "golib \<Rightarrow> (string \<Rightarrow> error + string) \<Rightarrow> (string \<Rightarrow> error option) \<Rightarrow> bool
    \<Rightarrow> thread list \<times> world \<Rightarrow> thread list \<times> world \<Rightarrow> bool"
  for lib jsonb scan_uid rdb where
    call: "pool_act lib jsonb scan_uid rdb s s' \<Longrightarrow> pool_step lib jsonb scan_uid rdb s s'"
  | other: "quiet w w' \<Longrightarrow> pool_step lib jsonb scan_uid rdb (ts, w) (ts, w')"

abbreviation pool_steps :: "golib \<Rightarrow> (string \<Rightarrow> error + string) \<Rightarrow> (string \<Rightarrow> error option) \<Rightarrow> bool
    \<Rightarrow> thread list \<times> world \<Rightarrow> thread list \<times> world \<Rightarrow> bool" where
  "pool_steps lib jsonb scan_uid rdb \<equiv> (pool_step lib jsonb scan_uid rdb)\<^sup>*\<^sup>*"

definition pool_of :: "(run_oracle \<times> RunExecutionReq) list \<Rightarrow> thread list" where
  "pool_of calls = map (\<lambda>(ro, req). (ro, Received req)) calls"

inductive_cases pool_actE: "pool_act lib jsonb scan_uid rdb s s'"

subsection \<open>Every schedule ends\<close>

text \<open>
  The loads a call has before it, and the steps it has left after them. A call that has loaded
  its rows knows its steps, so the second number is known once the first is zero.
\<close>

fun loads_left :: "call \<Rightarrow> nat" where
  "loads_left (Received req) = 3"
| "loads_left (GotWorkflow req wk) = 2"
| "loads_left (GotExecution wk ex) = 1"
| "loads_left _ = 0"

fun loop_work :: "golib \<Rightarrow> bool \<Rightarrow> run_oracle \<Rightarrow> workflow \<Rightarrow> nat \<Rightarrow> StepDef list \<Rightarrow> gmap \<Rightarrow> nat" where
  "loop_work lib rdb ro wk n [] input = 3"
| "loop_work lib rdb ro wk n (s # ss) input =
     (case exec_step lib rdb (so_env (ro_steps ro n)) s (channel_of (wf_ID wk)) input of
        (status, errMsg, output, fx) \<Rightarrow> length fx + 3 + (if status = ''failed'' then 2
          else loop_work lib rdb ro wk (Suc n) ss (case output of None \<Rightarrow> [] | Some out \<Rightarrow> out)))"

fun work_left :: "golib \<Rightarrow> bool \<Rightarrow> run_oracle \<Rightarrow> call \<Rightarrow> nat" where
  "work_left lib rdb ro (AtLoop wk ex n ss input) = loop_work lib rdb ro wk n ss input"
| "work_left lib rdb ro (Ran wk ex n s ss input (st, e, out) fx) = length fx + 2 + (if st = ''failed'' then 2
     else loop_work lib rdb ro wk (Suc n) ss (case out of None \<Rightarrow> [] | Some m \<Rightarrow> m))"
| "work_left lib rdb ro (Logged wk ex n s ss (st, e, out)) = 1 + (if st = ''failed'' then 2
     else loop_work lib rdb ro wk (Suc n) ss (case out of None \<Rightarrow> [] | Some m \<Rightarrow> m))"
| "work_left lib rdb ro (Finishing wk ex st e) = 2"
| "work_left lib rdb ro (Announcing wk ex st e) = 1"
| "work_left lib rdb ro _ = 0"

text \<open>Case analysis over the steps of a call.\<close>

lemma call_cases:
  obtains (received) req where "c = Received req"
  | (workflow) req wk where "c = GotWorkflow req wk"
  | (execution) wk ex where "c = GotExecution wk ex"
  | (over) wk ex n input where "c = AtLoop wk ex n [] input"
  | (exec) wk ex n s ss input where "c = AtLoop wk ex n (s # ss) input"
  | (effect) wk ex n s ss input st e out f fx where "c = Ran wk ex n s ss input (st, e, out) (f # fx)"
  | (log) wk ex n s ss input st e out where "c = Ran wk ex n s ss input (st, e, out) []"
  | (logged) wk ex n s ss st e out where "c = Logged wk ex n s ss (st, e, out)"
  | (finish) wk ex st e where "c = Finishing wk ex st e"
  | (announce) wk ex st e where "c = Announcing wk ex st e"
  | (returned) r where "c = Returned r"
  by (metis call.exhaust list.exhaust prod_cases3)

lemma step_decreases:
  assumes "\<not> returned c" and "call_step lib jsonb scan_uid rdb ro (c, w) = (c', w')"
  shows "loads_left c' < loads_left c \<or> loads_left c' = loads_left c \<and> work_left lib rdb ro c' < work_left lib rdb ro c"
  using assms by (cases c rule: call_cases) (auto split: sum.splits prod.splits)

definition pool_loads :: "thread list \<Rightarrow> nat" where
  "pool_loads ts = (\<Sum>t\<leftarrow>ts. loads_left (snd t))"

definition pool_work :: "golib \<Rightarrow> bool \<Rightarrow> thread list \<Rightarrow> nat" where
  "pool_work lib rdb ts = (\<Sum>t\<leftarrow>ts. work_left lib rdb (fst t) (snd t))"

text \<open>A sum over a list in which one element is replaced.\<close>

lemma sum_list_upd:
  fixes f :: "'a \<Rightarrow> 'b :: comm_monoid_add"
  assumes "i < length xs"
  shows "\<exists>rest. (\<Sum>x\<leftarrow>xs. f x) = f (xs ! i) + rest \<and> (\<forall>y. (\<Sum>x\<leftarrow>xs[i := y]. f x) = f y + rest)"
proof -
  let ?rest = "(\<Sum>x\<leftarrow>take i xs. f x) + (\<Sum>x\<leftarrow>drop (Suc i) xs. f x)"
  have "(\<Sum>x\<leftarrow>xs. f x) = f (xs ! i) + ?rest"
    by (subst id_take_nth_drop [OF assms]) (simp add: ac_simps)
  moreover have "\<forall>y. (\<Sum>x\<leftarrow>xs[i := y]. f x) = f y + ?rest"
    by (subst upd_conv_take_nth_drop [OF assms]) (simp add: ac_simps)
  ultimately show ?thesis by blast
qed

lemma act_decreases:
  assumes "pool_act lib jsonb scan_uid rdb s s'"
  shows "pool_loads (fst s') < pool_loads (fst s) \<or>
    pool_loads (fst s') = pool_loads (fst s) \<and> pool_work lib rdb (fst s') < pool_work lib rdb (fst s)"
  using assms
proof (cases rule: pool_act.cases)
  case (act i ts ro c w c' w')
  obtain a where a: "pool_loads ts = loads_left c + a" "\<forall>y. pool_loads (ts[i := y]) = loads_left (snd y) + a"
    using sum_list_upd [OF act(3), of "\<lambda>t. loads_left (snd t)"] act(4) by (auto simp: pool_loads_def)
  obtain b where b: "pool_work lib rdb ts = work_left lib rdb ro c + b"
    "\<forall>y. pool_work lib rdb (ts[i := y]) = work_left lib rdb (fst y) (snd y) + b"
    using sum_list_upd [OF act(3), of "\<lambda>t. work_left lib rdb (fst t) (snd t)"] act(4) by (auto simp: pool_work_def)
  show ?thesis using step_decreases [OF act(5,6)] a b act(1,2) by auto
qed

text \<open>
  Schedules in general: when every step makes a pair of numbers smaller, the first one first, none goes on for
  ever. The calls of the engine are one instance, the worker's consumers another.
\<close>

locale ending =
  fixes act :: "'s \<Rightarrow> 's \<Rightarrow> bool" and left :: "'s \<Rightarrow> nat \<times> nat"
  assumes decreases: "act s s' \<Longrightarrow> fst (left s') < fst (left s) \<or> fst (left s') = fst (left s) \<and> snd (left s') < snd (left s)"
begin

lemma no_endless_schedule: "\<nexists>sched. \<forall>i. act (sched i) (sched (Suc i))"
proof
  assume "\<exists>sched. \<forall>i. act (sched i) (sched (Suc i))"
  then obtain sched where "\<forall>i. act (sched i) (sched (Suc i))" by blast
  then have sched: "act (sched i) (sched (Suc i))" for i by simp
  have "(left (sched (Suc i)), left (sched i)) \<in> less_than <*lex*> less_than" for i
    using decreases [OF sched [of i]] by (cases "left (sched (Suc i))"; cases "left (sched i)") auto
  then have "\<exists>f. \<forall>i. (f (Suc i), f i) \<in> less_than <*lex*> less_than"
    by (intro exI [of _ "\<lambda>i. left (sched i)"]) blast
  moreover have "wf (less_than <*lex*> less_than)" by blast
  ultimately show False by (simp add: wf_iff_no_infinite_down_chain)
qed

end

interpretation calls: ending "pool_act lib jsonb scan_uid rdb" "\<lambda>s. (pool_loads (fst s), pool_work lib rdb (fst s))"
  for lib jsonb scan_uid rdb
  by unfold_locales (use act_decreases in simp)

text \<open>The pool always comes to an end: no schedule goes on for ever, and as long as a call
  has not returned there is a step to take, so any schedule that stops has answered every call.
  No call waits for another.\<close>

theorem pool_always_finishes:
  "(\<nexists>sched. \<forall>i. pool_act lib jsonb scan_uid rdb (sched i) (sched (Suc i))) \<and>
   ((\<nexists>s'. pool_act lib jsonb scan_uid rdb (ts, w) s') \<longleftrightarrow> list_all (\<lambda>t. returned (snd t)) ts)"
proof
  show "\<nexists>sched. \<forall>i. pool_act lib jsonb scan_uid rdb (sched i) (sched (Suc i))" by (rule calls.no_endless_schedule)
  show "(\<nexists>s'. pool_act lib jsonb scan_uid rdb (ts, w) s') \<longleftrightarrow> list_all (\<lambda>t. returned (snd t)) ts"
  proof
    assume none: "\<nexists>s'. pool_act lib jsonb scan_uid rdb (ts, w) s'"
    show "list_all (\<lambda>t. returned (snd t)) ts"
      unfolding list_all_length
      using none pool_act.act [of _ ts] by (metis prod.collapse)
  next
    assume all: "list_all (\<lambda>t. returned (snd t)) ts"
    show "\<nexists>s'. pool_act lib jsonb scan_uid rdb (ts, w) s'"
      using all by (auto simp: list_all_length elim!: pool_actE)
  qed
qed

subsection \<open>What a call will answer and write\<close>

text \<open>
  The fate of a call: its answer and the step logs it still has to write, read off its state and,
  until it has loaded its rows, off the tables.
\<close>

definition log_entry :: "(string \<Rightarrow> error + string) \<Rightarrow> step_oracle \<Rightarrow> uint64 \<Rightarrow> StepDef \<Rightarrow> gmap
    \<Rightarrow> string \<times> string \<times> gmap option \<Rightarrow> step_log list" where
  "log_entry jsonb so xid s input res = (case res of (st, e, out) \<Rightarrow>
     (case (store_json jsonb (marshal_map (Some input)), store_json jsonb (marshal_map out)) of
        (Inr i, Inr j) \<Rightarrow> if so_log so \<noteq> None then []
          else [\<lparr>sl_ID = 0, sl_ExecutionID = xid, sl_StepID = sd_ID s, sl_StepType = sd_Type s, sl_Status = st,
            sl_Input = i, sl_Output = j, sl_Error = e, sl_DurationMs = so_duration so\<rparr>]
      | _ \<Rightarrow> []))"

type_synonym fate = "(error + RunExecutionResp) \<times> step_log list"

definition loop_fate :: "golib \<Rightarrow> (string \<Rightarrow> error + string) \<Rightarrow> bool \<Rightarrow> run_oracle \<Rightarrow> workflow \<Rightarrow> execution \<Rightarrow> nat
    \<Rightarrow> StepDef list \<Rightarrow> gmap \<Rightarrow> fate" where
  "loop_fate lib jsonb rdb ro wk ex n ss input =
     (let ocs = spec_run lib rdb (envs_of ro) (channel_of (wf_ID wk)) n ss input
      in (Inr \<lparr>rr_Status = run_status ocs, rr_Error = run_message ocs\<rparr>, written_logs jsonb ro (ex_ID ex) n ocs))"

definition rest_fate :: "golib \<Rightarrow> (string \<Rightarrow> error + string) \<Rightarrow> bool \<Rightarrow> run_oracle \<Rightarrow> workflow \<Rightarrow> execution \<Rightarrow> nat
    \<Rightarrow> StepDef list \<Rightarrow> string \<times> string \<times> gmap option \<Rightarrow> fate" where
  "rest_fate lib jsonb rdb ro wk ex n ss res = (case res of (st, e, out) \<Rightarrow>
     if st = ''failed'' then (Inr \<lparr>rr_Status = ''failed'', rr_Error = e\<rparr>, [])
     else loop_fate lib jsonb rdb ro wk ex (Suc n) ss (case out of None \<Rightarrow> [] | Some m \<Rightarrow> m))"

fun fate :: "golib \<Rightarrow> (string \<Rightarrow> error + string) \<Rightarrow> (string \<Rightarrow> error option) \<Rightarrow> bool \<Rightarrow> world \<Rightarrow> run_oracle
    \<Rightarrow> call \<Rightarrow> fate" where
  "fate lib jsonb scan_uid rdb w ro (Received req) = (case load_workflow scan_uid ro (rq_WorkflowId req) w of
     Inl e \<Rightarrow> (Inl e, []) | Inr wk \<Rightarrow> (case load_execution ro (rq_ExecutionId req) w of
       Inl e \<Rightarrow> (Inl e, []) | Inr ex \<Rightarrow> loop_fate lib jsonb rdb ro wk ex 0 (steps_of wk) []))"
| "fate lib jsonb scan_uid rdb w ro (GotWorkflow req wk) = (case load_execution ro (rq_ExecutionId req) w of
     Inl e \<Rightarrow> (Inl e, []) | Inr ex \<Rightarrow> loop_fate lib jsonb rdb ro wk ex 0 (steps_of wk) [])"
| "fate lib jsonb scan_uid rdb w ro (GotExecution wk ex) = loop_fate lib jsonb rdb ro wk ex 0 (steps_of wk) []"
| "fate lib jsonb scan_uid rdb w ro (AtLoop wk ex n ss input) = loop_fate lib jsonb rdb ro wk ex n ss input"
| "fate lib jsonb scan_uid rdb w ro (Ran wk ex n s ss input res fx) =
     apsnd ((@) (log_entry jsonb (ro_steps ro n) (ex_ID ex) s input res)) (rest_fate lib jsonb rdb ro wk ex n ss res)"
| "fate lib jsonb scan_uid rdb w ro (Logged wk ex n s ss res) = rest_fate lib jsonb rdb ro wk ex n ss res"
| "fate lib jsonb scan_uid rdb w ro (Finishing wk ex st e) = (Inr \<lparr>rr_Status = st, rr_Error = e\<rparr>, [])"
| "fate lib jsonb scan_uid rdb w ro (Announcing wk ex st e) = (Inr \<lparr>rr_Status = st, rr_Error = e\<rparr>, [])"
| "fate lib jsonb scan_uid rdb w ro (Returned r) = (r, [])"

lemma log_entry_row:
  "log_entry jsonb so xid s input (result_status r, result_error r, result_output r) =
     (case log_row jsonb so xid \<lparr>oc_step = s, oc_input = input, oc_result = r, oc_effects = fx\<rparr> 0 of None \<Rightarrow> [] | Some l \<Rightarrow> [l])"
  by (auto simp: log_entry_def log_row_def split: sum.split)

lemma loop_fate_Nil:
  "loop_fate lib jsonb rdb ro wk ex n [] input = (Inr \<lparr>rr_Status = ''success'', rr_Error = []\<rparr>, [])"
  by (simp add: loop_fate_def run_status_def run_message_def run_error_def)

lemma loop_fate_Cons:
  assumes "exec_step lib rdb (so_env (ro_steps ro n)) s (channel_of (wf_ID wk)) input = (st, e, out, fx)"
  shows "loop_fate lib jsonb rdb ro wk ex n (s # ss) input =
    apsnd ((@) (log_entry jsonb (ro_steps ro n) (ex_ID ex) s input (st, e, out))) (rest_fate lib jsonb rdb ro wk ex n ss (st, e, out))"
proof -
  obtain r fx' where r: "step_result lib rdb (so_env (ro_steps ro n)) s (channel_of (wf_ID wk)) input = (r, fx')" by fastforce
  then have x: "st = result_status r" "e = result_error r" "out = result_output r" "fx = fx'"
    using assms by (simp_all add: exec_step_result)
  show ?thesis
  proof (cases r)
    case (Inl m)
    then show ?thesis using r unfolding x log_entry_row [of _ _ _ _ _ _ fx']
      by (simp add: loop_fate_def rest_fate_def run_status_def run_message_def run_error_def)
  next
    case (Inr m)
    then show ?thesis using r unfolding x log_entry_row [of _ _ _ _ _ _ fx']
      by (simp add: loop_fate_def rest_fate_def run_status_def run_message_def run_error_Cons Let_def)
  qed
qed

lemma writeStepLog_entry:
  assumes "next_key (step_logs (db w)) < key_limit"
  shows "logs_of (db (writeStepLog jsonb (so_log so) ex s st e input out (so_duration so) w)) =
    logs_of (db w) @ log_entry jsonb so (ex_ID ex) s input (st, e, out)"
  using assms by (auto simp: writeStepLog_def log_entry_def db_create_def logs_of_def insert_row_def
      split: sum.split option.split)

lemma writeStepLog_frame [simp]:
  "workflows (db (writeStepLog jsonb f ex s st e input out d w)) = workflows (db w)"
  "executions (db (writeStepLog jsonb f ex s st e input out d w)) = executions (db w)"
  by (auto simp: writeStepLog_def split: sum.split)

lemma writeStepLog_key: "next_key (step_logs (db w)) \<le> next_key (step_logs (db (writeStepLog jsonb f ex s st e input out d w)))"
  by (auto simp: writeStepLog_def db_create_def insert_row_def split: sum.split option.split)

lemma apply_effect_db [simp]: "db (apply_effect f w) = db w"
  by (cases f) simp_all

lemma apsnd_append [simp]:
  "apsnd ((@) []) x = x" "apsnd ((@) xs) (apsnd ((@) ys) x) = apsnd ((@) (xs @ ys)) x"
  by (cases x; simp)+

text \<open>A step of a call keeps its fate, writing the logs that leave it.\<close>

lemma call_step_fate:
  assumes "call_step lib jsonb scan_uid rdb ro (c, w) = (c', w')" and "next_key (step_logs (db w)) < key_limit"
  shows "\<exists>new. logs_of (db w') = logs_of (db w) @ new \<and>
    fate lib jsonb scan_uid rdb w ro c = apsnd ((@) new) (fate lib jsonb scan_uid rdb w' ro c')"
  using assms
proof (cases c rule: call_cases)
  case received
  then show ?thesis using assms(1) by (auto split: sum.splits)
next
  case workflow
  then show ?thesis using assms(1) by (auto split: sum.splits)
next
  case execution
  then show ?thesis using assms(1) by (auto simp: steps_of_def mark_running_def)
next
  case over
  then show ?thesis using assms(1) by (auto simp: loop_fate_Nil)
next
  case (exec wk ex n s ss input)
  then show ?thesis using assms(1) by (auto simp: loop_fate_Cons split: prod.splits)
next
  case (effect wk ex n s ss input st e out f fx)
  then show ?thesis using assms(1) by (auto simp: apsnd_def map_prod_def split: prod.split)
next
  case (log wk ex n s ss input st e out)
  then show ?thesis using assms writeStepLog_entry [OF assms(2)] by auto
next
  case (logged wk ex n s ss st e out)
  then show ?thesis using assms(1) by (auto simp: rest_fate_def)
next
  case (finish wk ex st e)
  then show ?thesis using assms(1) by auto
next
  case announce
  then show ?thesis using assms(1) by auto
next
  case returned
  then show ?thesis using assms(1) by auto
qed

subsection \<open>What the others leave\<close>

text \<open>
  A change that keeps every row's key and whether it is deleted, and the workflows, keeps the
  fate of a call whose rows exist.
\<close>

definition keeps_rows :: "world \<Rightarrow> world \<Rightarrow> bool" where
  "keeps_rows w w' \<longleftrightarrow> (\<forall>k r. lookup (workflows (db w)) k = Some r \<longrightarrow> lookup (workflows (db w')) k = Some r) \<and>
     (\<forall>k r. lookup (executions (db w)) k = Some r \<longrightarrow>
        (\<exists>r'. lookup (executions (db w')) k = Some r' \<and> live_ex r' = live_ex r \<and> ex_ID r' = ex_ID r))"

fun known :: "world \<Rightarrow> call \<Rightarrow> bool" where
  "known w (Received req) = (lookup (workflows (db w)) (sint (rq_WorkflowId req)) \<noteq> None \<and>
     lookup (executions (db w)) (sint (rq_ExecutionId req)) \<noteq> None)"
| "known w (GotWorkflow req wk) = (lookup (executions (db w)) (sint (rq_ExecutionId req)) \<noteq> None)"
| "known w _ = True"

lemma keeps_rows_refl: "keeps_rows w w"
  by (simp add: keeps_rows_def)

lemma keeps_rows_trans: "keeps_rows u v \<Longrightarrow> keeps_rows v w \<Longrightarrow> keeps_rows u w"
  unfolding keeps_rows_def by metis

lemma keeps_rows_known: "keeps_rows w w' \<Longrightarrow> known w c \<Longrightarrow> known w' c"
  by (cases c) (fastforce simp: keeps_rows_def)+

lemma quiet_keeps_rows: "quiet w w' \<Longrightarrow> keeps_rows w w'"
  by (auto simp: quiet_def keeps_rows_def)

lemma loop_fate_id: "ex_ID ex' = ex_ID ex \<Longrightarrow> loop_fate lib jsonb rdb ro wk ex' n ss input = loop_fate lib jsonb rdb ro wk ex n ss input"
  by (simp add: loop_fate_def)

lemma load_workflow_keeps_rows:
  assumes "keeps_rows w w'" and "lookup (workflows (db w)) (sint i) \<noteq> None"
  shows "load_workflow scan_uid ro i w' = load_workflow scan_uid ro i w"
proof -
  have "lookup (workflows (db w')) (sint i) = lookup (workflows (db w)) (sint i)"
    using assms by (auto simp: keeps_rows_def)
  then show ?thesis by (simp add: load_workflow_def db_first_def cong: option.case_cong)
qed

lemma load_execution_keeps_rows:
  assumes "keeps_rows w w'" and "lookup (executions (db w)) (sint i) \<noteq> None"
  shows "map_sum id ex_ID (load_execution ro i w') = map_sum id ex_ID (load_execution ro i w)"
proof -
  obtain r r' where "lookup (executions (db w)) (sint i) = Some r" "lookup (executions (db w')) (sint i) = Some r'"
    "live_ex r' = live_ex r" "ex_ID r' = ex_ID r"
    using assms unfolding keeps_rows_def by blast
  then show ?thesis by (simp add: load_execution_def db_first_def split: option.split)
qed

lemma load_fate:
  "(case load_execution ro i w of Inl e \<Rightarrow> (Inl e, []) | Inr ex \<Rightarrow> loop_fate lib jsonb rdb ro wk ex n ss input) =
   (case map_sum id ex_ID (load_execution ro i w) of Inl e \<Rightarrow> (Inl e, [])
    | Inr x \<Rightarrow> loop_fate lib jsonb rdb ro wk (engine_execution\<lparr>ex_ID := x\<rparr>) n ss input)"
  by (auto intro: loop_fate_id split: sum.split)

lemma fate_keeps_rows:
  assumes "keeps_rows w w'" and "known w c"
  shows "fate lib jsonb scan_uid rdb w' ro c = fate lib jsonb scan_uid rdb w ro c"
  using assms by (cases c) (simp_all add: load_fate load_workflow_keeps_rows load_execution_keeps_rows cong: sum.case_cong)

lemma set_status_keeps_rows:
  assumes "\<And>r. ex_ID (g r) = ex_ID r \<and> ex_DeletedAt (g r) = ex_DeletedAt r"
  shows "keeps_rows w (set_status f ex g w)"
  using assms by (auto simp: keeps_rows_def set_status_def db_updates_def rs.look_upd live_ex_def split: option.split)

lemma call_step_keeps_rows:
  assumes "call_step lib jsonb scan_uid rdb ro (c, w) = (c', w')"
  shows "keeps_rows w w'"
  using assms
  by (cases c rule: call_cases)
    (auto simp: keeps_rows_refl mark_running_def intro!: set_status_keeps_rows split: sum.splits prod.splits, auto simp: keeps_rows_def)

lemma call_step_known:
  assumes "call_step lib jsonb scan_uid rdb ro (c, w) = (c', w')" and "known w c"
  shows "known w' c'"
  using assms by (cases c rule: call_cases) (auto split: sum.splits prod.splits)

lemma call_step_key:
  assumes "call_step lib jsonb scan_uid rdb ro (c, w) = (c', w')"
  shows "next_key (step_logs (db w)) \<le> next_key (step_logs (db w'))"
  using assms by (cases c rule: call_cases) (auto simp: mark_running_def writeStepLog_key split: sum.splits prod.splits)

subsection \<open>The accounts of a pool\<close>

text \<open>
  The logs of a kind \<open>P\<close> that are written or will be, and the answers that are given or will
  be: no step of the pool changes them.
\<close>

definition balance :: "golib \<Rightarrow> (string \<Rightarrow> error + string) \<Rightarrow> (string \<Rightarrow> error option) \<Rightarrow> bool \<Rightarrow> (step_log \<Rightarrow> bool)
    \<Rightarrow> thread list \<times> world \<Rightarrow> step_log multiset" where
  "balance lib jsonb scan_uid rdb P s = mset (filter P (logs_of (db (snd s)))) +
     (\<Sum>t\<leftarrow>fst s. mset (filter P (snd (fate lib jsonb scan_uid rdb (snd s) (fst t) (snd t)))))"

definition answers :: "golib \<Rightarrow> (string \<Rightarrow> error + string) \<Rightarrow> (string \<Rightarrow> error option) \<Rightarrow> bool
    \<Rightarrow> thread list \<times> world \<Rightarrow> (error + RunExecutionResp) list" where
  "answers lib jsonb scan_uid rdb s = map (\<lambda>t. fst (fate lib jsonb scan_uid rdb (snd s) (fst t) (snd t))) (fst s)"

definition pool_known :: "thread list \<times> world \<Rightarrow> bool" where
  "pool_known s \<longleftrightarrow> (\<forall>t \<in> set (fst s). known (snd s) (snd t))"

definition log_keys :: "thread list \<times> world \<Rightarrow> int" where
  "log_keys s = next_key (step_logs (db (snd s)))"

lemma pool_fates_keeps_rows:
  assumes "keeps_rows w w'" and "pool_known (ts, w)"
  shows "map (\<lambda>t. fate lib jsonb scan_uid rdb w' (fst t) (snd t)) ts = map (\<lambda>t. fate lib jsonb scan_uid rdb w (fst t) (snd t)) ts"
  using assms fate_keeps_rows by (fastforce simp: pool_known_def)

lemma pool_step_frame:
  assumes "pool_step lib jsonb scan_uid rdb s s'" and "pool_known s"
  shows "pool_known s'" and "keeps_rows (snd s) (snd s')" and "log_keys s \<le> log_keys s'" and "map fst (fst s') = map fst (fst s)"
proof -
  have "pool_known s' \<and> keeps_rows (snd s) (snd s') \<and> log_keys s \<le> log_keys s' \<and> map fst (fst s') = map fst (fst s)"
    using assms(1)
  proof (cases rule: pool_step.cases)
    case call
    then show ?thesis
    proof (cases rule: pool_act.cases)
      case (act i ts ro c w c' w')
      have st: "keeps_rows w w'" by (rule call_step_keeps_rows [OF act(6)])
      have "known w c" using assms(2) act(1,3,4) nth_mem by (force simp: pool_known_def)
      then have "known w' c'" by (rule call_step_known [OF act(6)])
      then have "pool_known (ts[i := (ro, c')], w')"
        using assms(2) act(1) keeps_rows_known [OF st] by (auto simp: pool_known_def dest!: set_update_subset_insert [THEN subsetD])
      moreover have "map fst (ts[i := (ro, c')]) = map fst ts"
        using act(3,4) by (simp add: map_update) (metis fst_conv list_update_id nth_map)
      ultimately show ?thesis using st call_step_key [OF act(6)] act(1,2) by (simp add: log_keys_def)
    qed
  next
    case (other w w' ts)
    have "pool_known (ts, w')"
      using assms(2) keeps_rows_known [OF quiet_keeps_rows [OF other(3)]] other(1) by (auto simp: pool_known_def)
    moreover have "log_keys (ts, w) = log_keys (ts, w')" using other(3) by (simp add: log_keys_def quiet_def)
    ultimately show ?thesis using other(1,2) quiet_keeps_rows [OF other(3)] by simp
  qed
  then show "pool_known s'" "keeps_rows (snd s) (snd s')" "log_keys s \<le> log_keys s'" "map fst (fst s') = map fst (fst s)" by auto
qed

lemma pool_step_accounts:
  assumes "pool_step lib jsonb scan_uid rdb s s'" and "pool_known s" and "log_keys s' < key_limit"
  shows "balance lib jsonb scan_uid rdb P s' = balance lib jsonb scan_uid rdb P s \<and>
    answers lib jsonb scan_uid rdb s' = answers lib jsonb scan_uid rdb s"
  using assms(1)
proof (cases rule: pool_step.cases)
  case (other w w' ts)
  note f = pool_fates_keeps_rows [OF quiet_keeps_rows [OF other(3)], of ts, where lib = lib and jsonb = jsonb and scan_uid = scan_uid and rdb = rdb]
  have "logs_of (db w') = logs_of (db w)" using other(3) by (simp add: quiet_def logs_of_def)
  then show ?thesis
    using f assms(2) other(1,2) by (simp add: balance_def answers_def) (metis (mono_tags, lifting) map_eq_conv)
next
  case call
  then show ?thesis
  proof (cases rule: pool_act.cases)
    case (act i ts ro c w c' w')
    note st = call_step_keeps_rows [OF act(6)]
    have k: "next_key (step_logs (db w)) < key_limit"
      using call_step_key [OF act(6)] assms(3) act(2) by (simp add: log_keys_def)
    obtain new where n: "logs_of (db w') = logs_of (db w) @ new"
      "fate lib jsonb scan_uid rdb w ro c = apsnd ((@) new) (fate lib jsonb scan_uid rdb w' ro c')"
      using call_step_fate [OF act(6) k] by blast
    have f: "map (\<lambda>t. fate lib jsonb scan_uid rdb w' (fst t) (snd t)) ts = map (\<lambda>t. fate lib jsonb scan_uid rdb w (fst t) (snd t)) ts"
      using pool_fates_keeps_rows [OF st] assms(2) act(1) by blast
    let ?g = "\<lambda>w t. mset (filter P (snd (fate lib jsonb scan_uid rdb w (fst t) (snd t))))"
    have g: "map (?g w') ts = map (?g w) ts" using f by (auto simp: map_eq_conv)
    obtain rest where r: "(\<Sum>t\<leftarrow>ts. ?g w' t) = ?g w' (ts ! i) + rest" "\<forall>y. (\<Sum>t\<leftarrow>ts[i := y]. ?g w' t) = ?g w' y + rest"
      using sum_list_upd [OF act(3), of "?g w'"] by blast
    have "?g w' (ts ! i) = ?g w (ts ! i)" using g act(3) by (metis (no_types, lifting) nth_map)
    moreover have "?g w (ts ! i) = mset (filter P new) + ?g w' (ro, c')" using act(4) n(2) by simp
    moreover have "(\<Sum>t\<leftarrow>ts. ?g w t) = (\<Sum>t\<leftarrow>ts. ?g w' t)" using g by (metis (no_types, lifting))
    ultimately have u: "(\<Sum>t\<leftarrow>ts. ?g w t) = mset (filter P new) + (\<Sum>t\<leftarrow>ts[i := (ro, c')]. ?g w' t)"
      using r(1) spec [OF r(2), of "(ro, c')"] by (metis (no_types, lifting) add.assoc)
    have "balance lib jsonb scan_uid rdb P s' = balance lib jsonb scan_uid rdb P s"
      unfolding balance_def act(1,2) fst_conv snd_conv u n(1) filter_append mset_append by (simp add: ac_simps)
    moreover have "answers lib jsonb scan_uid rdb s' = answers lib jsonb scan_uid rdb s"
    proof -
      let ?h = "\<lambda>w t. fst (fate lib jsonb scan_uid rdb w (fst t) (snd t))"
      have h: "map (?h w') ts = map (?h w) ts" using f by (auto simp: map_eq_conv)
      have "?h w' (ro, c') = ?h w (ts ! i)" using n(2) act(4) by simp
      then have "map (?h w') (ts[i := (ro, c')]) = (map (?h w) ts)[i := ?h w (ts ! i)]"
        unfolding map_update h by simp
      also have "\<dots> = map (?h w) ts" using act(3) by (metis (no_types, lifting) list_update_id nth_map)
      finally show ?thesis by (simp add: answers_def act(1,2))
    qed
    ultimately show ?thesis by blast
  qed
qed

lemma pool_steps_accounts:
  assumes "pool_steps lib jsonb scan_uid rdb s s'" and "pool_known s"
  shows "pool_known s' \<and> keeps_rows (snd s) (snd s') \<and> log_keys s \<le> log_keys s' \<and> map fst (fst s') = map fst (fst s) \<and>
    (log_keys s' < key_limit \<longrightarrow> balance lib jsonb scan_uid rdb P s' = balance lib jsonb scan_uid rdb P s \<and>
       answers lib jsonb scan_uid rdb s' = answers lib jsonb scan_uid rdb s)"
  using assms(1)
proof (induction rule: rtranclp_induct)
  case base
  show ?case using assms(2) by (simp add: keeps_rows_refl)
next
  case (step t u)
  then have k: "pool_known t" by blast
  note f = pool_step_frame [OF step(2) k]
  have "log_keys u < key_limit \<Longrightarrow> balance lib jsonb scan_uid rdb P u = balance lib jsonb scan_uid rdb P t \<and>
      answers lib jsonb scan_uid rdb u = answers lib jsonb scan_uid rdb t"
    by (rule pool_step_accounts [OF step(2) k])
  moreover have "keeps_rows (snd s) (snd u)" using step(3) f(2) keeps_rows_trans by blast
  moreover have "log_keys s \<le> log_keys u" "map fst (fst u) = map fst (fst s)" using step(3) f(3,4) by auto
  moreover have "log_keys u < key_limit \<Longrightarrow> log_keys t < key_limit" using f(3) by simp
  ultimately show ?case using step(3) f(1) by metis
qed

subsection \<open>The row of an execution\<close>

text \<open>
  A call concerns one execution, \<open>x\<close>, and carries its row as it was loaded; every write
  outside the step logs goes to that row.
\<close>

fun concerns :: "uint64 \<Rightarrow> call \<Rightarrow> bool" where
  "concerns x (Received req) = (rq_ExecutionId req = x)"
| "concerns x (GotWorkflow req wk) = (rq_ExecutionId req = x)"
| "concerns x (GotExecution wk ex) = (ex_ID ex = x)"
| "concerns x (AtLoop wk ex n ss input) = (ex_ID ex = x)"
| "concerns x (Ran wk ex n s ss input res fx) = (ex_ID ex = x)"
| "concerns x (Logged wk ex n s ss res) = (ex_ID ex = x)"
| "concerns x (Finishing wk ex st e) = (ex_ID ex = x)"
| "concerns x (Announcing wk ex st e) = (ex_ID ex = x)"
| "concerns x (Returned r) = True"

fun carries :: "execution \<Rightarrow> call \<Rightarrow> bool" where
  "carries r (Received req) = True"
| "carries r (GotWorkflow req wk) = True"
| "carries r (GotExecution wk ex) = (ex = r \<and> live_ex r)"
| "carries r (AtLoop wk ex n ss input) = (ex = r \<and> live_ex r)"
| "carries r (Ran wk ex n s ss input res fx) = (ex = r \<and> live_ex r)"
| "carries r (Logged wk ex n s ss res) = (ex = r \<and> live_ex r)"
| "carries r (Finishing wk ex st e) = (ex = r \<and> live_ex r)"
| "carries r (Announcing wk ex st e) = (ex = r \<and> live_ex r)"
| "carries r (Returned a) = True"

definition running_row :: "run_oracle \<Rightarrow> execution \<Rightarrow> execution" where
  "running_row ro r = (if ro_running ro = None then r\<lparr>ex_Status := ''running''\<rparr> else r)"

fun row_now :: "run_oracle \<Rightarrow> execution \<Rightarrow> call \<Rightarrow> execution" where
  "row_now ro r (AtLoop wk ex n ss input) = running_row ro r"
| "row_now ro r (Ran wk ex n s ss input res fx) = running_row ro r"
| "row_now ro r (Logged wk ex n s ss res) = running_row ro r"
| "row_now ro r (Finishing wk ex st e) = running_row ro r"
| "row_now ro r (Announcing wk ex st e) = final_row ro st r"
| "row_now ro r (Returned (Inr resp)) = final_row ro (rr_Status resp) r"
| "row_now ro r _ = r"

lemma row_now_id: "ex_ID (row_now ro r c) = ex_ID r" "live_ex (row_now ro r c) = live_ex r"
  by (cases "(ro, r, c)" rule: row_now.cases; simp add: running_row_def final_row_def live_ex_def)+

lemma set_status_executions:
  "lookup (executions (db (set_status f ex g w))) j = (if j = db_key (ex_ID ex) \<and> f = None
     then map_option (\<lambda>r. if live_ex r then g r else r) (lookup (executions (db w)) j) else lookup (executions (db w)) j)"
  by (auto simp: set_status_def db_updates_def rs.look_upd split: option.split)

lemma set_status_table:
  assumes "table_ok ex_ID (executions (db w))" and "\<And>r. ex_ID (g r) = ex_ID r"
  shows "table_ok ex_ID (executions (db (set_status f ex g w)))"
  using assms by (auto simp: set_status_def db_updates_def intro!: rs.ok_upd split: option.split)

lemma call_step_table:
  assumes "call_step lib jsonb scan_uid rdb ro (c, w) = (c', w')" and "table_ok ex_ID (executions (db w))"
  shows "table_ok ex_ID (executions (db w'))"
  using assms by (cases c rule: call_cases) (auto simp: mark_running_def intro!: set_status_table split: sum.splits prod.splits)

lemma call_step_other_rows:
  assumes "call_step lib jsonb scan_uid rdb ro (c, w) = (c', w')" and "concerns x c" and "k \<noteq> db_key x"
  shows "lookup (executions (db w')) k = lookup (executions (db w)) k"
  using assms
  by (cases c rule: call_cases) (auto simp: mark_running_def set_status_executions split: sum.splits prod.splits)

lemma load_execution_id:
  assumes "table_ok ex_ID (executions (db w))" and "load_execution ro i w = Inr ex"
  shows "ex_ID ex = i"
  using row_sint [OF assms(1) load_executionD(1) [OF assms(2)]] by (rule signed_word_eqI)

lemma call_step_concerns:
  assumes "call_step lib jsonb scan_uid rdb ro (c, w) = (c', w')" and "concerns x c" and "table_ok ex_ID (executions (db w))"
  shows "concerns x c'"
  using assms by (cases c rule: call_cases) (auto dest: load_execution_id split: sum.splits prod.splits)

lemma call_step_row:
  assumes "call_step lib jsonb scan_uid rdb ro (c, w) = (c', w')" and "concerns x c" and "carries r c"
    and "ex_ID r = x" and "sint x = db_key x" and "lookup (executions (db w)) (db_key x) = Some (row_now ro r c)"
  shows "carries r c' \<and> lookup (executions (db w')) (db_key x) = Some (row_now ro r c')"
  using assms
proof (cases c rule: call_cases)
  case received
  then show ?thesis using assms by (auto split: sum.splits)
next
  case (workflow req wk)
  show ?thesis
  proof (cases "load_execution ro (rq_ExecutionId req) w")
    case (Inl e)
    then show ?thesis using assms workflow by auto
  next
    case (Inr ex)
    have "lookup (executions (db w)) (db_key x) = Some ex" using load_executionD(1) [OF Inr] assms(2,5) workflow by simp
    then show ?thesis using assms workflow Inr load_executionD(2) [OF Inr] by auto
  qed
next
  case execution
  then show ?thesis using assms by (auto simp: mark_running_def set_status_executions running_row_def)
next
  case finish
  then show ?thesis using assms
    by (auto simp: set_status_executions running_row_def final_row_def live_ex_def)
next
  case logged
  then show ?thesis using assms by (auto split: if_splits)
qed (auto split: prod.splits)

text \<open>The logs of a call belong to its execution.\<close>

lemma written_logs_ids: "\<forall>l \<in> set (written_logs jsonb ro x n ocs). sl_ExecutionID l = x"
  by (induction ocs arbitrary: n) (auto simp: log_row_def split: option.splits sum.splits if_splits)

lemma log_entry_ids: "\<forall>l \<in> set (log_entry jsonb so x s input res). sl_ExecutionID l = x"
  by (auto simp: log_entry_def split: sum.splits prod.splits)

lemma loop_fate_ids: "\<forall>l \<in> set (snd (loop_fate lib jsonb rdb ro wk ex n ss input)). sl_ExecutionID l = ex_ID ex"
  by (simp add: loop_fate_def written_logs_ids Let_def)

lemma rest_fate_ids: "\<forall>l \<in> set (snd (rest_fate lib jsonb rdb ro wk ex n ss res)). sl_ExecutionID l = ex_ID ex"
  using loop_fate_ids by (auto simp: rest_fate_def split: prod.splits)

lemma fate_ids:
  assumes "concerns x c" and "table_ok ex_ID (executions (db w))"
  shows "\<forall>l \<in> set (snd (fate lib jsonb scan_uid rdb w ro c)). sl_ExecutionID l = x"
  using assms loop_fate_ids rest_fate_ids log_entry_ids
  by (cases c) (auto dest: load_execution_id split: sum.splits)

subsection \<open>A call whose execution is its own\<close>

text \<open>
  The state of a pool seen from its \<open>i\<close>-th call: every call keeps to its execution, and the row
  of the \<open>i\<close>-th one is as the call left it.
\<close>

definition isolated :: "uint64 list \<Rightarrow> nat \<Rightarrow> execution \<Rightarrow> thread list \<times> world \<Rightarrow> bool" where
  "isolated xs i r s \<longleftrightarrow> list_all2 (\<lambda>x t. concerns x (snd t)) xs (fst s) \<and> table_ok ex_ID (executions (db (snd s))) \<and>
     i < length xs \<and> carries r (snd (fst s ! i)) \<and> ex_ID r = xs ! i \<and>
     lookup (executions (db (snd s))) (db_key (xs ! i)) = Some (row_now (fst (fst s ! i)) r (snd (fst s ! i)))"

lemma pool_step_isolated:
  assumes "pool_step lib jsonb scan_uid rdb s s'" and "isolated xs i r s"
    and "\<forall>j < length xs. j \<noteq> i \<longrightarrow> db_key (xs ! j) \<noteq> db_key (xs ! i)" and "sint (xs ! i) = db_key (xs ! i)"
  shows "isolated xs i r s'"
  using assms(1)
proof (cases rule: pool_step.cases)
  case other
  then show ?thesis using assms(2) by (auto simp: isolated_def quiet_def)
next
  case call
  then show ?thesis
  proof (cases rule: pool_act.cases)
    case (act j ts ro c w c' w')
    have all: "list_all2 (\<lambda>x t. concerns x (snd t)) xs ts" and tab: "table_ok ex_ID (executions (db w))"
      using assms(2) act(1) by (simp_all add: isolated_def)
    then have len: "length xs = length ts" by (simp add: list_all2_lengthD)
    then have i: "i < length ts" using assms(2) by (simp add: isolated_def)
    have j: "concerns (xs ! j) c" using all act(3,4) len by (auto simp: list_all2_conv_all_nth)
    then have "list_all2 (\<lambda>x t. concerns x (snd t)) xs (ts[j := (ro, c')])"
      using call_step_concerns [OF act(6) j tab] all act(3) by (auto simp: list_all2_conv_all_nth nth_list_update)
    moreover have "carries r (snd (ts[j := (ro, c')] ! i)) \<and> lookup (executions (db w')) (db_key (xs ! i)) =
        Some (row_now (fst (ts[j := (ro, c')] ! i)) r (snd (ts[j := (ro, c')] ! i)))"
    proof (cases "j = i")
      case True
      have "carries r c" "ex_ID r = xs ! i" "lookup (executions (db w)) (db_key (xs ! i)) = Some (row_now ro r c)"
        using assms(2) act(1,4) True by (auto simp: isolated_def)
      from call_step_row [OF act(6) _ this(1,2) assms(4) this(3)] show ?thesis using j True i by simp
    next
      case False
      then have "db_key (xs ! i) \<noteq> db_key (xs ! j)" using assms(3) act(3) len by metis
      from call_step_other_rows [OF act(6) j this] show ?thesis
        using assms(2) act(1) False by (simp add: isolated_def)
    qed
    ultimately show ?thesis
      using assms(2) act(1,2) call_step_table [OF act(6) tab] by (auto simp: isolated_def)
  qed
qed

lemma pool_steps_isolated:
  assumes "pool_steps lib jsonb scan_uid rdb s s'" and "isolated xs i r s"
    and "\<forall>j < length xs. j \<noteq> i \<longrightarrow> db_key (xs ! j) \<noteq> db_key (xs ! i)" and "sint (xs ! i) = db_key (xs ! i)"
  shows "isolated xs i r s'"
  using assms(1,2) by (induction rule: rtranclp_induct) (auto intro: pool_step_isolated [OF _ _ assms(3,4)])

subsection \<open>What a pool leaves\<close>

definition rows_exist :: "world \<Rightarrow> RunExecutionReq \<Rightarrow> bool" where
  "rows_exist w req \<longleftrightarrow> lookup (workflows (db w)) (sint (rq_WorkflowId req)) \<noteq> None \<and>
     lookup (executions (db w)) (sint (rq_ExecutionId req)) \<noteq> None"

text \<open>The step logs of one run.\<close>

definition run_logs :: "golib \<Rightarrow> (string \<Rightarrow> error + string) \<Rightarrow> (string \<Rightarrow> error option) \<Rightarrow> bool \<Rightarrow> world
    \<Rightarrow> run_oracle \<times> RunExecutionReq \<Rightarrow> step_log list" where
  "run_logs lib jsonb scan_uid rdb w c = (case c of (ro, req) \<Rightarrow>
     (case load_workflow scan_uid ro (rq_WorkflowId req) w of Inl e \<Rightarrow> []
      | Inr wk \<Rightarrow> (case load_execution ro (rq_ExecutionId req) w of Inl e \<Rightarrow> []
        | Inr ex \<Rightarrow> written_logs jsonb ro (rq_ExecutionId req) 0 (run_of lib rdb ro wk))))"

lemma fate_received:
  assumes "table_ok ex_ID (executions (db w))"
  shows "fate lib jsonb scan_uid rdb w ro (Received req) =
    (fst (RunExecution lib jsonb scan_uid rdb ro req w), run_logs lib jsonb scan_uid rdb w (ro, req))"
  using load_execution_id [OF assms]
  by (auto simp: RunExecution_spec run_logs_def loop_fate_def run_of_def steps_of_def Let_def split: sum.split)

lemma pool_of_known: "list_all (\<lambda>c. rows_exist w (snd c)) calls \<Longrightarrow> pool_known (pool_of calls, w)"
  by (auto simp: pool_known_def pool_of_def rows_exist_def list_all_iff)

lemma balance_start:
  assumes "table_ok ex_ID (executions (db w))"
  shows "balance lib jsonb scan_uid rdb P (pool_of calls, w) = mset (filter P (logs_of (db w))) +
    (\<Sum>c\<leftarrow>calls. mset (filter P (run_logs lib jsonb scan_uid rdb w c)))"
  using fate_received [OF assms] by (simp add: balance_def pool_of_def comp_def case_prod_beta)

lemma balance_end:
  assumes "list_all (\<lambda>t. returned (snd t)) ts"
  shows "balance lib jsonb scan_uid rdb P (ts, w) = mset (filter P (logs_of (db w)))"
proof -
  have "mset (filter P (snd (fate lib jsonb scan_uid rdb w (fst t) (snd t)))) = {#}" if "t \<in> set ts" for t
    using assms that by (cases "snd t") (auto simp: list_all_iff)
  then show ?thesis by (simp add: balance_def cong: map_cong)
qed

lemma answers_end:
  assumes "list_all (\<lambda>t. returned (snd t)) ts"
  shows "map snd ts = map Returned (answers lib jsonb scan_uid rdb (ts, w))"
proof -
  have "snd t = Returned (fst (fate lib jsonb scan_uid rdb w (fst t) (snd t)))" if "t \<in> set ts" for t
    using assms that by (cases "snd t") (auto simp: list_all_iff)
  then show ?thesis by (simp add: answers_def)
qed

text \<open>Runs do not mix, however they interleave. When every call of a pool has returned, each has
  given the answer it would have given alone at the start, and the step logs of the database are
  those it held and those of every run, each exactly once: none is lost, doubled or
  written for another run. This also holds of calls for the same execution, such as those of a
  message that was delivered twice.\<close>

theorem runs_do_not_mix:
  assumes "db_ok (db w)" and "list_all (\<lambda>c. rows_exist w (snd c)) calls"
    and "pool_steps lib jsonb scan_uid rdb (pool_of calls, w) (ts, w')" and "list_all (\<lambda>t. returned (snd t)) ts"
    and "next_key (step_logs (db w')) < key_limit"
  shows "map snd ts = map (\<lambda>(ro, req). Returned (fst (RunExecution lib jsonb scan_uid rdb ro req w))) calls \<and>
    mset (logs_of (db w')) = mset (logs_of (db w)) + (\<Sum>c\<leftarrow>calls. mset (run_logs lib jsonb scan_uid rdb w c))"
proof -
  have t: "table_ok ex_ID (executions (db w))" using assms(1) by (simp add: db_ok_def)
  note a = pool_steps_accounts [OF assms(3) pool_of_known [OF assms(2)], of "\<lambda>l. True", THEN conjunct2, THEN conjunct2, THEN conjunct2, THEN conjunct2]
  have k: "log_keys (ts, w') < key_limit" using assms(5) by (simp add: log_keys_def)
  have "answers lib jsonb scan_uid rdb (ts, w') = map (\<lambda>(ro, req). fst (RunExecution lib jsonb scan_uid rdb ro req w)) calls"
    using a k fate_received [OF t] by (auto simp: answers_def pool_of_def)
  then have "map snd ts = map (\<lambda>(ro, req). Returned (fst (RunExecution lib jsonb scan_uid rdb ro req w))) calls"
    using answers_end [OF assms(4), of lib jsonb scan_uid rdb w'] by auto
  moreover have "balance lib jsonb scan_uid rdb (\<lambda>l. True) (ts, w') = balance lib jsonb scan_uid rdb (\<lambda>l. True) (pool_of calls, w)"
    using a k by simp
  ultimately show ?thesis by (simp add: balance_start [OF t] balance_end [OF assms(4)])
qed

lemma sum_list_only:
  fixes f :: "'a \<Rightarrow> 'b :: comm_monoid_add"
  assumes "i < length xs" and "\<And>j. j < length xs \<Longrightarrow> j \<noteq> i \<Longrightarrow> f (xs ! j) = 0"
  shows "(\<Sum>x\<leftarrow>xs. f x) = f (xs ! i)"
proof -
  have "(\<Sum>x\<leftarrow>xs. f x) = (\<Sum>j = 0..<length xs. f (xs ! j))" by (simp add: sum_list_sum_nth)
  also have "\<dots> = (\<Sum>j \<in> {i}. f (xs ! j))" by (rule sum.mono_neutral_right) (use assms in auto)
  finally show ?thesis by simp
qed

text \<open>The keys of the rows that exist are positive.\<close>

lemma existing_key:
  assumes "table_ok ex_ID (executions (db w))" and "lookup (executions (db w)) (sint x) = Some e"
  shows "db_key x = sint x" and "ex_ID e = x"
  using lookup_key_eq [OF assms] row_sint [OF assms] signed_word_eqI by metis+

lemma run_logs_ids:
  assumes "table_ok ex_ID (executions (db w))"
  shows "\<forall>l \<in> set (run_logs lib jsonb scan_uid rdb w c). sl_ExecutionID l = rq_ExecutionId (snd c)"
  using fate_ids [OF _ assms, of "rq_ExecutionId (snd c)" "Received (snd c)" lib jsonb scan_uid rdb "fst c"]
  by (simp add: fate_received [OF assms] del: fate.simps)

text \<open>The accounts of one execution, when its only call has returned.\<close>

lemma isolated_balance:
  assumes "isolated xs i r (ts, w)" and "snd (ts ! i) = Returned a"
    and "\<And>j. j < length xs \<Longrightarrow> j \<noteq> i \<Longrightarrow> xs ! j \<noteq> xs ! i"
  shows "balance lib jsonb scan_uid rdb (\<lambda>l. sl_ExecutionID l = xs ! i) (ts, w) =
    mset (filter (\<lambda>l. sl_ExecutionID l = xs ! i) (logs_of (db w)))"
proof -
  let ?P = "\<lambda>l. sl_ExecutionID l = xs ! i"
  let ?f = "\<lambda>t. mset (filter ?P (snd (fate lib jsonb scan_uid rdb w (fst t) (snd t))))"
  have all: "list_all2 (\<lambda>x t. concerns x (snd t)) xs ts" and t: "table_ok ex_ID (executions (db w))"
    using assms(1) by (simp_all add: isolated_def)
  have len: "length xs = length ts" and i: "i < length ts"
    using all assms(1) list_all2_lengthD [OF all] by (simp_all add: isolated_def)
  have "(\<Sum>t\<leftarrow>ts. ?f t) = ?f (ts ! i)"
  proof (rule sum_list_only [OF i])
    fix j assume j: "j < length ts" "j \<noteq> i"
    have "concerns (xs ! j) (snd (ts ! j))" using all j len by (simp add: list_all2_conv_all_nth)
    from fate_ids [OF this t] have "\<forall>l \<in> set (snd (fate lib jsonb scan_uid rdb w (fst (ts ! j)) (snd (ts ! j)))). sl_ExecutionID l = xs ! j" .
    moreover have "xs ! j \<noteq> xs ! i" using assms(3) j len by simp
    ultimately show "?f (ts ! j) = {#}" by (auto simp: filter_empty_conv)
  qed
  then show ?thesis using assms(2) by (simp add: balance_def)
qed

lemma balance_start_only:
  assumes "table_ok ex_ID (executions (db w))" and "i < length calls" and "calls ! i = (ro, req)"
    and "\<And>j. j < length calls \<Longrightarrow> j \<noteq> i \<Longrightarrow> rq_ExecutionId (snd (calls ! j)) \<noteq> rq_ExecutionId req"
  shows "balance lib jsonb scan_uid rdb (\<lambda>l. sl_ExecutionID l = rq_ExecutionId req) (pool_of calls, w) =
    mset (filter (\<lambda>l. sl_ExecutionID l = rq_ExecutionId req) (logs_of (db w) @ run_logs lib jsonb scan_uid rdb w (ro, req)))"
proof -
  let ?f = "\<lambda>c. mset (filter (\<lambda>l. sl_ExecutionID l = rq_ExecutionId req) (run_logs lib jsonb scan_uid rdb w c))"
  have "(\<Sum>c\<leftarrow>calls. ?f c) = ?f (calls ! i)"
  proof (rule sum_list_only [OF assms(2)])
    fix j assume "j < length calls" "j \<noteq> i"
    then show "?f (calls ! j) = {#}"
      using assms(4) run_logs_ids [OF assms(1), of lib jsonb scan_uid rdb "calls ! j"] by (auto simp: filter_empty_conv)
  qed
  then show ?thesis by (simp add: balance_start [OF assms(1)] assms(3))
qed

text \<open>What a call alone does.\<close>

lemma run_alone:
  assumes "db_ok (db w)" and "RunExecution lib jsonb scan_uid rdb ro req w = (r, w0)"
    and "lookup (executions (db w)) (sint (rq_ExecutionId req)) = Some e"
    and "\<And>wk. lookup (workflows (db w)) (sint (rq_WorkflowId req)) = Some wk \<Longrightarrow>
      next_key (step_logs (db w)) + int (length (steps_of wk)) \<le> key_limit"
  shows "logs_of (db w0) = logs_of (db w) @ run_logs lib jsonb scan_uid rdb w (ro, req) \<and>
    lookup (executions (db w0)) (sint (rq_ExecutionId req)) = Some (row_now ro e (Returned r))"
proof (cases r)
  case (Inl msg)
  then show ?thesis using assms(2,3) by (auto simp: RunExecution_spec run_logs_def split: sum.splits)
next
  case (Inr resp)
  then have run: "RunExecution lib jsonb scan_uid rdb ro req w = (Inr resp, w0)" using assms(2) by simp
  show ?thesis
  proof (rule RunExecution_done [OF assms(1) run])
    fix wk ex
    assume h: "lookup (workflows (db w)) (sint (rq_WorkflowId req)) = Some wk"
      "lookup (executions (db w)) (sint (rq_ExecutionId req)) = Some ex" "live_ex ex"
      "db_key (ex_ID ex) = sint (rq_ExecutionId req)"
      "resp = \<lparr>rr_Status = run_status (run_of lib rdb ro wk), rr_Error = run_message (run_of lib rdb ro wk)\<rparr>"
      "w0 = run_final lib jsonb rdb ro wk ex w"
    have "run_logs lib jsonb scan_uid rdb w (ro, req) = written_logs jsonb ro (rq_ExecutionId req) 0 (run_of lib rdb ro wk)"
      using run h(1,2) load_workflowD(1) load_executionD(1)
      by (fastforce simp: run_logs_def RunExecution_spec split: sum.splits)
    then show ?thesis
      using RunExecution_logs [OF assms(1) run h(1) assms(4) [OF h(1)]] run_final_executions [OF h(2-4)] h(2,5,6) assms(3) Inr
      by simp
  qed
qed

lemma isolated_run:
  assumes "db_ok (db w)" and "list_all (\<lambda>c. rows_exist w (snd c)) calls" and "i < length calls" and "calls ! i = (ro, req)"
    and "\<And>j. j < length calls \<Longrightarrow> j \<noteq> i \<Longrightarrow> rq_ExecutionId (snd (calls ! j)) \<noteq> rq_ExecutionId req"
    and "pool_steps lib jsonb scan_uid rdb (pool_of calls, w) (ts, w')" and "returned (snd (ts ! i))"
    and "next_key (step_logs (db w')) < key_limit"
    and "RunExecution lib jsonb scan_uid rdb ro req w = (r, w0)"
    and "\<And>wk. lookup (workflows (db w)) (sint (rq_WorkflowId req)) = Some wk \<Longrightarrow>
      next_key (step_logs (db w)) + int (length (steps_of wk)) \<le> key_limit"
  shows "snd (ts ! i) = Returned r \<and>
    lookup (executions (db w')) (sint (rq_ExecutionId req)) = lookup (executions (db w0)) (sint (rq_ExecutionId req)) \<and>
    mset (filter (\<lambda>l. sl_ExecutionID l = rq_ExecutionId req) (logs_of (db w'))) =
      mset (filter (\<lambda>l. sl_ExecutionID l = rq_ExecutionId req) (logs_of (db w0)))"
proof -
  let ?x = "rq_ExecutionId req" and ?xs = "map (\<lambda>c. rq_ExecutionId (snd c)) calls"
  have t: "table_ok ex_ID (executions (db w))" using assms(1) by (simp add: db_ok_def)
  have rows: "rows_exist w (snd (calls ! j))" if "j < length calls" for j using assms(2) that by (simp add: list_all_length)
  obtain e where e: "lookup (executions (db w)) (sint ?x) = Some e" using rows [OF assms(3)] assms(4) by (auto simp: rows_exist_def)
  have keys: "db_key (?xs ! j) = sint (?xs ! j)" if "j < length calls" for j
    using existing_key(1) [OF t] rows [OF that] that by (auto simp: rows_exist_def)
  have x: "?xs ! i = ?x" using assms(3,4) by simp
  have start: "isolated ?xs i e (pool_of calls, w)"
    using assms(3,4) t e existing_key [OF t e] by (auto simp: isolated_def pool_of_def list_all2_conv_all_nth case_prod_beta)
  have "\<forall>j < length ?xs. j \<noteq> i \<longrightarrow> db_key (?xs ! j) \<noteq> db_key (?xs ! i)"
    using keys assms(3-5) signed_word_eqI by fastforce
  from pool_steps_isolated [OF assms(6) start this keys [OF assms(3), symmetric]]
  have iso: "isolated ?xs i e (ts, w')" .
  note acc = pool_steps_accounts [OF assms(6) pool_of_known [OF assms(2)], of "\<lambda>l. sl_ExecutionID l = ?x"]
  have k: "log_keys (ts, w') < key_limit" using assms(8) by (simp add: log_keys_def)
  have len: "length ts = length calls" using acc by (metis fst_conv length_map pool_of_def)
  have ro: "fst (ts ! i) = ro"
    using acc assms(3,4) len by (simp add: pool_of_def comp_def case_prod_beta) (metis (no_types, lifting) fst_conv nth_map)
  obtain a where a: "snd (ts ! i) = Returned a" using assms(7) by (cases "snd (ts ! i)") simp_all
  have "answers lib jsonb scan_uid rdb (ts, w') ! i = answers lib jsonb scan_uid rdb (pool_of calls, w) ! i" using acc k by simp
  then have r: "a = r" using a assms(3,4,9) len fate_received [OF t] by (simp add: answers_def pool_of_def)
  have "mset (filter (\<lambda>l. sl_ExecutionID l = ?x) (logs_of (db w'))) =
      mset (filter (\<lambda>l. sl_ExecutionID l = ?x) (logs_of (db w) @ run_logs lib jsonb scan_uid rdb w (ro, req)))"
    using isolated_balance [OF iso a, of lib jsonb scan_uid rdb] balance_start_only [OF t assms(3-5)] acc k assms(5) x by simp
  then show ?thesis
    using run_alone [OF assms(1,9) e assms(10)] iso a r ro x keys [OF assms(3)] by (simp add: isolated_def)
qed

text \<open>C4: an execution that one call of the pool runs is run as if that call were alone. Once the
  call has returned, whatever the others do and have done, its answer and its row are
  those of \<open>RunExecution\<close> from the pool's first state, and its step logs are the same up to
  their order and keys.\<close>

theorem concurrent_runs_are_isolated:
  assumes "db_ok (db w)" and "list_all (\<lambda>c. rows_exist w (snd c)) calls" and "i < length calls" and "calls ! i = (ro, req)"
    and "\<And>j. j < length calls \<Longrightarrow> j \<noteq> i \<Longrightarrow> rq_ExecutionId (snd (calls ! j)) \<noteq> rq_ExecutionId req"
    and "pool_steps lib jsonb scan_uid rdb (pool_of calls, w) (ts, w')" and "returned (snd (ts ! i))"
    and "next_key (step_logs (db w')) < key_limit"
    and "RunExecution lib jsonb scan_uid rdb ro req w = (r, w0)"
    and "\<And>wk. lookup (workflows (db w)) (sint (rq_WorkflowId req)) = Some wk \<Longrightarrow>
      next_key (step_logs (db w)) + int (length (steps_of wk)) \<le> key_limit"
  shows "snd (ts ! i) = Returned r \<and>
    lookup (executions (db w')) (sint (rq_ExecutionId req)) = lookup (executions (db w0)) (sint (rq_ExecutionId req)) \<and>
    mset (filter (\<lambda>l. sl_ExecutionID l = rq_ExecutionId req) (logs_of (db w'))) =
      mset (filter (\<lambda>l. sl_ExecutionID l = rq_ExecutionId req) (logs_of (db w0)))"
  using assms by (rule isolated_run)

subsection \<open>A sample pool\<close>

text \<open>Two executions of one workflow.\<close>

definition pool_world :: world where
  "pool_world = engine_world\<lparr>db := (db engine_world)\<lparr>executions := \<lparr>rows = [(1, engine_execution),
     (2, engine_execution\<lparr>ex_ID := 2\<rparr>)], next_key = 3\<rparr>\<rparr>\<rparr>"

definition second_req :: RunExecutionReq where
  "second_req = engine_req\<lparr>rq_ExecutionId := 2\<rparr>"

abbreviation alone :: "RunExecutionReq \<Rightarrow> world \<Rightarrow> (error + RunExecutionResp) \<times> world" where
  "alone req w \<equiv> RunExecution sample_lib Inr (\<lambda>u. None) True sample_oracle req w"

text \<open>A call of a pool that is run to its end while the others wait.\<close>

lemma thread_runs:
  assumes "i < length ts" and "ts ! i = (ro, c)"
    and "(call_step lib jsonb scan_uid rdb ro ^^ n) (c, w) = (Returned r, w')"
  shows "pool_steps lib jsonb scan_uid rdb (ts, w) (ts[i := (ro, Returned r)], w')"
  using assms
proof (induction n arbitrary: ts c w)
  case 0
  then have "ts[i := (ro, Returned r)] = ts" "w = w'" by (metis funpow_0 list_update_id prod.inject)+
  then show ?case by simp
next
  case (Suc n)
  obtain c1 w1 where s: "call_step lib jsonb scan_uid rdb ro (c, w) = (c1, w1)" by fastforce
  have n: "(call_step lib jsonb scan_uid rdb ro ^^ n) (c1, w1) = (Returned r, w')"
    using Suc.prems(3) s by (simp add: funpow_Suc_right del: funpow.simps)
  show ?case
  proof (cases "returned c")
    case True
    then have "c1 = c" "w1 = w" using s by (cases c; simp)+
    then show ?thesis using Suc.IH [OF Suc.prems(1,2)] n by simp
  next
    case False
    have "pool_step lib jsonb scan_uid rdb (ts, w) (ts[i := (ro, c1)], w1)"
      using pool_act.act [OF Suc.prems(1,2) False s] by (rule pool_step.call)
    moreover have "pool_steps lib jsonb scan_uid rdb (ts[i := (ro, c1)], w1) (ts[i := (ro, Returned r)], w')"
      using Suc.IH [of "ts[i := (ro, c1)]" c1 w1] Suc.prems(1) n by simp
    ultimately show ?thesis by (rule converse_rtranclp_into_rtranclp)
  qed
qed

lemma pool_two:
  assumes "RunExecution lib jsonb scan_uid rdb ro1 req1 w = (r1, w1)" and "RunExecution lib jsonb scan_uid rdb ro2 req2 w1 = (r2, w2)"
  shows "pool_steps lib jsonb scan_uid rdb (pool_of [(ro1, req1), (ro2, req2)], w) ([(ro1, Returned r1), (ro2, Returned r2)], w2)"
proof -
  obtain m where m: "(call_step lib jsonb scan_uid rdb ro1 ^^ m) (Received req1, w) = (Returned r1, w1)"
    using call_reaches [OF assms(1)] by blast
  obtain n where n: "(call_step lib jsonb scan_uid rdb ro2 ^^ n) (Received req2, w1) = (Returned r2, w2)"
    using call_reaches [OF assms(2)] by blast
  have "pool_steps lib jsonb scan_uid rdb (pool_of [(ro1, req1), (ro2, req2)], w) ([(ro1, Returned r1), (ro2, Received req2)], w1)"
    using thread_runs [OF _ _ m, of 0 "pool_of [(ro1, req1), (ro2, req2)]"] by (simp add: pool_of_def)
  moreover have "pool_steps lib jsonb scan_uid rdb ([(ro1, Returned r1), (ro2, Received req2)], w1) ([(ro1, Returned r1), (ro2, Returned r2)], w2)"
    using thread_runs [OF _ _ n, of "Suc 0" "[(ro1, Returned r1), (ro2, Received req2)]"] by simp
  ultimately show ?thesis by (rule rtranclp_trans)
qed

lemma run_key:
  assumes "db_ok (db w)" and "RunExecution lib jsonb scan_uid rdb ro req w = (r, w')"
    and "lookup (workflows (db w)) (sint (rq_WorkflowId req)) = Some wk"
    and "next_key (step_logs (db w)) + int (length (steps_of wk)) \<le> key_limit"
  shows "db_ok (db w') \<and> workflows (db w') = workflows (db w) \<and>
    next_key (step_logs (db w')) \<le> next_key (step_logs (db w)) + int (length (steps_of wk))"
proof (cases r)
  case (Inl e)
  then show ?thesis using assms(1,2) by (auto simp: RunExecution_spec split: sum.splits)
next
  case (Inr resp)
  then show ?thesis using RunExecution_logs [OF assms(1) _ assms(3,4)] assms(2) by blast
qed

lemma pool_two_sample:
  assumes "db_ok (db w)" and "lookup (workflows (db w)) 1 = Some engine_workflow" and "next_key (step_logs (db w)) = 1"
    and "rq_WorkflowId req1 = 1" and "rq_WorkflowId req2 = 1"
  obtains r1 w1 r2 w2 where "alone req1 w = (r1, w1)"
    "pool_steps sample_lib Inr (\<lambda>u. None) True (pool_of [(sample_oracle, req1), (sample_oracle, req2)], w)
       ([(sample_oracle, Returned r1), (sample_oracle, Returned r2)], w2)"
    "next_key (step_logs (db w2)) < key_limit"
proof -
  obtain r1 w1 where 1: "alone req1 w = (r1, w1)" by fastforce
  obtain r2 w2 where 2: "alone req2 w1 = (r2, w2)" by fastforce
  have k1: "db_ok (db w1) \<and> workflows (db w1) = workflows (db w) \<and> next_key (step_logs (db w1)) \<le> 5"
    using run_key [OF assms(1) 1, of engine_workflow] assms(2-4) sample_steps_length by (simp add: key_limit_def)
  then have "next_key (step_logs (db w2)) \<le> 9"
    using run_key [OF _ 2, of engine_workflow] assms(2,5) sample_steps_length by (simp add: key_limit_def)
  then show ?thesis using that [OF 1 pool_two [OF 1 2]] by (simp add: key_limit_def)
qed

lemma pool_world_ok:
  "db_ok (db pool_world)" "lookup (workflows (db pool_world)) 1 = Some engine_workflow" "next_key (step_logs (db pool_world)) = 1"
  "rows_exist pool_world engine_req" "rows_exist pool_world second_req"
  by (auto simp: pool_world_def db_ok_def engine_world_def engine_workflow_def engine_execution_def table_ok_def refs_ok_def
      empty_table_def key_limit_def lookup_def db_key_def rows_exist_def engine_req_def second_req_def)

theorem runs_do_not_mix_witness:
  "\<exists>ts w'. pool_steps sample_lib Inr (\<lambda>u. None) True (pool_of [(sample_oracle, engine_req), (sample_oracle, engine_req)], pool_world) (ts, w') \<and>
     mset (logs_of (db w')) = mset (logs_of (db pool_world)) +
       (mset (run_logs sample_lib Inr (\<lambda>u. None) True pool_world (sample_oracle, engine_req)) +
        mset (run_logs sample_lib Inr (\<lambda>u. None) True pool_world (sample_oracle, engine_req)))"
proof (rule pool_two_sample [OF pool_world_ok(1-3), of engine_req engine_req])
  fix r1 w1 r2 w2
  assume p: "pool_steps sample_lib Inr (\<lambda>u. None) True (pool_of [(sample_oracle, engine_req), (sample_oracle, engine_req)], pool_world)
       ([(sample_oracle, Returned r1), (sample_oracle, Returned r2)], w2)" "next_key (step_logs (db w2)) < key_limit"
  show ?thesis using runs_do_not_mix [OF pool_world_ok(1) _ p(1) _ p(2)] p(1) pool_world_ok(4) by auto
qed (simp_all add: engine_req_def)

theorem concurrent_runs_are_isolated_witness:
  "\<exists>ts w'. pool_steps sample_lib Inr (\<lambda>u. None) True (pool_of [(sample_oracle, engine_req), (sample_oracle, second_req)], pool_world) (ts, w') \<and>
     lookup (executions (db w')) 1 = lookup (executions (db (snd (alone engine_req pool_world)))) 1"
proof (rule pool_two_sample [OF pool_world_ok(1-3), of engine_req second_req])
  fix r1 w1 r2 w2
  assume a: "alone engine_req pool_world = (r1, w1)"
    and p: "pool_steps sample_lib Inr (\<lambda>u. None) True (pool_of [(sample_oracle, engine_req), (sample_oracle, second_req)], pool_world)
       ([(sample_oracle, Returned r1), (sample_oracle, Returned r2)], w2)" "next_key (step_logs (db w2)) < key_limit"
  have e: "rq_ExecutionId engine_req = 1" "rq_WorkflowId engine_req = 1" "rq_ExecutionId second_req = 2"
    by (simp_all add: engine_req_def second_req_def)
  have o: "rq_ExecutionId (snd ([(sample_oracle, engine_req), (sample_oracle, second_req)] ! j)) \<noteq> rq_ExecutionId engine_req"
    if "j < length [(sample_oracle, engine_req), (sample_oracle, second_req)]" "j \<noteq> 0" for j
    using that e by (cases j) auto
  have "lookup (executions (db w2)) (sint (rq_ExecutionId engine_req)) = lookup (executions (db w1)) (sint (rq_ExecutionId engine_req))"
    using concurrent_runs_are_isolated [where i = 0, OF pool_world_ok(1) _ _ _ o p(1) _ p(2) a] pool_world_ok(2-5) sample_steps_length e
    by (simp add: key_limit_def)
  then show ?thesis using p(1) a e by auto
qed (simp_all add: engine_req_def second_req_def)

end
