(* ===== verification/Consumers.thy ===== *)
theory Consumers
  imports Concurrency System
begin

section \<open>The worker's consumers at work together\<close>

text \<open>
  \<open>Start\<close> of \<open>api-gateway/internal/worker/executionworker.go\<close> starts several consumers, and each
  \<open>handle\<close> waits for the engine: deliveries of different consumers interleave, query by query. This theory cuts
  \<open>handle\<close> where another goroutine can act: reading the message, the check that the execution exists, the steps of
  the engine's call as in \<open>Concurrency\<close>, and the verdict. A consumer takes its deliveries one after another
  (\<open>Qos(1, 0, false)\<close>).

  However the consumers interleave, every delivery gets the verdict that \<open>handle\<close> gives it alone; the step logs are
  those of all runs; a delivery that is acknowledged after a call has its execution ended; and every schedule comes
  to an end.
\<close>

subsection \<open>A delivery, step by step\<close>

text \<open>A delivery with what it will meet: the failure of the check, and the oracle of the engine's run.\<close>

type_synonym job = "error option \<times> run_oracle \<times> Delivery"

datatype progress = Unread | Checking ExecutionMessage | Dispatched ExecutionMessage call
  | Settled verdict "RunExecutionReq option"

fun dispatch_step :: "golib \<Rightarrow> (string \<Rightarrow> error + string) \<Rightarrow> (string \<Rightarrow> error option) \<Rightarrow> job
    \<Rightarrow> progress \<times> world \<Rightarrow> progress \<times> world" where
  "dispatch_step lib jsonb scan_uid (fault, ro, d) (Unread, w) =
     (if deathCount (dl_Headers d) \<ge> MaxRetries then (Settled Ack None, w)
      else (case unmarshal_message (dl_Body d) of None \<Rightarrow> (Settled Ack None, w) | Some msg \<Rightarrow> (Checking msg, w)))"
| "dispatch_step lib jsonb scan_uid (fault, ro, d) (Checking msg, w) =
     (case db_first fault live_ex (executions (db w)) (db_key (em_ExecutionID msg)) of
        Inl RecordNotFound \<Rightarrow> (Settled Ack None, w)
      | Inl (DbError e) \<Rightarrow> (Settled Nack None, w)
      | Inr ex \<Rightarrow> (Dispatched msg (Received (request_of msg)), w))"
| "dispatch_step lib jsonb scan_uid (fault, ro, d) (Dispatched msg c, w) =
     (case c of
        Returned (Inl e) \<Rightarrow> (Settled Nack (Some (request_of msg)), w)
      | Returned (Inr resp) \<Rightarrow> (Settled Ack (Some (request_of msg)), w)
      | _ \<Rightarrow> (case call_step lib jsonb scan_uid True ro (c, w) of (c', w') \<Rightarrow> (Dispatched msg c', w')))"
| "dispatch_step lib jsonb scan_uid (fault, ro, d) (Settled v q, w) = (Settled v q, w)"

fun settled :: "progress \<Rightarrow> bool" where
  "settled (Settled v q) = True"
| "settled _ = False"

lemma dispatch_call:
  "\<not> returned c \<Longrightarrow> dispatch_step lib jsonb scan_uid (fault, ro, d) (Dispatched msg c, w) =
     (case call_step lib jsonb scan_uid True ro (c, w) of (c', w') \<Rightarrow> (Dispatched msg c', w'))"
  by (cases c) simp_all

subsection \<open>Consumers\<close>

text \<open>
  A consumer is the list of its deliveries, and works on the first that is not settled. Meanwhile the rest of the
  system may make quiet changes, as in \<open>Concurrency\<close>.
\<close>

type_synonym consumer = "(job \<times> progress) list"

inductive consumer_act :: "golib \<Rightarrow> (string \<Rightarrow> error + string) \<Rightarrow> (string \<Rightarrow> error option)
    \<Rightarrow> consumer list \<times> world \<Rightarrow> consumer list \<times> world \<Rightarrow> bool"
  for lib jsonb scan_uid where
    act: "consumer_act lib jsonb scan_uid (cs, w) (cs[i := before @ (job, p') # rest], w')"
      if "i < length cs" "cs ! i = before @ (job, p) # rest" "list_all (\<lambda>j. settled (snd j)) before" "\<not> settled p"
        "dispatch_step lib jsonb scan_uid job (p, w) = (p', w')"

inductive consumer_step :: "golib \<Rightarrow> (string \<Rightarrow> error + string) \<Rightarrow> (string \<Rightarrow> error option)
    \<Rightarrow> consumer list \<times> world \<Rightarrow> consumer list \<times> world \<Rightarrow> bool"
  for lib jsonb scan_uid where
    work: "consumer_act lib jsonb scan_uid s s' \<Longrightarrow> consumer_step lib jsonb scan_uid s s'"
  | other: "quiet w w' \<Longrightarrow> consumer_step lib jsonb scan_uid (cs, w) (cs, w')"

abbreviation consumer_steps :: "golib \<Rightarrow> (string \<Rightarrow> error + string) \<Rightarrow> (string \<Rightarrow> error option)
    \<Rightarrow> consumer list \<times> world \<Rightarrow> consumer list \<times> world \<Rightarrow> bool" where
  "consumer_steps lib jsonb scan_uid \<equiv> (consumer_step lib jsonb scan_uid)\<^sup>*\<^sup>*"

text \<open>At the start nothing has been read.\<close>

definition consumers_of :: "job list list \<Rightarrow> consumer list" where
  "consumers_of jss = map (map (\<lambda>j. (j, Unread))) jss"

text \<open>The deliveries of all consumers in one list, with the one that moves.\<close>

lemma concat_update:
  assumes "i < length xss" and "xss ! i = before @ x # rest"
  obtains as bs where "concat xss = as @ x # bs" "\<And>y. concat (xss[i := before @ y # rest]) = as @ y # bs"
proof -
  let ?a = "concat (take i xss) @ before" and ?b = "rest @ concat (drop (Suc i) xss)"
  have "concat xss = ?a @ x # ?b"
    by (subst id_take_nth_drop [OF assms(1)]) (simp add: assms(2))
  moreover have "concat (xss[i := before @ y # rest]) = ?a @ y # ?b" for y
    by (simp add: upd_conv_take_nth_drop [OF assms(1)])
  ultimately show ?thesis using that by blast
qed

subsection \<open>Every schedule ends\<close>

fun loads_to_do :: "progress \<Rightarrow> nat" where
  "loads_to_do Unread = 6"
| "loads_to_do (Checking msg) = 5"
| "loads_to_do (Dispatched msg c) = Suc (loads_left c)"
| "loads_to_do (Settled v q) = 0"

fun work_to_do :: "golib \<Rightarrow> job \<times> progress \<Rightarrow> nat" where
  "work_to_do lib ((fault, ro, d), Dispatched msg c) = work_left lib True ro c"
| "work_to_do lib _ = 0"

lemma dispatch_decreases:
  assumes "\<not> settled p" and "dispatch_step lib jsonb scan_uid job (p, w) = (p', w')"
  shows "loads_to_do p' < loads_to_do p \<or> loads_to_do p' = loads_to_do p \<and> work_to_do lib (job, p') < work_to_do lib (job, p)"
proof -
  obtain fault ro d where job: "job = (fault, ro, d)" by (cases job)
  show ?thesis
  proof (cases p)
    case Unread
    then show ?thesis using assms(2) job by (auto split: if_splits option.splits)
  next
    case (Checking msg)
    then show ?thesis using assms(2) job by (auto split: sum.splits db_error.splits)
  next
    case (Dispatched msg c)
    show ?thesis
    proof (cases "returned c")
      case True
      then obtain r where "c = Returned r" by (cases c) simp_all
      then show ?thesis using assms(2) job Dispatched by (auto split: sum.splits)
    next
      case False
      obtain c' w1 where s: "call_step lib jsonb scan_uid True ro (c, w) = (c', w1)" by fastforce
      then have "p' = Dispatched msg c'" using assms(2) job Dispatched dispatch_call [OF False] by simp
      then show ?thesis using step_decreases [OF False s] job Dispatched by simp
    qed
  qed (use assms(1) in simp)
qed

definition total_loads :: "consumer list \<Rightarrow> nat" where
  "total_loads cs = (\<Sum>j\<leftarrow>concat cs. loads_to_do (snd j))"

definition total_work :: "golib \<Rightarrow> consumer list \<Rightarrow> nat" where
  "total_work lib cs = (\<Sum>j\<leftarrow>concat cs. work_to_do lib j)"

lemma consumer_act_decreases:
  assumes "consumer_act lib jsonb scan_uid s s'"
  shows "total_loads (fst s') < total_loads (fst s) \<or>
    total_loads (fst s') = total_loads (fst s) \<and> total_work lib (fst s') < total_work lib (fst s)"
  using assms
proof (cases rule: consumer_act.cases)
  case (act i cs before job p rest w p' w')
  obtain as bs where "concat cs = as @ (job, p) # bs" "concat (cs[i := before @ (job, p') # rest]) = as @ (job, p') # bs"
    using concat_update [OF act(3,4)] by metis
  then show ?thesis using dispatch_decreases [OF act(6,7)] act(1,2) by (auto simp: total_loads_def total_work_def)
qed

interpretation consumers: ending "consumer_act lib jsonb scan_uid" "\<lambda>s. (total_loads (fst s), total_work lib (fst s))"
  for lib jsonb scan_uid
  by unfold_locales (use consumer_act_decreases in simp)

lemma first_unsettled:
  assumes "\<not> list_all (\<lambda>j. settled (snd j)) xs"
  obtains before job p rest where "xs = before @ (job, p) # rest" "list_all (\<lambda>j. settled (snd j)) before" "\<not> settled p"
proof -
  obtain before x rest where "xs = before @ x # rest" "list_all (\<lambda>j. settled (snd j)) before" "\<not> settled (snd x)"
    using assms by (auto simp: list_all_iff dest!: split_list_first_prop [where P = "\<lambda>j. \<not> settled (snd j)", simplified])
  then show ?thesis using that by (cases x) simp
qed


subsection \<open>The calls behind the deliveries\<close>

text \<open>The call a delivery makes, if it makes one, read off the first state.\<close>

definition job_call :: "world \<Rightarrow> job \<Rightarrow> (run_oracle \<times> RunExecutionReq) option" where
  "job_call w job = (case job of (fault, ro, d) \<Rightarrow>
     if deathCount (dl_Headers d) \<ge> MaxRetries then None
     else (case unmarshal_message (dl_Body d) of None \<Rightarrow> None
       | Some msg \<Rightarrow> (case db_first fault live_ex (executions (db w)) (db_key (em_ExecutionID msg)) of
           Inl e \<Rightarrow> None | Inr ex \<Rightarrow> Some (ro, request_of msg))))"

text \<open>A message names rows that exist, as \<open>System\<close> shows of all that are published.\<close>

definition job_ok :: "world \<Rightarrow> job \<Rightarrow> bool" where
  "job_ok w job \<longleftrightarrow> (case job of (fault, ro, d) \<Rightarrow>
     (case unmarshal_message (dl_Body d) of None \<Rightarrow> True | Some msg \<Rightarrow> rows_exist w (request_of msg)))"

definition calling :: "world \<Rightarrow> job \<times> progress \<Rightarrow> bool" where
  "calling w j \<longleftrightarrow> job_call w (fst j) \<noteq> None"

text \<open>How far a delivery is, and where its call stands in a pool of calls.\<close>

fun tracks :: "job \<times> progress \<Rightarrow> thread \<Rightarrow> bool" where
  "tracks ((fault, ro, d), Unread) t = (\<exists>msg. unmarshal_message (dl_Body d) = Some msg \<and> t = (ro, Received (request_of msg)))"
| "tracks ((fault, ro, d), Checking msg) t = (t = (ro, Received (request_of msg)))"
| "tracks ((fault, ro, d), Dispatched msg c) t = (t = (ro, c))"
| "tracks ((fault, ro, d), Settled v q) t = (\<exists>msg r. unmarshal_message (dl_Body d) = Some msg \<and> t = (ro, Returned r) \<and>
     q = Some (request_of msg) \<and> v = (case r of Inl e \<Rightarrow> Nack | Inr resp \<Rightarrow> Ack))"

text \<open>A delivery on its way has its own message, and one that makes no call gets the verdict of \<open>handle\<close>.\<close>

fun on_course :: "golib \<Rightarrow> (string \<Rightarrow> error + string) \<Rightarrow> (string \<Rightarrow> error option) \<Rightarrow> world \<Rightarrow> job \<times> progress \<Rightarrow> bool" where
  "on_course lib jsonb scan_uid w ((fault, ro, d), Unread) = True"
| "on_course lib jsonb scan_uid w ((fault, ro, d), Checking msg) =
     (deathCount (dl_Headers d) < MaxRetries \<and> unmarshal_message (dl_Body d) = Some msg)"
| "on_course lib jsonb scan_uid w ((fault, ro, d), Dispatched msg c) =
     (unmarshal_message (dl_Body d) = Some msg \<and> job_call w (fault, ro, d) = Some (ro, request_of msg))"
| "on_course lib jsonb scan_uid w ((fault, ro, d), Settled v q) =
     (job_call w (fault, ro, d) = None \<longrightarrow> handle (engine lib jsonb scan_uid ro) fault d w = (v, q, w))"

definition simulated :: "golib \<Rightarrow> (string \<Rightarrow> error + string) \<Rightarrow> (string \<Rightarrow> error option) \<Rightarrow> job list \<Rightarrow> world
    \<Rightarrow> consumer list \<times> world \<Rightarrow> bool" where
  "simulated lib jsonb scan_uid jobs w s \<longleftrightarrow> (\<exists>ts.
     pool_steps lib jsonb scan_uid True (pool_of (List.map_filter (job_call w) jobs), w) (ts, snd s) \<and>
     list_all2 tracks (filter (calling w) (concat (fst s))) ts \<and>
     list_all (on_course lib jsonb scan_uid w) (concat (fst s)) \<and> map fst (concat (fst s)) = jobs)"

lemma simulated_start: "simulated lib jsonb scan_uid (concat jss) w (consumers_of jss, w)"
proof -
  have c: "concat (consumers_of jss) = map (\<lambda>j. (j, Unread)) (concat jss)" by (simp add: consumers_of_def map_concat)
  have "list_all2 tracks (filter (calling w) (map (\<lambda>j. (j, Unread)) jobs)) (pool_of (List.map_filter (job_call w) jobs))" for jobs
  proof (induction jobs)
    case (Cons j jobs)
    obtain fault ro d where j: "j = (fault, ro, d)" by (cases j)
    show ?case
    proof (cases "job_call w j")
      case None
      then show ?thesis using Cons.IH by (simp add: calling_def map_filter_simps)
    next
      case (Some c)
      then obtain msg where "unmarshal_message (dl_Body d) = Some msg" "c = (ro, request_of msg)"
        using j by (auto simp: job_call_def split: if_splits option.splits sum.splits)
      then show ?thesis using Cons.IH Some j by (simp add: calling_def map_filter_simps pool_of_def)
    qed
  qed (simp add: map_filter_simps pool_of_def)
  then show ?thesis unfolding simulated_def fst_conv snd_conv c
    by (intro exI [of _ "pool_of (List.map_filter (job_call w) (concat jss))"]) (auto simp: list_all_iff comp_def)
qed

lemma calls_known: "list_all (job_ok w) jobs \<Longrightarrow> list_all (\<lambda>c. rows_exist w (snd c)) (List.map_filter (job_call w) jobs)"
  by (induction jobs) (auto simp: map_filter_simps job_ok_def job_call_def split: option.splits if_splits sum.splits)

text \<open>The check finds what it would have found at the start.\<close>

lemma check_stable:
  assumes k: "keeps_rows w w'" and t: "table_ok ex_ID (executions (db w))" and e: "rows_exist w (request_of msg)"
  shows "map_sum id (\<lambda>ex. ()) (db_first fault live_ex (executions (db w')) (db_key (em_ExecutionID msg))) =
    map_sum id (\<lambda>ex. ()) (db_first fault live_ex (executions (db w)) (db_key (em_ExecutionID msg)))"
proof -
  obtain r where r: "lookup (executions (db w)) (sint (em_ExecutionID msg)) = Some r" using e by (auto simp: rows_exist_def request_of_def)
  then obtain r' where "lookup (executions (db w')) (sint (em_ExecutionID msg)) = Some r'" "live_ex r' = live_ex r"
    using k unfolding keeps_rows_def by blast
  then show ?thesis using r existing_key(1) [OF t r] by (simp add: db_first_def split: option.split)
qed

text \<open>One delivery moves: its verdict, or a step of its call.\<close>

lemma dispatch_simulated:
  assumes ok: "job_ok w0 job" and k: "keeps_rows w0 w" and t: "table_ok ex_ID (executions (db w0))"
    and c: "on_course lib jsonb scan_uid w0 (job, p)" and n: "\<not> settled p"
    and s: "dispatch_step lib jsonb scan_uid job (p, w) = (p', w')"
  shows "on_course lib jsonb scan_uid w0 (job, p') \<and>
    (calling w0 (job, p) \<longrightarrow> (\<forall>th. tracks (job, p) th \<longrightarrow> w' = w \<and> tracks (job, p') th \<or>
       (\<exists>ro c c'. th = (ro, c) \<and> \<not> returned c \<and> call_step lib jsonb scan_uid True ro (c, w) = (c', w') \<and> tracks (job, p') (ro, c')))) \<and>
    (\<not> calling w0 (job, p) \<longrightarrow> w' = w)"
proof -
  obtain fault ro d where job: "job = (fault, ro, d)" by (cases job)
  show ?thesis
  proof (cases p)
    case Unread
    show ?thesis
    proof (cases "deathCount (dl_Headers d) \<ge> MaxRetries \<or> unmarshal_message (dl_Body d) = None")
      case True
      then have "p' = Settled Ack None" "w' = w" "job_call w0 (fault, ro, d) = None"
        "handle (engine lib jsonb scan_uid ro) fault d w0 = (Ack, None, w0)"
        using s Unread job by (auto simp: job_call_def handle_def split: if_splits)
      then show ?thesis using job by (simp add: calling_def)
    next
      case False
      then obtain msg where "unmarshal_message (dl_Body d) = Some msg" by auto
      then show ?thesis using s Unread job False by (auto split: if_splits)
    qed
  next
    case (Checking msg)
    then have m: "deathCount (dl_Headers d) < MaxRetries" "unmarshal_message (dl_Body d) = Some msg" using c job by simp_all
    then have e: "rows_exist w0 (request_of msg)" using ok job by (simp add: job_ok_def)
    note x = check_stable [OF k t e, of fault]
    show ?thesis
    proof (cases "db_first fault live_ex (executions (db w0)) (db_key (em_ExecutionID msg))")
      case (Inr ex)
      then obtain ex' where "db_first fault live_ex (executions (db w)) (db_key (em_ExecutionID msg)) = Inr ex'"
        using x by (cases "db_first fault live_ex (executions (db w)) (db_key (em_ExecutionID msg))") auto
      then show ?thesis using s Checking job m Inr by (auto simp: job_call_def calling_def)
    next
      case (Inl e)
      then have "db_first fault live_ex (executions (db w)) (db_key (em_ExecutionID msg)) = Inl e"
        using x by (cases "db_first fault live_ex (executions (db w)) (db_key (em_ExecutionID msg))") auto
      then show ?thesis using s Checking job m Inl by (cases e) (auto simp: job_call_def calling_def handle_def)
    qed
  next
    case (Dispatched msg c1)
    show ?thesis
    proof (cases "returned c1")
      case True
      then obtain r where "c1 = Returned r" by (cases c1) simp_all
      then show ?thesis using s Dispatched job c by (auto simp: calling_def split: sum.splits)
    next
      case False
      obtain c' w1 where "call_step lib jsonb scan_uid True ro (c1, w) = (c', w1)" by fastforce
      then show ?thesis using s Dispatched job c dispatch_call [OF False] False by (auto simp: calling_def)
    qed
  qed (use n in simp)
qed

lemma calling_job: "calling w (job, p') = calling w (job, p)"
  by (simp add: calling_def)

lemma simulated_step:
  assumes s: "consumer_step lib jsonb scan_uid s s'" and sim: "simulated lib jsonb scan_uid jobs w0 s"
    and ok: "db_ok (db w0)" and jobs: "list_all (job_ok w0) jobs"
  shows "simulated lib jsonb scan_uid jobs w0 s'"
proof -
  obtain ts where p: "pool_steps lib jsonb scan_uid True (pool_of (List.map_filter (job_call w0) jobs), w0) (ts, snd s)"
    and tr: "list_all2 tracks (filter (calling w0) (concat (fst s))) ts"
    and oc: "list_all (on_course lib jsonb scan_uid w0) (concat (fst s))" and js: "map fst (concat (fst s)) = jobs"
    using sim by (auto simp: simulated_def)
  have k: "keeps_rows w0 (snd s)" using pool_steps_accounts [OF p pool_of_known [OF calls_known [OF jobs]]] by simp
  have t: "table_ok ex_ID (executions (db w0))" using ok by (simp add: db_ok_def)
  show ?thesis
    using s
  proof (cases rule: consumer_step.cases)
    case (other w w' cs)
    then have "pool_steps lib jsonb scan_uid True (pool_of (List.map_filter (job_call w0) jobs), w0) (ts, w')"
      using p pool_step.other [OF other(3)] by (auto intro: rtranclp.rtrancl_into_rtrancl)
    then show ?thesis using tr oc js other by (auto simp: simulated_def)
  next
    case work
    then show ?thesis
    proof (cases rule: consumer_act.cases)
      case (act i cs before job p1 rest w p' w')
      obtain as bs where as: "concat cs = as @ (job, p1) # bs" "concat (cs[i := before @ (job, p') # rest]) = as @ (job, p') # bs"
        using concat_update [OF act(3,4)] by metis
      have j: "job_ok w0 job" "on_course lib jsonb scan_uid w0 (job, p1)" using js jobs oc as(1) act(1) by auto
      note d = dispatch_simulated [OF j(1) k [unfolded act(1) snd_conv] t j(2) act(6,7)]
      have oc': "list_all (on_course lib jsonb scan_uid w0) (as @ (job, p') # bs)" using oc as(1) act(1) d by simp
      have js': "map fst (as @ (job, p') # bs) = jobs" using js as(1) act(1) by simp
      show ?thesis
      proof (cases "calling w0 (job, p1)")
        case False
        then have "w' = w" "\<not> calling w0 (job, p')" using d calling_job [of w0 job p' p1] by simp_all
        then show ?thesis unfolding simulated_def act(2) fst_conv snd_conv as(2)
          using p tr oc' js' as(1) act(1) False by (intro exI [of _ ts]) simp
      next
        case True
        then have "list_all2 tracks (filter (calling w0) as @ (job, p1) # filter (calling w0) bs) ts" using tr as(1) act(1) by simp
        then obtain ta th tb where ts: "ts = ta @ th # tb" and l: "list_all2 tracks (filter (calling w0) as) ta"
          "tracks (job, p1) th" "list_all2 tracks (filter (calling w0) bs) tb"
          by (auto simp: list_all2_append1 list_all2_Cons1)
        have c': "calling w0 (job, p')" using True calling_job by metis
        from d True l(2) consider "w' = w" "tracks (job, p') th"
          | ro c c1 where "th = (ro, c)" "\<not> returned c" "call_step lib jsonb scan_uid True ro (c, w) = (c1, w')" "tracks (job, p') (ro, c1)"
          by blast
        then show ?thesis
        proof cases
          case 1
          then show ?thesis unfolding simulated_def act(2) fst_conv snd_conv as(2)
            using p ts l oc' js' c' act(1) by (intro exI [of _ ts]) (simp add: list_all2_appendI)
        next
          case 2
          have "pool_act lib jsonb scan_uid True (ts, w) (ts[length ta := (ro, c1)], w')"
            using 2 by (intro pool_act.act) (simp_all add: ts)
          then have "pool_steps lib jsonb scan_uid True (pool_of (List.map_filter (job_call w0) jobs), w0) (ta @ (ro, c1) # tb, w')"
            using p act(1) ts by (auto intro: rtranclp.rtrancl_into_rtrancl pool_step.call)
          then show ?thesis unfolding simulated_def act(2) fst_conv snd_conv as(2)
            using l 2(4) oc' js' c' by (intro exI [of _ "ta @ (ro, c1) # tb"]) (simp add: list_all2_appendI)
        qed
      qed
    qed
  qed
qed

lemma simulated_steps:
  assumes "consumer_steps lib jsonb scan_uid (consumers_of jss, w) s" and "db_ok (db w)" and "list_all (job_ok w) (concat jss)"
  shows "simulated lib jsonb scan_uid (concat jss) w s"
  using assms(1) by (induction rule: rtranclp_induct) (auto intro: simulated_start simulated_step [OF _ _ assms(2,3)])

subsection \<open>What the consumers leave\<close>

lemma handle_call:
  assumes "job_call w (fault, ro, d) = Some (ro', req)"
  shows "ro' = ro" and "handle (engine lib jsonb scan_uid ro) fault d w = (case RunExecution lib jsonb scan_uid True ro req w of
      (Inl e, w') \<Rightarrow> (Nack, Some req, w') | (Inr resp, w') \<Rightarrow> (Ack, Some req, w'))"
  using assms by (auto simp: job_call_def handle_def engine_def split: if_splits option.splits sum.splits)

lemma job_callD:
  assumes "job_call w (fault, ro, d) = Some c"
  shows "\<exists>msg. unmarshal_message (dl_Body d) = Some msg \<and> c = (ro, request_of msg)"
  using assms by (auto simp: job_call_def split: if_splits option.splits sum.splits)

lemma calls_aligned:
  "list_all2 (\<lambda>j c. job_call w (fst j) = Some c) (filter (calling w) xs) (List.map_filter (job_call w) (map fst xs))"
  by (induction xs) (auto simp: map_filter_simps calling_def split: option.split)

lemma returned_answer:
  assumes "pool_steps lib jsonb scan_uid rdb (pool_of calls, w) (ts, w')" and "list_all (\<lambda>c. rows_exist w (snd c)) calls"
    and "db_ok (db w)" and "next_key (step_logs (db w')) < key_limit" and "i < length ts" and "snd (ts ! i) = Returned r"
  shows "r = fst (RunExecution lib jsonb scan_uid rdb (fst (calls ! i)) (snd (calls ! i)) w)"
proof -
  have t: "table_ok ex_ID (executions (db w))" using assms(3) by (simp add: db_ok_def)
  note a = pool_steps_accounts [OF assms(1) pool_of_known [OF assms(2)], of "\<lambda>l. True"]
  have "length ts = length calls" using a by (metis fst_conv length_map pool_of_def)
  moreover have "answers lib jsonb scan_uid rdb (ts, w') ! i = answers lib jsonb scan_uid rdb (pool_of calls, w) ! i"
    using a assms(4) by (simp add: log_keys_def)
  ultimately show ?thesis using assms(5,6) fate_received [OF t] by (simp add: answers_def pool_of_def case_prod_beta)
qed

text \<open>A settled delivery that made a call, with the thread of the call.\<close>

lemma settled_thread:
  assumes "list_all2 tracks (filter (calling w) xs) ts" and "k < length (filter (calling w) xs)"
    and "filter (calling w) xs ! k = ((fault, ro, d), Settled v q)"
  obtains req r where "ts ! k = (ro, Returned r)" "q = Some req" "List.map_filter (job_call w) (map fst xs) ! k = (ro, req)"
    "v = (case r of Inl e \<Rightarrow> Nack | Inr resp \<Rightarrow> Ack)" "job_call w (fault, ro, d) = Some (ro, req)"
proof -
  have "tracks ((fault, ro, d), Settled v q) (ts ! k)" using assms by (auto simp: list_all2_conv_all_nth)
  then obtain msg r where t: "unmarshal_message (dl_Body d) = Some msg" "ts ! k = (ro, Returned r)" "q = Some (request_of msg)"
    "v = (case r of Inl e \<Rightarrow> Nack | Inr resp \<Rightarrow> Ack)" by auto
  have c: "job_call w (fault, ro, d) = Some (List.map_filter (job_call w) (map fst xs) ! k)"
    using calls_aligned [of w xs] assms(2,3) by (auto simp: list_all2_conv_all_nth)
  then have "List.map_filter (job_call w) (map fst xs) ! k = (ro, request_of msg)"
    using t(1) by (auto simp: job_call_def split: if_splits sum.splits)
  then show ?thesis using that t c by metis
qed

lemma settled_verdict:
  assumes sim: "simulated lib jsonb scan_uid (concat jss) w (cs, w')" and ok: "db_ok (db w)" and jobs: "list_all (job_ok w) (concat jss)"
    and lim: "next_key (step_logs (db w')) < key_limit" and j: "((fault, ro, d), Settled v q) \<in> set (concat cs)"
  shows "\<exists>w0. handle (engine lib jsonb scan_uid ro) fault d w = (v, q, w0)"
proof -
  obtain ts where p: "pool_steps lib jsonb scan_uid True (pool_of (List.map_filter (job_call w) (concat jss)), w) (ts, w')"
    and tr: "list_all2 tracks (filter (calling w) (concat cs)) ts"
    and oc: "list_all (on_course lib jsonb scan_uid w) (concat cs)" and js: "map fst (concat cs) = concat jss"
    using sim by (auto simp: simulated_def)
  show ?thesis
  proof (cases "calling w ((fault, ro, d), Settled v q)")
    case False
    then show ?thesis using oc j by (fastforce simp: list_all_iff calling_def)
  next
    case True
    then have "((fault, ro, d), Settled v q) \<in> set (filter (calling w) (concat cs))" using j by simp
    then obtain k where k: "k < length (filter (calling w) (concat cs))" "filter (calling w) (concat cs) ! k = ((fault, ro, d), Settled v q)"
      by (metis in_set_conv_nth)
    obtain req r where c: "ts ! k = (ro, Returned r)" "q = Some req" "List.map_filter (job_call w) (map fst (concat cs)) ! k = (ro, req)"
      "v = (case r of Inl e \<Rightarrow> Nack | Inr resp \<Rightarrow> Ack)" "job_call w (fault, ro, d) = Some (ro, req)"
      by (rule settled_thread [OF tr k])
    have "k < length ts" using k(1) tr by (simp add: list_all2_lengthD)
    from returned_answer [OF p calls_known [OF jobs] ok lim this, of r]
    have "r = fst (RunExecution lib jsonb scan_uid True ro req w)" using c(1,3) js by simp
    then show ?thesis using handle_call(2) [OF c(5), of lib jsonb scan_uid] c(2,4) by (auto split: prod.splits sum.splits)
  qed
qed

text \<open>C7: deliveries do not mix. At every moment, however the consumers interleave, each delivery that is settled
  has the verdict, and has sent the request, that \<open>handle\<close> gives for it alone at the start; and when all are
  settled, the step logs are those there were and those of the run of each delivery that made a call, each exactly
  once. This also holds of a message that is delivered to two consumers at once.\<close>

theorem deliveries_do_not_mix:
  assumes "consumer_steps lib jsonb scan_uid (consumers_of jss, w) (cs, w')" and "db_ok (db w)"
    and "list_all (job_ok w) (concat jss)" and "next_key (step_logs (db w')) < key_limit"
  shows "map fst (concat cs) = concat jss \<and>
    list_all (\<lambda>((fault, ro, d), p). settled p \<longrightarrow>
      p = (case handle (engine lib jsonb scan_uid ro) fault d w of (v, q, w0) \<Rightarrow> Settled v q)) (concat cs) \<and>
    (list_all (\<lambda>j. settled (snd j)) (concat cs) \<longrightarrow> mset (logs_of (db w')) = mset (logs_of (db w)) +
      (\<Sum>c\<leftarrow>List.map_filter (job_call w) (concat jss). mset (run_logs lib jsonb scan_uid True w c)))"
proof -
  have sim: "simulated lib jsonb scan_uid (concat jss) w (cs, w')" by (rule simulated_steps [OF assms(1-3)])
  then obtain ts where p: "pool_steps lib jsonb scan_uid True (pool_of (List.map_filter (job_call w) (concat jss)), w) (ts, w')"
    and tr: "list_all2 tracks (filter (calling w) (concat cs)) ts" and js: "map fst (concat cs) = concat jss"
    by (auto simp: simulated_def)
  have v: "p = (case handle (engine lib jsonb scan_uid ro) fault d w of (v, q, w0) \<Rightarrow> Settled v q)"
    if j: "((fault, ro, d), p) \<in> set (concat cs)" "settled p" for fault ro d p
  proof -
    obtain v q where "p = Settled v q" using j(2) by (cases p) simp_all
    then show ?thesis using settled_verdict [OF sim assms(2-4)] j(1) by fastforce
  qed
  have "mset (logs_of (db w')) = mset (logs_of (db w)) +
      (\<Sum>c\<leftarrow>List.map_filter (job_call w) (concat jss). mset (run_logs lib jsonb scan_uid True w c))"
    if all: "list_all (\<lambda>j. settled (snd j)) (concat cs)"
  proof -
    have "returned (snd (ts ! k))" if k: "k < length ts" for k
    proof -
      have k': "k < length (filter (calling w) (concat cs))" using k tr by (simp add: list_all2_lengthD)
      then have "settled (snd (filter (calling w) (concat cs) ! k))"
        using all nth_mem [OF k'] by (auto simp: list_all_iff)
      then obtain fault ro d v q where "filter (calling w) (concat cs) ! k = ((fault, ro, d), Settled v q)"
        by (metis prod.collapse settled.elims(2))
      from settled_thread [OF tr k' this] show ?thesis by (metis returned.simps(1) snd_conv)
    qed
    then have "list_all (\<lambda>t. returned (snd t)) ts" by (simp add: list_all_length)
    from runs_do_not_mix [OF assms(2) calls_known [OF assms(3)] p this assms(4)] show ?thesis by blast
  qed
  moreover have "list_all (\<lambda>((fault, ro, d), p). settled p \<longrightarrow>
      p = (case handle (engine lib jsonb scan_uid ro) fault d w of (v, q, w0) \<Rightarrow> Settled v q)) (concat cs)"
    unfolding list_all_iff
  proof
    fix j assume "j \<in> set (concat cs)"
    moreover obtain fault ro d p where "j = ((fault, ro, d), p)" by (cases j) auto
    ultimately show "(\<lambda>((fault, ro, d), p). settled p \<longrightarrow>
        p = (case handle (engine lib jsonb scan_uid ro) fault d w of (v, q, w0) \<Rightarrow> Settled v q)) j"
      using v [of fault ro d p] by simp
  qed
  ultimately show ?thesis using js by blast
qed

text \<open>A delivery acknowledged after a call, from any well-formed state.\<close>

lemma acknowledged_finished:
  assumes "consumer_steps lib jsonb scan_uid (consumers_of jss, w) (cs, w')" and "db_ok (db w)"
    and "list_all (job_ok w) (concat jss)" and "next_key (step_logs (db w')) < key_limit"
    and "concat cs = as @ ((fault, ro, d), Settled Ack (Some req)) # bs"
    and "\<And>f ro' d' p msg. ((f, ro', d'), p) \<in> set (as @ bs) \<Longrightarrow> unmarshal_message (dl_Body d') = Some msg \<Longrightarrow>
      em_ExecutionID msg \<noteq> rq_ExecutionId req"
    and "ro_finish ro = None"
    and "\<And>wk. lookup (workflows (db w)) (sint (rq_WorkflowId req)) = Some wk \<Longrightarrow>
      next_key (step_logs (db w)) + int (length (steps_of wk)) \<le> key_limit"
  shows "\<exists>wk ex. lookup (workflows (db w)) (sint (rq_WorkflowId req)) = Some wk \<and>
    lookup (executions (db w)) (sint (rq_ExecutionId req)) = Some ex \<and>
    lookup (executions (db w')) (sint (rq_ExecutionId req)) =
      Some (ex\<lparr>ex_Status := run_status (run_of lib True ro wk), ex_FinishedAt := Some (ro_now ro)\<rparr>) \<and>
    run_status (run_of lib True ro wk) \<in> {''success'', ''failed''} \<and>
    mset (filter (\<lambda>l. sl_ExecutionID l = rq_ExecutionId req) (logs_of (db w'))) =
      mset (filter (\<lambda>l. sl_ExecutionID l = rq_ExecutionId req) (logs_of (db w))) +
      mset (written_logs jsonb ro (rq_ExecutionId req) 0 (run_of lib True ro wk))"
proof -
  let ?calls = "List.map_filter (job_call w) (concat jss)" and ?f = "filter (calling w) (concat cs)" and ?x = "rq_ExecutionId req"
  have sim: "simulated lib jsonb scan_uid (concat jss) w (cs, w')" by (rule simulated_steps [OF assms(1-3)])
  then obtain ts where p: "pool_steps lib jsonb scan_uid True (pool_of ?calls, w) (ts, w')"
    and tr: "list_all2 tracks ?f ts" and js: "map fst (concat cs) = concat jss"
    and oc: "list_all (on_course lib jsonb scan_uid w) (concat cs)"
    by (auto simp: simulated_def)
  have al: "list_all2 (\<lambda>j c. job_call w (fst j) = Some c) ?f ?calls" using calls_aligned [of w "concat cs"] js by simp
  have me: "calling w ((fault, ro, d), Settled Ack (Some req))"
  proof (rule ccontr)
    assume "\<not> calling w ((fault, ro, d), Settled Ack (Some req))"
    then have n: "job_call w (fault, ro, d) = None" by (cases "job_call w (fault, ro, d)") (simp_all add: calling_def)
    then have "handle (engine lib jsonb scan_uid ro) fault d w = (Ack, Some req, w)" using oc assms(5) by simp
    with n show False by (auto simp: handle_def job_call_def split: if_splits option.splits sum.splits db_error.splits prod.splits)
  qed
  let ?i = "length (filter (calling w) as)"
  have f: "?f = filter (calling w) as @ ((fault, ro, d), Settled Ack (Some req)) # filter (calling w) bs"
    using assms(5) me by simp
  have i: "?i < length ?f" "?f ! ?i = ((fault, ro, d), Settled Ack (Some req))" unfolding f by simp_all
  obtain r where c: "ts ! ?i = (ro, Returned r)" "?calls ! ?i = (ro, req)" "Ack = (case r of Inl e \<Rightarrow> Nack | Inr resp \<Rightarrow> Ack)"
    using settled_thread [OF tr i] js by (metis option.inject)
  obtain resp where resp: "r = Inr resp" using c(3) by (cases r) simp_all
  have len: "length ?f = length ?calls" "length ?f = length ts" using list_all2_lengthD [OF al] list_all2_lengthD [OF tr] by simp_all
  have other: "rq_ExecutionId (snd (?calls ! k)) \<noteq> ?x" if k: "k < length ?calls" "k \<noteq> ?i" for k
  proof -
    have "?f ! k \<in> set (as @ bs)"
    proof (cases "k < ?i")
      case True
      then have "?f ! k \<in> set (filter (calling w) as)" unfolding f by (simp add: nth_append del: filter_append set_filter)
      then show ?thesis by simp
    next
      case False
      then have "?f ! k = filter (calling w) bs ! (k - Suc ?i)" using k unfolding f by (simp add: nth_append nth_Cons')
      moreover have "k - Suc ?i < length (filter (calling w) bs)" using False k len unfolding f by simp
      ultimately have "?f ! k \<in> set (filter (calling w) bs)" using nth_mem by metis
      then show ?thesis by simp
    qed
    moreover obtain f1 ro1 d1 p1 where j: "?f ! k = ((f1, ro1, d1), p1)" by (metis prod_cases4 prod.collapse)
    moreover have "job_call w (f1, ro1, d1) = Some (?calls ! k)" using al k(1) len j by (auto simp: list_all2_conv_all_nth)
    from job_callD [OF this] obtain msg where "unmarshal_message (dl_Body d1) = Some msg" "?calls ! k = (ro1, request_of msg)" by blast
    ultimately show ?thesis using assms(6) [of f1 ro1 d1 p1 msg] by (simp add: request_of_def)
  qed
  obtain r0 w0 where run: "RunExecution lib jsonb scan_uid True ro req w = (r0, w0)" by fastforce
  have i': "?i < length ?calls" using i(1) len by simp
  have iso: "snd (ts ! ?i) = Returned r0 \<and>
      lookup (executions (db w')) (sint ?x) = lookup (executions (db w0)) (sint ?x) \<and>
      mset (filter (\<lambda>l. sl_ExecutionID l = ?x) (logs_of (db w'))) = mset (filter (\<lambda>l. sl_ExecutionID l = ?x) (logs_of (db w0)))"
    by (rule isolated_run [OF assms(2) calls_known [OF assms(3)] i' c(2) other p _ assms(4) run assms(8)]) (use c(1) in simp_all)
  then have run': "RunExecution lib jsonb scan_uid True ro req w = (Inr resp, w0)" using run c(1) resp by simp
  show ?thesis
  proof (rule RunExecution_done [OF assms(2) run'])
    fix wk ex
    assume h: "lookup (workflows (db w)) (sint (rq_WorkflowId req)) = Some wk"
      "lookup (executions (db w)) (sint ?x) = Some ex" "live_ex ex" "db_key (ex_ID ex) = sint ?x" "w0 = run_final lib jsonb True ro wk ex w"
    have "logs_of (db w0) = logs_of (db w) @ written_logs jsonb ro ?x 0 (run_of lib True ro wk)"
      using RunExecution_logs [OF assms(2) run' h(1) assms(8) [OF h(1)]] by blast
    moreover have "filter (\<lambda>l. sl_ExecutionID l = ?x) (written_logs jsonb ro ?x 0 (run_of lib True ro wk)) =
        written_logs jsonb ro ?x 0 (run_of lib True ro wk)"
      using written_logs_ids by (auto simp: filter_id_conv)
    moreover have "lookup (executions (db w0)) (sint ?x) =
        Some (ex\<lparr>ex_Status := run_status (run_of lib True ro wk), ex_FinishedAt := Some (ro_now ro)\<rparr>)"
      using run_final_executions [OF h(2-4)] h(5) assms(7) by (simp add: final_row_def)
    moreover have "run_status (run_of lib True ro wk) \<in> {''success'', ''failed''}"
      by (simp add: run_status_def split: option.split)
    ultimately show ?thesis using iso h(1,2) by (intro exI [of _ wk] exI [of _ ex]) simp
  qed
qed

text \<open>The messages of the system name rows that exist.\<close>

lemma published_job_ok:
  assumes ok: "sys_ok w" and p: "p \<in> set (mq w)" "dl_Body d = pub_body p"
  shows "job_ok w (fault, ro, d)"
proof -
  have d: "db_ok (db w)" using ok by (simp add: sys_ok_def gateway_ok_def)
  obtain msg ex where m: "unmarshal_message (dl_Body d) = Some msg"
    "lookup (executions (db w)) (sint (em_ExecutionID msg)) = Some ex" "ex_WorkflowID ex = em_WorkflowID msg"
    using ok p by (auto simp: sys_ok_def message_ok_def)
  have t: "table_ok wf_ID (workflows (db w))" using d by (simp add: db_ok_def)
  obtain wk where wk: "lookup (workflows (db w)) (db_key (em_WorkflowID msg)) = Some wk" using refs_okD(1) [OF d m(2)] m(3) by auto
  have "wf_ID wk = em_WorkflowID msg" using lookup_key_eq [OF t wk] unfolding db_key_def by (rule word_uint_eqI)
  then have "sint (em_WorkflowID msg) = db_key (em_WorkflowID msg)" using row_sint [OF t wk] by simp
  then show ?thesis using m wk by (simp add: job_ok_def rows_exist_def request_of_def)
qed

lemma published_rows:
  assumes "sys_ok w" and "p \<in> set (mq w)" and "unmarshal_message (pub_body p) = Some msg"
  shows "\<exists>ex. lookup (executions (db w)) (sint (em_ExecutionID msg)) = Some ex \<and> live_ex ex"
  using assms by (auto simp: sys_ok_def message_ok_def)

text \<open>C6: an acknowledgement means what it should, in every state the system can reach: when consumers take
  deliveries of published messages from there, interleaving in any way, and have acknowledged one after a call, and
  no other delivery is for the same execution, then the row of the execution carries the final
  status of the abstract run of its workflow's steps, \<open>success\<close> or \<open>failed\<close>, and the time it ended, provided that
  the final update did not fail; and the step logs of the execution are those it had and those of the run.\<close>

theorem acknowledged_is_finished:
  assumes "rtranclp (sys_step S) w0 w" and "sys_ok w0"
    and "\<And>j. j \<in> set (concat jss) \<Longrightarrow> \<exists>p \<in> set (mq w). dl_Body (snd (snd j)) = pub_body p"
    and "consumer_steps (sv_lib S) (sv_jsonb S) (sv_scan S) (consumers_of jss, w) (cs, w')"
    and "next_key (step_logs (db w')) < key_limit"
    and "concat cs = as @ ((fault, ro, d), Settled Ack (Some req)) # bs"
    and "\<And>f ro' d' p msg. ((f, ro', d'), p) \<in> set (as @ bs) \<Longrightarrow> unmarshal_message (dl_Body d') = Some msg \<Longrightarrow>
      em_ExecutionID msg \<noteq> rq_ExecutionId req"
    and "ro_finish ro = None"
    and "\<And>wk. lookup (workflows (db w)) (sint (rq_WorkflowId req)) = Some wk \<Longrightarrow>
      next_key (step_logs (db w)) + int (length (steps_of wk)) \<le> key_limit"
  shows "\<exists>wk ex. lookup (workflows (db w)) (sint (rq_WorkflowId req)) = Some wk \<and>
    lookup (executions (db w)) (sint (rq_ExecutionId req)) = Some ex \<and>
    lookup (executions (db w')) (sint (rq_ExecutionId req)) =
      Some (ex\<lparr>ex_Status := run_status (run_of (sv_lib S) True ro wk), ex_FinishedAt := Some (ro_now ro)\<rparr>) \<and>
    run_status (run_of (sv_lib S) True ro wk) \<in> {''success'', ''failed''} \<and>
    mset (filter (\<lambda>l. sl_ExecutionID l = rq_ExecutionId req) (logs_of (db w'))) =
      mset (filter (\<lambda>l. sl_ExecutionID l = rq_ExecutionId req) (logs_of (db w))) +
      mset (written_logs (sv_jsonb S) ro (rq_ExecutionId req) 0 (run_of (sv_lib S) True ro wk))"
proof -
  have ok: "sys_ok w" using sys.reachable [OF assms(1,2)] .
  have "job_ok w j" if j: "j \<in> set (concat jss)" for j
  proof -
    obtain f ro' d' where e: "j = (f, ro', d')" by (cases j)
    obtain p where "p \<in> set (mq w)" "dl_Body d' = pub_body p" using assms(3) [OF j] e by auto
    then show ?thesis unfolding e by (rule published_job_ok [OF ok])
  qed
  then have jobs: "list_all (job_ok w) (concat jss)" by (simp add: list_all_iff del: set_concat)
  have d: "db_ok (db w)" using ok by (simp add: sys_ok_def gateway_ok_def)
  show ?thesis
  proof (rule acknowledged_finished [OF assms(4) d jobs assms(5,6)])
    show "em_ExecutionID msg \<noteq> rq_ExecutionId req"
      if "((f, ro', d'), p) \<in> set (as @ bs)" "unmarshal_message (dl_Body d') = Some msg" for f ro' d' p msg
      using that by (rule assms(7))
    show "next_key (step_logs (db w)) + int (length (steps_of wk)) \<le> key_limit"
      if "lookup (workflows (db w)) (sint (rq_WorkflowId req)) = Some wk" for wk
      using that by (rule assms(9))
  qed (rule assms(8))
qed

subsection \<open>A delivery alone\<close>

text \<open>Cut into its steps, a delivery without interference is \<open>handle\<close>.\<close>

lemma dispatch_steps_step:
  "dispatch_step lib jsonb scan_uid job s = s' \<Longrightarrow> \<exists>n. (dispatch_step lib jsonb scan_uid job ^^ n) s' = t \<Longrightarrow>
   \<exists>n. (dispatch_step lib jsonb scan_uid job ^^ n) s = t"
  by (metis comp_apply funpow_Suc_right)

lemma dispatch_calls:
  assumes "(call_step lib jsonb scan_uid True ro ^^ n) (c, w) = (Returned r, w')"
  shows "\<exists>k. (dispatch_step lib jsonb scan_uid (fault, ro, d) ^^ k) (Dispatched msg c, w) = (Dispatched msg (Returned r), w')"
  using assms
proof (induction n arbitrary: c w)
  case 0
  then show ?case by (intro exI [of _ 0]) simp
next
  case (Suc n)
  obtain c1 w1 where s: "call_step lib jsonb scan_uid True ro (c, w) = (c1, w1)" by fastforce
  have n: "(call_step lib jsonb scan_uid True ro ^^ n) (c1, w1) = (Returned r, w')"
    using Suc.prems s by (simp add: funpow_Suc_right del: funpow.simps)
  show ?case
  proof (cases "returned c")
    case True
    then have "c1 = c" "w1 = w" using s by (cases c; simp)+
    then show ?thesis using Suc.IH n by simp
  next
    case False
    then have "dispatch_step lib jsonb scan_uid (fault, ro, d) (Dispatched msg c, w) = (Dispatched msg c1, w1)"
      using dispatch_call s by simp
    then show ?thesis using Suc.IH [OF n] by (rule dispatch_steps_step)
  qed
qed

lemma dispatch_reaches:
  assumes "handle (engine lib jsonb scan_uid ro) fault d w = (v, q, w')"
  shows "\<exists>n. (dispatch_step lib jsonb scan_uid (fault, ro, d) ^^ n) (Unread, w) = (Settled v q, w')"
proof -
  let ?s = "\<lambda>s. \<exists>n. (dispatch_step lib jsonb scan_uid (fault, ro, d) ^^ n) s = (Settled v q, w')"
  have here: "?s (Settled v q, w')" by (rule exI [of _ 0]) simp
  have checked: "?s (Unread, w)" if "deathCount (dl_Headers d) < MaxRetries" "unmarshal_message (dl_Body d) = Some msg" "?s (Checking msg, w)" for msg
    using that by - (rule dispatch_steps_step [OF refl], simp)
  have called: "?s (Unread, w)"
    if m: "deathCount (dl_Headers d) < MaxRetries" "unmarshal_message (dl_Body d) = Some msg"
      "db_first fault live_ex (executions (db w)) (db_key (em_ExecutionID msg)) = Inr ex"
      and r: "engine lib jsonb scan_uid ro (request_of msg) w = (res, w')"
      and f: "dispatch_step lib jsonb scan_uid (fault, ro, d) (Dispatched msg (Returned res), w') = (Settled v q, w')" for msg ex res
  proof -
    obtain n where "(call_step lib jsonb scan_uid True ro ^^ n) (Received (request_of msg), w) = (Returned res, w')"
      using call_reaches r unfolding engine_def by blast
    from dispatch_calls [OF this, of fault d msg] obtain k where
      "(dispatch_step lib jsonb scan_uid (fault, ro, d) ^^ k) (Dispatched msg (Received (request_of msg)), w) = (Dispatched msg (Returned res), w')" ..
    then have "(dispatch_step lib jsonb scan_uid (fault, ro, d) ^^ Suc k) (Dispatched msg (Received (request_of msg)), w) = (Settled v q, w')"
      using f by simp
    then have "?s (Dispatched msg (Received (request_of msg)), w)" by blast
    then have "?s (Checking msg, w)" using m(3) by - (rule dispatch_steps_step [OF refl], simp)
    then show ?thesis by (rule checked [OF m(1,2)])
  qed
  show ?thesis
  proof (rule handle_cases [where d = d and fault = fault and w = w and rpc = "engine lib jsonb scan_uid ro"])
    assume "deathCount (dl_Headers d) \<ge> MaxRetries" "handle (engine lib jsonb scan_uid ro) fault d w = (Ack, None, w)"
    then show ?thesis using assms here by - (rule dispatch_steps_step [OF refl], simp)
  next
    assume "deathCount (dl_Headers d) < MaxRetries" "unmarshal_message (dl_Body d) = None"
      "handle (engine lib jsonb scan_uid ro) fault d w = (Ack, None, w)"
    then show ?thesis using assms here by - (rule dispatch_steps_step [OF refl], simp)
  next
    fix msg assume m: "deathCount (dl_Headers d) < MaxRetries" "unmarshal_message (dl_Body d) = Some msg"
      "db_first fault live_ex (executions (db w)) (db_key (em_ExecutionID msg)) = Inl RecordNotFound"
      "handle (engine lib jsonb scan_uid ro) fault d w = (Ack, None, w)"
    then have "?s (Checking msg, w)" using assms here by - (rule dispatch_steps_step [OF refl], simp)
    then show ?thesis by (rule checked [OF m(1,2)])
  next
    fix msg e assume m: "deathCount (dl_Headers d) < MaxRetries" "unmarshal_message (dl_Body d) = Some msg"
      "db_first fault live_ex (executions (db w)) (db_key (em_ExecutionID msg)) = Inl (DbError e)"
      "handle (engine lib jsonb scan_uid ro) fault d w = (Nack, None, w)"
    then have "?s (Checking msg, w)" using assms here by - (rule dispatch_steps_step [OF refl], simp)
    then show ?thesis by (rule checked [OF m(1,2)])
  next
    fix msg ex e w1 assume m: "deathCount (dl_Headers d) < MaxRetries" "unmarshal_message (dl_Body d) = Some msg"
      "db_first fault live_ex (executions (db w)) (db_key (em_ExecutionID msg)) = Inr ex"
      "engine lib jsonb scan_uid ro (request_of msg) w = (Inl e, w1)"
      "handle (engine lib jsonb scan_uid ro) fault d w = (Nack, Some (request_of msg), w1)"
    then have "w1 = w'" "v = Nack" "q = Some (request_of msg)" using assms by simp_all
    then show ?thesis using called [OF m(1-3)] m(4) by simp
  next
    fix msg ex resp w1 assume m: "deathCount (dl_Headers d) < MaxRetries" "unmarshal_message (dl_Body d) = Some msg"
      "db_first fault live_ex (executions (db w)) (db_key (em_ExecutionID msg)) = Inr ex"
      "engine lib jsonb scan_uid ro (request_of msg) w = (Inr resp, w1)"
      "handle (engine lib jsonb scan_uid ro) fault d w = (Ack, Some (request_of msg), w1)"
    then have "w1 = w'" "v = Ack" "q = Some (request_of msg)" using assms by simp_all
    then show ?thesis using called [OF m(1-3)] m(4) by simp
  qed
qed

lemma settled_stays: "(dispatch_step lib jsonb scan_uid job ^^ n) (Settled v q, w) = (Settled v q, w)"
  by (induction n; cases job; simp)

lemma dispatch_is_handle:
  "(\<exists>n. (dispatch_step lib jsonb scan_uid (fault, ro, d) ^^ n) (Unread, w) = (Settled v q, w')) \<longleftrightarrow>
     handle (engine lib jsonb scan_uid ro) fault d w = (v, q, w')"
proof
  let ?f = "dispatch_step lib jsonb scan_uid (fault, ro, d)"
  assume "\<exists>n. (?f ^^ n) (Unread, w) = (Settled v q, w')"
  then obtain n where n: "(?f ^^ n) (Unread, w) = (Settled v q, w')" ..
  obtain v0 q0 w0 where h: "handle (engine lib jsonb scan_uid ro) fault d w = (v0, q0, w0)" using prod_cases3 by blast
  then obtain m where m: "(?f ^^ m) (Unread, w) = (Settled v0 q0, w0)" using dispatch_reaches by blast
  have "(?f ^^ (n + m)) (Unread, w) = (Settled v0 q0, w0)" by (simp add: funpow_add m settled_stays)
  moreover have "(?f ^^ (m + n)) (Unread, w) = (Settled v q, w')" by (simp add: funpow_add n settled_stays)
  ultimately show "handle (engine lib jsonb scan_uid ro) fault d w = (v, q, w')" using h by (simp add: add.commute)
qed (rule dispatch_reaches)

subsection \<open>Samples\<close>

text \<open>A consumer that settles its next delivery while the others wait.\<close>

lemma consumer_runs:
  assumes "i < length cs" and "cs ! i = before @ (job, p) # rest" and "list_all (\<lambda>j. settled (snd j)) before"
    and "(dispatch_step lib jsonb scan_uid job ^^ n) (p, w) = (Settled v q, w')"
  shows "consumer_steps lib jsonb scan_uid (cs, w) (cs[i := before @ (job, Settled v q) # rest], w')"
  using assms
proof (induction n arbitrary: cs p w)
  case 0
  then have "cs[i := before @ (job, Settled v q) # rest] = cs" "w = w'" by (metis funpow_0 list_update_id prod.inject)+
  then show ?case by simp
next
  case (Suc n)
  obtain p1 w1 where s: "dispatch_step lib jsonb scan_uid job (p, w) = (p1, w1)" by fastforce
  have n: "(dispatch_step lib jsonb scan_uid job ^^ n) (p1, w1) = (Settled v q, w')"
    using Suc.prems(4) s by (simp add: funpow_Suc_right del: funpow.simps)
  show ?case
  proof (cases "settled p")
    case True
    then have "p1 = p" "w1 = w" using s by (cases p; cases job; simp)+
    then show ?thesis using Suc.IH [OF Suc.prems(1-3)] n by simp
  next
    case False
    let ?cs = "cs[i := before @ (job, p1) # rest]"
    have "consumer_step lib jsonb scan_uid (cs, w) (?cs, w1)"
      using consumer_act.act [OF Suc.prems(1-3) False s] by (rule consumer_step.work)
    moreover have "consumer_steps lib jsonb scan_uid (?cs, w1) (?cs[i := before @ (job, Settled v q) # rest], w')"
      using Suc.IH [of ?cs p1 w1] Suc.prems(1,3) n by simp
    ultimately show ?thesis using converse_rtranclp_into_rtranclp by fastforce
  qed
qed

text \<open>Two consumers, each with a delivery for its own execution.\<close>

definition second_message :: ExecutionMessage where
  "second_message = sample_message\<lparr>em_ExecutionID := 2\<rparr>"

definition job_of :: "ExecutionMessage \<Rightarrow> job" where
  "job_of msg = (None, sample_oracle, \<lparr>dl_Headers = None, dl_Body = marshal_message msg\<rparr>)"

lemma sample_unmarshal:
  "unmarshal_message (marshal_message sample_message) = Some sample_message"
  "unmarshal_message (marshal_message second_message) = Some second_message"
  by (rule unmarshal_marshal_message, code_simp)+

lemma sample_requests: "request_of sample_message = engine_req" "request_of second_message = second_req"
  by (simp_all add: request_of_def sample_message_def second_message_def engine_req_def second_req_def)

lemma sample_jobs_ok: "list_all (job_ok pool_world) [job_of sample_message, job_of second_message]"
  using pool_world_ok(4,5) by (simp add: job_ok_def job_of_def sample_unmarshal sample_requests)

lemma pool_world_row: "lookup (executions (db pool_world)) 1 = Some engine_execution" "live_ex engine_execution"
  by (simp_all add: pool_world_def lookup_def live_ex_def engine_execution_def)

lemma first_handled:
  obtains w1 where "handle (engine sample_lib Inr (\<lambda>u. None) sample_oracle) None \<lparr>dl_Headers = None, dl_Body = marshal_message sample_message\<rparr>
      pool_world = (Ack, Some engine_req, w1)" "next_key (step_logs (db w1)) < key_limit"
proof -
  have l: "load_workflow (\<lambda>u. None) sample_oracle 1 pool_world = Inr engine_workflow"
    "load_execution sample_oracle 1 pool_world = Inr engine_execution"
    by (simp_all add: load_workflow_def load_execution_def db_first_def sample_oracle_def pool_world_def engine_world_def lookup_def
      engine_workflow_def engine_execution_def live_wf_def live_ex_def)
  obtain resp w1 where r: "alone engine_req pool_world = (Inr resp, w1)"
    using l by (simp add: RunExecution_spec engine_req_def)
  let ?d = "\<lparr>dl_Headers = None, dl_Body = marshal_message sample_message\<rparr>"
  have m: "deathCount (dl_Headers ?d) < MaxRetries" by (simp add: deathCount_def MaxRetries_def)
  have u: "unmarshal_message (dl_Body ?d) = Some sample_message" by (simp add: sample_unmarshal)
  have x: "lookup (executions (db pool_world)) (sint (em_ExecutionID sample_message)) = Some engine_execution"
    using pool_world_row(1) by (simp add: sample_message_def)
  have "handle (engine sample_lib Inr (\<lambda>u. None) sample_oracle) None ?d pool_world = (Ack, Some engine_req, w1)"
    using handle_engine [OF m u pool_world_ok(1) x pool_world_row(2), of sample_lib Inr "\<lambda>u. None" sample_oracle] r
    by (simp add: sample_requests)
  moreover have "next_key (step_logs (db w1)) \<le> 5"
    using run_key [OF pool_world_ok(1) r, of engine_workflow] pool_world_ok(2,3) sample_steps_length
    by (simp add: key_limit_def engine_req_def)
  ultimately show ?thesis using that by (simp add: key_limit_def)
qed

lemma first_settles:
  obtains w1 where "consumer_steps sample_lib Inr (\<lambda>u. None) (consumers_of [[job_of sample_message], [job_of second_message]], pool_world)
      ([[(job_of sample_message, Settled Ack (Some engine_req))], [(job_of second_message, Unread)]], w1)"
    "next_key (step_logs (db w1)) < key_limit"
proof -
  obtain w1 where h: "handle (engine sample_lib Inr (\<lambda>u. None) sample_oracle) None \<lparr>dl_Headers = None, dl_Body = marshal_message sample_message\<rparr>
      pool_world = (Ack, Some engine_req, w1)" and k: "next_key (step_logs (db w1)) < key_limit"
    by (rule first_handled)
  obtain n where n: "(dispatch_step sample_lib Inr (\<lambda>u. None) (job_of sample_message) ^^ n) (Unread, pool_world) = (Settled Ack (Some engine_req), w1)"
    using dispatch_reaches [OF h] by (auto simp: job_of_def)
  show ?thesis
    using that [OF _ k] consumer_runs [where i = 0 and before = "[]" and rest = "[]", OF _ _ _ n,
        of "consumers_of [[job_of sample_message], [job_of second_message]]"]
    by (simp add: consumers_of_def)
qed

theorem deliveries_do_not_mix_witness:
  "\<exists>cs w'. consumer_steps sample_lib Inr (\<lambda>u. None) (consumers_of [[job_of sample_message], [job_of second_message]], pool_world) (cs, w') \<and>
     map fst (concat cs) = [job_of sample_message, job_of second_message] \<and> settled (snd (hd (concat cs))) \<and>
     snd (hd (concat cs)) = (case handle (engine sample_lib Inr (\<lambda>u. None) sample_oracle) None
       \<lparr>dl_Headers = None, dl_Body = marshal_message sample_message\<rparr> pool_world of (v, q, w0) \<Rightarrow> Settled v q)"
proof (rule first_settles)
  fix w1
  let ?cs = "[[(job_of sample_message, Settled Ack (Some engine_req))], [(job_of second_message, Unread)]]"
  assume s: "consumer_steps sample_lib Inr (\<lambda>u. None) (consumers_of [[job_of sample_message], [job_of second_message]], pool_world) (?cs, w1)"
    and k: "next_key (step_logs (db w1)) < key_limit"
  have "list_all (job_ok pool_world) (concat [[job_of sample_message], [job_of second_message]])" using sample_jobs_ok by simp
  from deliveries_do_not_mix [OF s pool_world_ok(1) this k]
  have v: "Settled Ack (Some engine_req) = (case handle (engine sample_lib Inr (\<lambda>u. None) sample_oracle) None
       \<lparr>dl_Headers = None, dl_Body = marshal_message sample_message\<rparr> pool_world of (v, q, w0) \<Rightarrow> Settled v q)"
    by (simp add: job_of_def)
  show ?thesis by (rule exI [of _ ?cs], rule exI [of _ w1], intro conjI, rule s) (simp_all add: v [symmetric])
qed

lemma trigger_keeps:
  assumes "TriggerWorkflow jsonb inject now F req w = (r, w')"
  shows "workflows (db w') = workflows (db w) \<and> step_logs (db w') = step_logs (db w)"
  using assms by (cases rule: TriggerWorkflow_cases) simp_all

theorem acknowledged_is_finished_witness:
  "\<exists>cs w'. consumer_steps sample_lib Inr (\<lambda>u. None)
       (consumers_of [[(None, sample_oracle, \<lparr>dl_Headers = None, dl_Body = pub_body (last (mq webhook_world))\<rparr>)]], webhook_world) (cs, w') \<and>
     (\<exists>ex. lookup (executions (db w')) 2 = Some ex \<and> ex_Status ex = ''failed'' \<and> ex_FinishedAt ex = Some 99)"
proof -
  let ?d = "\<lparr>dl_Headers = None, dl_Body = pub_body (last (mq webhook_world))\<rparr>"
  let ?m = "queued_message webhook_req 2"
  have ok: "sys_ok webhook_world"
    using sys.reachable [OF webhook_reachable engine_sys_ok] .
  then have d: "db_ok (db webhook_world)" by (simp add: sys_ok_def gateway_ok_def)
  have "valid_utf8 (trigger_payload webhook_req)" unfolding webhook_payload by code_simp
  then have u: "unmarshal_message (dl_Body ?d) = Some ?m"
    by (simp add: webhook_mq publication_def unmarshal_marshal_message queued_message_def)
  have c: "deathCount (dl_Headers ?d) < MaxRetries" by (simp add: deathCount_def MaxRetries_def)
  have i: "sint (em_ExecutionID ?m) = 2" "sint (em_WorkflowID ?m) = 1" by (simp_all add: queued_message_def webhook_payload)
  have w: "workflows (db webhook_world) = workflows (db engine_world)" "step_logs (db webhook_world) = step_logs (db engine_world)"
    using trigger_keeps [OF webhook_triggers] by blast+
  obtain ex where x: "lookup (executions (db webhook_world)) 2 = Some ex" "live_ex ex"
    using published_rows [OF ok, of "publication [] ?m"] u i by (auto simp: webhook_mq)
  have k: "lookup (workflows (db webhook_world)) 1 = Some engine_workflow" "live_wf engine_workflow"
    by (simp_all add: w engine_world_def lookup_def live_wf_def engine_workflow_def)
  have o: "ro_workflow sample_oracle = None" "ro_execution sample_oracle = None" by (simp_all add: sample_oracle_def)
  obtain w2 where h: "handle (engine sample_lib Inr (\<lambda>u. None) sample_oracle) None ?d webhook_world = (Ack, Some (request_of ?m), w2)"
    using settles [where scan_uid = "\<lambda>u. None" and lib = sample_lib and jsonb = Inr, OF c u d _ x(2) _ k(2) refl o sample_finish(1)] x(1) k(1)
    unfolding i by blast
  let ?j = "(None, sample_oracle, ?d)" and ?cs = "[[((None, sample_oracle, ?d), Settled Ack (Some (request_of ?m)))]]"
  obtain n where n: "(dispatch_step sample_lib Inr (\<lambda>u. None) ?j ^^ n) (Unread, webhook_world) = (Settled Ack (Some (request_of ?m)), w2)"
    using dispatch_reaches [OF h] by blast
  have s: "consumer_steps sample_lib Inr (\<lambda>u. None) (consumers_of [[?j]], webhook_world) (?cs, w2)"
    using consumer_runs [where i = 0 and before = "[]" and rest = "[]" and cs = "consumers_of [[?j]]", OF _ _ _ n]
    by (simp add: consumers_of_def)
  have b: "next_key (step_logs (db webhook_world)) + int (length (steps_of engine_workflow)) \<le> 5"
    using sample_steps_length by (simp add: w engine_world_def empty_table_def)
  have r: "rq_ExecutionId (request_of ?m) = 2" "rq_WorkflowId (request_of ?m) = 1"
    by (simp_all add: request_of_def queued_message_def webhook_payload)
  have "w2 = snd (RunExecution sample_lib Inr (\<lambda>u. None) True sample_oracle (request_of ?m) webhook_world)"
    using handle_engine [OF c u d _ x(2), of sample_lib Inr "\<lambda>u. None" sample_oracle] x(1) h unfolding i by (auto split: prod.splits sum.splits)
  moreover have "next_key (step_logs (db (snd (RunExecution sample_lib Inr (\<lambda>u. None) True sample_oracle (request_of ?m) webhook_world)))) \<le> 5"
    by (rule order_trans [OF conjunct2 [OF conjunct2 [OF run_key [OF d surjective_pairing, where req = "request_of ?m" and wk = engine_workflow]]] b])
      (use k(1) r b in \<open>simp_all add: key_limit_def\<close>)
  ultimately have "next_key (step_logs (db w2)) \<le> 5" by simp
  then have lim: "next_key (step_logs (db w2)) < key_limit" by (simp add: key_limit_def)
  have v: "sv_lib sample_services = sample_lib" "sv_jsonb sample_services = Inr" "sv_scan sample_services = (\<lambda>u. None)"
    by (simp_all add: sample_services_def)
  have p: "\<exists>p \<in> set (mq webhook_world). dl_Body (snd (snd j)) = pub_body p" if "j \<in> set (concat [[?j]])" for j
    using that by (simp add: webhook_mq)
  have l: "next_key (step_logs (db webhook_world)) + int (length (steps_of wk)) \<le> key_limit"
    if "lookup (workflows (db webhook_world)) (sint (rq_WorkflowId (request_of ?m))) = Some wk" for wk
    using that b k(1) r by (simp add: key_limit_def)
  have e: "concat ?cs = [] @ ((None, sample_oracle, ?d), Settled Ack (Some (request_of ?m))) # []" by simp
  from acknowledged_is_finished [OF webhook_reachable engine_sys_ok p s [folded v] lim e _ sample_finish(1) l]
  have "\<exists>ex. lookup (executions (db w2)) 2 = Some ex \<and> ex_Status ex = ''failed'' \<and> ex_FinishedAt ex = Some 99"
    using k(1) by (auto simp: r v sample_run_error run_status_def sample_finish)
  then show ?thesis using s by blast
qed

end
