(* ===== verification/Races.thy ===== *)
theory Races
  imports WorkflowProps EventStream
begin

section \<open>Races\<close>

text \<open>
  Two handlers of the gateway make several calls to Redis and PostgreSQL with nothing that keeps
  other requests out in between. The first is \<open>GetWorkflow\<close>
  (\<open>api-gateway/internal/logic/workflowlogic.go\<close>), which reads the database on a cache miss and
  fills the cache afterwards; the second is the event stream
  (\<open>api-gateway/internal/handler/executionstreamhandler.go\<close>), which reads the execution's
  status and subscribes afterwards. This theory cuts both at these points and shows what a
  request that acts in between leaves behind.
\<close>

subsection \<open>A reader of a workflow, step by step\<close>

text \<open>
  The reader has been called; it has a cached item whose owner is to be checked; it has missed
  the cache; it has read the row, and the cache is to be filled; it has answered.
\<close>

datatype reader =
    Asked int64
  | CacheHit WorkflowItem
  | CacheMiss int64
  | RowRead int64 workflow
  | Answered "error + WorkflowItem"

fun reader_step :: "faults \<Rightarrow> ctx \<Rightarrow> reader \<times> world \<Rightarrow> reader \<times> world" where
  "reader_step F ctx (Asked i, w) = (case redis_get (f_cget F) (cache_key i) w of
      Inl e \<Rightarrow> (CacheMiss i, w)
    | Inr cached \<Rightarrow> (case unmarshal_item cached of None \<Rightarrow> (CacheMiss i, w) | Some item \<Rightarrow> (CacheHit item, w)))"
| "reader_step F ctx (CacheHit item, w) = (case checkOwnership (f_read F) ctx (it_Id item) w of
      Some e \<Rightarrow> (Answered (Inl e), w)
    | None \<Rightarrow> (Answered (Inr item), w))"
| "reader_step F ctx (CacheMiss i, w) = (case db_first (f_read F) live_wf (workflows (db w)) (sint i) of
      Inl e \<Rightarrow> (Answered (Inl (load_error e)), w)
    | Inr wk \<Rightarrow> (case checkOwnershipModel ctx wk of
        Some e \<Rightarrow> (Answered (Inl e), w)
      | None \<Rightarrow> (RowRead i wk, w)))"
| "reader_step F ctx (RowRead i wk, w) = (Answered (Inr (toWorkflowItem wk)),
      redis_setex (f_cset F) (cache_key i) (marshal_item (toWorkflowItem wk)) (5 * minute) w)"
| "reader_step F ctx (Answered r, w) = (Answered r, w)"

text \<open>Three steps, undisturbed, are \<open>GetWorkflow\<close>.\<close>

theorem reader_alone:
  "(reader_step F ctx ^^ 3) (Asked i, w) = apfst Answered (GetWorkflow F ctx i w)"
  by (simp add: numeral_3_eq_3 GetWorkflow_def Let_def split: sum.split option.split)

subsection \<open>A write between the read and the fill\<close>

lemma cache_look_setex: "cache_look (redis_setex None k v ttl w) k = Some v"
  by (simp add: cache_look_def redis_setex_def)

lemma setex_db: "db (redis_setex f k v ttl w) = db w"
  by (simp add: redis_setex_def split: option.split)

text \<open>What a cached item answers, whatever the row has become in the meantime.\<close>

lemma stale_hit:
  assumes "item_utf8 (toWorkflowItem wk)" and "sint (wf_ID wk) = sint i" and "f_cset R = None"
    and "lookup (workflows (db w)) (sint i) = Some wk'" and "wf_UserID wk' = wf_UserID wk"
    and "f_read G = None" and "f_cget G = None"
  shows "fst (GetWorkflow G c i (redis_setex (f_cset R) (cache_key i) (marshal_item (toWorkflowItem wk)) ttl w)) =
    (if HasRole c ''admin'' then Inr (toWorkflowItem wk)
     else if \<not> live_wf wk' then Inl ''workflow not found''
     else if can_access c wk then Inr (toWorkflowItem wk) else Inl ''forbidden'')"
proof -
  let ?w = "redis_setex (f_cset R) (cache_key i) (marshal_item (toWorkflowItem wk)) ttl w"
  have "redis_get (f_cget G) (cache_key i) ?w = Inr (marshal_item (toWorkflowItem wk))"
    using assms(3,7) by (simp add: redis_get_def redis_setex_def)
  moreover have "checkOwnership None c (it_Id (toWorkflowItem wk)) ?w = (if HasRole c ''admin'' then None
     else if \<not> live_wf wk' then Some ''workflow not found'' else if can_access c wk then None else Some ''forbidden'')"
    using assms(2,4,5)
    by (simp add: checkOwnership_def toWorkflowItem_def setex_db db_first_None ownerCheck_def can_access_def)
  ultimately show ?thesis
    using unmarshal_marshal_item [OF assms(1)] assms(6) by (simp add: GetWorkflow_def Let_def)
qed

lemma reader_reads:
  assumes "lookup (workflows (db w)) (sint i) = Some wk" and "live_wf wk" and "can_access r wk"
    and "cache w (cache_key i) = None" and "f_read R = None"
  shows "(reader_step R r ^^ 2) (Asked i, w) = (RowRead i wk, w)"
  using assms
  by (simp add: numeral_2_eq_2 redis_get_def db_first_None ownership_access split: option.split)

text \<open>C33: an update can be undone for every reader. A reader that has missed the cache reads the
  row; the workflow is updated and its cache entry deleted, both successfully; then the reader
  fills the cache. From then on the gateway answers everybody with the workflow as it was before the
  update, as long as the entry lives (five minutes), although no call has failed.\<close>

theorem update_lost_to_a_reader:
  assumes "gateway_ok w" and "texts_utf8 (db w)" and "cache w (cache_key (ur_Id req)) = None"
    and "lookup (workflows (db w)) (sint (ur_Id req)) = Some wk" and "can_access r wk"
    and "f_read R = None" and "f_cset R = None"
    and "UpdateWorkflow jsonb F u req w = (Inr b, w1)" and "f_cdel F = None"
    and "f_read G = None" and "f_cget G = None"
  shows "\<exists>w2. (reader_step R r ^^ 2) (Asked (ur_Id req), w) = (RowRead (ur_Id req) wk, w) \<and>
    reader_step R r (RowRead (ur_Id req) wk, w1) = (Answered (Inr (toWorkflowItem wk)), w2) \<and>
    cache w1 (cache_key (ur_Id req)) = None \<and>
    fst (GetWorkflow G c (ur_Id req) w2) = visible_item c (sint (ur_Id req)) (db w)"
proof (rule UpdateWorkflow_done [OF assms(1,8)])
  fix wk' tc st t
  assume h: "lookup (workflows (db w)) (sint (ur_Id req)) = Some wk'" "live_wf wk'"
    "\<And>j. lookup t j = (if j = sint (ur_Id req) then Some (apply_updates req tc st wk') else lookup (workflows (db w)) j)"
    "w1 = redis_del (f_cdel F) (cache_key (ur_Id req)) (set_workflows t w)"
  have wk: "wk' = wk" using h(1) assms(4) by simp
  have l: "lookup (workflows (db w1)) (sint (ur_Id req)) = Some (apply_updates req tc st wk)" using h(3,4) wk by simp
  have u: "item_utf8 (toWorkflowItem wk)" using assms(2,4) by (auto simp: texts_utf8_def)
  have i: "sint (wf_ID wk) = sint (ur_Id req)" by (rule live_key [OF gateway_ok_table [OF assms(1)] assms(4)])
  have live: "live_wf wk" "live_wf (apply_updates req tc st wk)" using h(2) wk by (simp_all add: live_wf_def)
  have "cache w1 (cache_key (ur_Id req)) = None" using h(4) assms(9) by (simp add: redis_del_def)
  moreover have "fst (GetWorkflow G c (ur_Id req) (redis_setex (f_cset R) (cache_key (ur_Id req))
      (marshal_item (toWorkflowItem wk)) (5 * minute) w1)) = visible_item c (sint (ur_Id req)) (db w)"
    using stale_hit [OF u i assms(7) l _ assms(10,11)] live assms(4) by (simp add: visible_item_def can_access_def)
  ultimately show ?thesis
    using reader_reads [OF assms(4) live(1) assms(5,3,6)] by simp
qed

text \<open>In the same way a reader revives a deleted workflow, for administrators: their access is
  not checked against the row.\<close>

theorem deletion_lost_to_a_reader:
  assumes "gateway_ok w" and "texts_utf8 (db w)" and "cache w (cache_key i) = None"
    and "lookup (workflows (db w)) (sint i) = Some wk" and "can_access r wk"
    and "f_read R = None" and "f_cset R = None"
    and "DeleteWorkflow now F u i w = (Inr b, w1)" and "f_cdel F = None"
    and "f_read G = None" and "f_cget G = None"
  shows "\<exists>w2. (reader_step R r ^^ 2) (Asked i, w) = (RowRead i wk, w) \<and>
    reader_step R r (RowRead i wk, w1) = (Answered (Inr (toWorkflowItem wk)), w2) \<and>
    fst (GetWorkflow G c i w2) = (if HasRole c ''admin'' then Inr (toWorkflowItem wk) else Inl ''workflow not found'')"
proof (rule DeleteWorkflow_done [OF assms(1,8)])
  fix wk' t
  assume h: "lookup (workflows (db w)) (sint i) = Some wk'" "live_wf wk'"
    "\<And>j. lookup t j = (if j = sint i then Some (wk'\<lparr>wf_DeletedAt := Some now\<rparr>) else lookup (workflows (db w)) j)"
    "w1 = redis_del (f_cdel F) (cache_key i) (set_workflows t w)"
  have wk: "wk' = wk" using h(1) assms(4) by simp
  have l: "lookup (workflows (db w1)) (sint i) = Some (wk\<lparr>wf_DeletedAt := Some now\<rparr>)" using h(3,4) wk by simp
  have u: "item_utf8 (toWorkflowItem wk)" using assms(2,4) by (auto simp: texts_utf8_def)
  have i: "sint (wf_ID wk) = sint i" by (rule live_key [OF gateway_ok_table [OF assms(1)] assms(4)])
  have "fst (GetWorkflow G c i (redis_setex (f_cset R) (cache_key i) (marshal_item (toWorkflowItem wk)) (5 * minute) w1)) =
      (if HasRole c ''admin'' then Inr (toWorkflowItem wk) else Inl ''workflow not found'')"
    using stale_hit [OF u i assms(7) l _ assms(10,11)] by (simp add: live_wf_def)
  then show ?thesis
    using reader_reads [OF assms(4) _ assms(5,3,6)] h(2) wk by simp
qed

subsection \<open>A run between the check and the subscription\<close>

text \<open>C21: a client can wait for ever for an execution that is over. The handler reads a status that
  is not final, the engine then finishes the execution, and the handler subscribes: it is
  delivered only what is published afterwards. Until another execution of the workflow
  finishes, or the client leaves, it writes nothing, not even the final status in the table,
  and does not return.\<close>

theorem finish_before_subscription:
  assumes "db_ok (db w)" and "RunExecution lib jsonb scan_uid rdb ro req w = (Inr resp, w')"
    and "lookup (executions (db w)) (sint (rq_ExecutionId req)) = Some ex" and "ex_WorkflowID ex = rq_WorkflowId req"
    and "ex_Status ex \<notin> {''success'', ''failed''}" and "ro_finish ro = None"
    and "subscribe (channel_of (rq_WorkflowId req)) = map Msg (map snd (filter (\<lambda>e. fst e = channel_of (rq_WorkflowId req))
      (drop (length (pubsub w')) (pubsub later))))"
    and "list_all (\<lambda>e. fst e = channel_of (rq_WorkflowId req) \<longrightarrow> \<not> isFinished (snd e)) (drop (length (pubsub w')) (pubsub later))"
  shows "(\<exists>row. lookup (executions (db w')) (sint (rq_ExecutionId req)) = Some row \<and> ex_Status row \<in> {''success'', ''failed''}) \<and>
    (\<exists>body. ExecutionStreamHandler None True subscribe (rq_ExecutionId req) w =
      Streaming \<lparr>sse_headers = sse_header_list, sse_body = body, sse_ended = False\<rparr>)"
proof (rule RunExecution_done [OF assms(1,2)])
  fix wk ex'
  assume h: "lookup (executions (db w)) (sint (rq_ExecutionId req)) = Some ex'" "live_ex ex'"
    "db_key (ex_ID ex') = sint (rq_ExecutionId req)" "w' = run_final lib jsonb rdb ro wk ex' w"
  have ex: "ex' = ex" using h(1) assms(3) by simp
  have wait: "snd (stream_events (map Msg ps)) = False" if "list_all (\<lambda>p. \<not> isFinished p) ps" for ps
    using that by (induction ps) (auto split: prod.split)
  have "list_all (\<lambda>p. \<not> isFinished p) (map snd (filter (\<lambda>e. fst e = channel_of (rq_WorkflowId req))
      (drop (length (pubsub w')) (pubsub later))))"
    using assms(8) by (auto simp: list_all_iff)
  from wait [OF this] have "snd (stream_events (subscribe (channel_of (ex_WorkflowID ex)))) = False"
    unfolding assms(4,7) .
  then obtain body where b: "stream_events (subscribe (channel_of (ex_WorkflowID ex))) = (body, False)"
    by (metis prod.collapse)
  have "lookup (executions (db w')) (sint (rq_ExecutionId req)) = Some (final_row ro (run_status (run_of lib rdb ro wk)) ex)"
    using run_final_executions [OF h(1-3)] h(4) ex by simp
  moreover have "ex_Status (final_row ro (run_status (run_of lib rdb ro wk)) ex) \<in> {''success'', ''failed''}"
    using assms(6) by (simp add: final_row_def run_status_def split: option.split)
  moreover have "ExecutionStreamHandler None True subscribe (rq_ExecutionId req) w =
      Streaming \<lparr>sse_headers = sse_header_list, sse_body = body, sse_ended = False\<rparr>"
    using handler_streams [where subscribe = subscribe, OF assms(3) _ assms(5) b] h(2) ex by simp
  ultimately show ?thesis by blast
qed

subsection \<open>Witnesses\<close>

definition cold_world :: world where
  "cold_world = sample_world\<lparr>cache := Map.empty\<rparr>"

lemma cold_ok: "gateway_ok cold_world" "texts_utf8 (db cold_world)"
  "lookup (workflows (db cold_world)) 1 = Some (sample_workflow 1 ''alice'' None)"
  using sample_ok sample_utf8
  by (simp_all add: cold_world_def gateway_ok_def cache_ok_def coherent_def cache_look_def sample_world_def lookup_sample)

lemma cold_update: "UpdateWorkflow sample_jsonb no_faults (sample_ctx ''alice'') sample_req cold_world =
  (Inr True, snd (UpdateWorkflow sample_jsonb no_faults (sample_ctx ''alice'') sample_req cold_world))"
  by (rule pair_fst) code_simp

theorem update_lost_to_a_reader_witness:
  "\<exists>w2. fst (GetWorkflow no_faults (sample_ctx ''alice'') 1 w2) = Inr (toWorkflowItem (sample_workflow 1 ''alice'' None)) \<and>
     reader_step no_faults (sample_ctx ''alice'') (RowRead 1 (sample_workflow 1 ''alice'' None),
       snd (UpdateWorkflow sample_jsonb no_faults (sample_ctx ''alice'') sample_req cold_world)) =
     (Answered (Inr (toWorkflowItem (sample_workflow 1 ''alice'' None))), w2)"
proof -
  have a: "can_access (sample_ctx ''alice'') (sample_workflow 1 ''alice'' None)" by code_simp
  have i: "ur_Id sample_req = 1" by (simp add: sample_req_def)
  have l: "lookup (workflows (db cold_world)) (sint (ur_Id sample_req)) = Some (sample_workflow 1 ''alice'' None)"
    using cold_ok(3) i by simp
  have m: "cache cold_world (cache_key (ur_Id sample_req)) = None" by (simp add: cold_world_def)
  have f: "f_read no_faults = None" "f_cset no_faults = None" "f_cdel no_faults = None" "f_cget no_faults = None"
    by (simp_all add: no_faults_def)
  have v: "visible_item (sample_ctx ''alice'') (sint (1 :: int64)) (db cold_world) = Inr (toWorkflowItem (sample_workflow 1 ''alice'' None))"
    using cold_ok(3) a by (simp add: visible_item_def live_wf_def) (simp add: sample_workflow_def)
  show ?thesis
    using update_lost_to_a_reader [OF cold_ok(1,2) m l a f(1,2) cold_update f(3,1,4), of "sample_ctx ''alice''"]
    unfolding i v by blast
qed

theorem finish_before_subscription_witness:
  "\<exists>body. ExecutionStreamHandler None True (\<lambda>ch. []) 1 engine_world =
     Streaming \<lparr>sse_headers = sse_header_list, sse_body = body, sse_ended = False\<rparr>"
proof -
  have e: "lookup (executions (db engine_world)) (sint (rq_ExecutionId engine_req)) = Some engine_execution"
    by (simp add: engine_world_def engine_req_def lookup_def)
  have s: "ex_WorkflowID engine_execution = rq_WorkflowId engine_req" "ex_Status engine_execution \<notin> {''success'', ''failed''}"
    "rq_ExecutionId engine_req = 1"
    by (simp_all add: engine_execution_def engine_req_def)
  have r: "sample_run = (Inr \<lparr>rr_Status = ''failed'', rr_Error = ''unknown step type: teleport''\<rparr>, snd sample_run)"
    unfolding sample_run_eq by simp
  show ?thesis
    using finish_before_subscription [where subscribe = "\<lambda>ch. []" and later = "snd sample_run",
        OF engine_db_ok r e s(1,2) sample_finish(1)] s(3) by simp
qed

end
