(* ===== verification/Readers.thy ===== *)
theory Readers
  imports Races
begin

section \<open>Readers among writers\<close>

text \<open>
  Any number of readers, each with its caller and the key it asked for, interleaved with
  requests that create, update or delete workflows and with the expiry of cache entries. Every call may
  fail, also the invalidation of the cache. The last component remembers the databases there have been,
  the present one first; the texts stored are UTF-8, which PostgreSQL requires.
\<close>

type_synonym reading = "(faults \<times> ctx \<times> int64) \<times> reader"

fun is_read :: "workflow_op \<Rightarrow> bool" where
  "is_read (OpGet ctx i) = True"
| "is_read _ = False"

inductive reading_step :: "(string \<Rightarrow> error + string) \<Rightarrow> reading list \<times> world \<times> database list
    \<Rightarrow> reading list \<times> world \<times> database list \<Rightarrow> bool" for jsonb where
  read: "reading_step jsonb (rs, w, past) (rs[j := ((F, ctx, i), r')], w', past)"
    if "j < length rs" "rs ! j = ((F, ctx, i), r)" "reader_step F ctx (r, w) = (r', w')"
| change: "reading_step jsonb (rs, w, past) (rs, w', db w' # past)"
    if "\<not> is_read op" "w' = workflow_step jsonb (F, op) w" "texts_utf8 (db w')"

text \<open>A workflow row that has been: what was cached or read is an item of one.\<close>

definition was_row :: "database list \<Rightarrow> int64 \<Rightarrow> workflow \<Rightarrow> bool" where
  "was_row past i wk \<longleftrightarrow> (\<exists>d \<in> set past. lookup (workflows d) (sint i) = Some wk \<and> live_wf wk)"

fun reader_inv :: "database list \<Rightarrow> reading \<Rightarrow> bool" where
  "reader_inv past ((F, ctx, i), Asked j) = (j = i)"
| "reader_inv past ((F, ctx, i), CacheMiss j) = (j = i)"
| "reader_inv past ((F, ctx, i), CacheHit item) = (\<exists>wk. was_row past i wk \<and> item = toWorkflowItem wk)"
| "reader_inv past ((F, ctx, i), RowRead j wk) = (j = i \<and> was_row past i wk \<and> can_access ctx wk)"
| "reader_inv past ((F, ctx, i), Answered (Inr item)) = (\<exists>wk. was_row past i wk \<and> item = toWorkflowItem wk \<and> can_access ctx wk)"
| "reader_inv past ((F, ctx, i), Answered (Inl e)) = True"

definition reading_inv :: "reading list \<times> world \<times> database list \<Rightarrow> bool" where
  "reading_inv s \<longleftrightarrow> (case s of (rs, w, past) \<Rightarrow>
     db w \<in> set past \<and> table_ok wf_ID (workflows (db w)) \<and>
     (\<forall>d \<in> set past. texts_utf8 d \<and> (\<forall>k wk. lookup (workflows d) k = Some wk \<longrightarrow> sint (wf_ID wk) = k \<and>
        (\<exists>now. lookup (workflows (db w)) k = Some now \<and> wf_UserID now = wf_UserID wk))) \<and>
     (\<forall>i v. cache_look w (cache_key i) = Some v \<longrightarrow> (\<exists>wk. was_row past i wk \<and> v = marshal_item (toWorkflowItem wk))) \<and>
     list_all (reader_inv past) rs)"

lemma was_row_mono: "was_row past i wk \<Longrightarrow> set past \<subseteq> set past' \<Longrightarrow> was_row past' i wk"
  by (auto simp: was_row_def)

lemma reader_inv_mono: "reader_inv past r \<Longrightarrow> set past \<subseteq> set past' \<Longrightarrow> reader_inv past' r"
  by (cases "(past, r)" rule: reader_inv.cases) (auto intro: was_row_mono)

lemma cache_key_inject: "cache_key i = cache_key j \<longleftrightarrow> i = j"
  by (auto simp: cache_key_def intro: signed_word_eqI)

text \<open>A write keeps the rows' owners and adds nothing to the cache.\<close>

definition write_frame :: "world \<Rightarrow> world \<Rightarrow> bool" where
  "write_frame w w' \<longleftrightarrow> table_ok wf_ID (workflows (db w')) \<and>
     (\<forall>k wk. lookup (workflows (db w)) k = Some wk \<longrightarrow>
        (\<exists>wk'. lookup (workflows (db w')) k = Some wk' \<and> wf_UserID wk' = wf_UserID wk)) \<and>
     (\<forall>k v. cache_look w' k = Some v \<longrightarrow> cache_look w k = Some v)"

lemma write_frame_refl: "table_ok wf_ID (workflows (db w)) \<Longrightarrow> write_frame w w"
  by (simp add: write_frame_def)

lemma cache_look_del: "cache_look (redis_del f k w) j = Some v \<Longrightarrow> cache_look w j = Some v"
  by (auto simp: cache_look_def redis_del_def split: option.splits if_splits)

lemma write_frame_modify:
  assumes "table_ok wf_ID (workflows (db w))" and "db_updates f live_wf k g (workflows (db w)) = Inr t"
    and "\<And>r. wf_ID (g r) = wf_ID r \<and> wf_UserID (g r) = wf_UserID r"
  shows "write_frame w (redis_del f' key (set_workflows t w))"
proof -
  have t: "t = modify_row k (\<lambda>r. if live_wf r then g r else r) (workflows (db w))"
    using assms(2) by (auto simp: db_updates_def split: option.splits)
  have d: "workflows (db (redis_del f' key (set_workflows t w))) = t" by simp
  have c: "cache_look (set_workflows t w) = cache_look w" by (simp add: cache_look_def set_workflows_def fun_eq_iff)
  have "table_ok wf_ID t" unfolding t using assms(1,3) by (intro rs.ok_upd) auto
  moreover have "\<exists>r'. lookup t j = Some r' \<and> wf_UserID r' = wf_UserID r" if "lookup (workflows (db w)) j = Some r" for j r
    using that assms(3) unfolding t by (cases "live_wf r") (auto simp: rs.look_upd)
  moreover have "cache_look w j = Some v" if "cache_look (redis_del f' key (set_workflows t w)) j = Some v" for j v
    using cache_look_del [OF that] c by simp
  ultimately show ?thesis unfolding write_frame_def d by blast
qed

lemma write_frame_create:
  assumes "table_ok wf_ID (workflows (db w))" and "db_create f mk (workflows (db w)) = Inr (i, t)" and "\<And>k. wf_ID (mk k) = k"
  shows "write_frame w (set_workflows t w)"
  using db_createD [OF assms(2)] rs.ok_ins [OF assms(1), of mk] rs.look_ins_some [OF assms(1)] assms(3)
  by (auto simp: write_frame_def cache_look_def set_workflows_def)

lemma workflow_step_frame:
  assumes "\<not> is_read op" and "table_ok wf_ID (workflows (db w))"
  shows "write_frame w (workflow_step jsonb (F, op) w)"
proof (cases op)
  case (OpCreate ctx req)
  show ?thesis unfolding OpCreate workflow_step.simps CreateWorkflow_def
    by (auto intro: write_frame_refl [OF assms(2)] write_frame_create [OF assms(2)] split: sum.split)
next
  case (OpUpdate ctx req)
  show ?thesis unfolding OpUpdate workflow_step.simps UpdateWorkflow_def
    by (auto intro: write_frame_refl [OF assms(2)] write_frame_modify [OF assms(2)] split: sum.split option.split)
next
  case (OpDelete now ctx i)
  show ?thesis unfolding OpDelete workflow_step.simps DeleteWorkflow_def
    by (auto intro: write_frame_refl [OF assms(2)] write_frame_modify [OF assms(2)] split: sum.split option.split)
next
  case (OpExpire k)
  have "workflows (db (redis_del None k w)) = workflows (db w)" by simp
  then show ?thesis unfolding OpExpire workflow_step.simps cache_expire_del write_frame_def
    using assms(2) cache_look_del [of None k w] by auto
qed (use assms in \<open>simp_all add: write_frame_refl\<close>)

lemma reading_write:
  assumes "reading_inv (rs, w, past)" and "write_frame w w'" and "texts_utf8 (db w')"
  shows "reading_inv (rs, w', db w' # past)"
proof -
  have t: "table_ok wf_ID (workflows (db w'))" using assms(2) by (simp add: write_frame_def)
  have old: "texts_utf8 d \<and> (\<forall>k wk. lookup (workflows d) k = Some wk \<longrightarrow> sint (wf_ID wk) = k \<and>
      (\<exists>now. lookup (workflows (db w')) k = Some now \<and> wf_UserID now = wf_UserID wk))" if "d \<in> set past" for d
  proof -
    have "texts_utf8 d" using assms(1) that by (simp add: reading_inv_def)
    moreover have "sint (wf_ID wk) = k \<and> (\<exists>now. lookup (workflows (db w')) k = Some now \<and> wf_UserID now = wf_UserID wk)"
      if l: "lookup (workflows d) k = Some wk" for k wk
    proof -
      have "sint (wf_ID wk) = k" and "\<exists>now. lookup (workflows (db w)) k = Some now \<and> wf_UserID now = wf_UserID wk"
        using assms(1) \<open>d \<in> set past\<close> l by (auto simp: reading_inv_def)
      then show ?thesis using assms(2) unfolding write_frame_def by metis
    qed
    ultimately show ?thesis by blast
  qed
  have new: "texts_utf8 (db w') \<and> (\<forall>k wk. lookup (workflows (db w')) k = Some wk \<longrightarrow> sint (wf_ID wk) = k \<and>
      (\<exists>now. lookup (workflows (db w')) k = Some now \<and> wf_UserID now = wf_UserID wk))"
    using assms(3) live_key [OF t] by simp
  have sub: "set past \<subseteq> set (db w' # past)" by auto
  have "\<exists>wk. was_row (db w' # past) i wk \<and> v = marshal_item (toWorkflowItem wk)"
    if "cache_look w' (cache_key i) = Some v" for i v
  proof -
    have "cache_look w (cache_key i) = Some v" using assms(2) that by (simp add: write_frame_def)
    then show ?thesis using assms(1) was_row_mono [OF _ sub] unfolding reading_inv_def by blast
  qed
  moreover have "list_all (reader_inv (db w' # past)) rs"
    using assms(1) reader_inv_mono [OF _ sub] by (auto simp: reading_inv_def list_all_iff)
  ultimately show ?thesis using t old new unfolding reading_inv_def prod.case by simp
qed

text \<open>What a reader finds in the cache is an item that was, and its owner is still the row's.\<close>

lemma reader_step_inv:
  assumes inv: "reading_inv (rs, w, past)" and r: "reader_inv past ((F, ctx, i), r)" and s: "reader_step F ctx (r, w) = (r', w')"
  shows "reader_inv past ((F, ctx, i), r') \<and> db w' = db w \<and>
    (\<forall>j v. cache_look w' (cache_key j) = Some v \<longrightarrow> (\<exists>wk. was_row past j wk \<and> v = marshal_item (toWorkflowItem wk)))"
proof -
  have cached: "\<exists>wk. was_row past j wk \<and> v = marshal_item (toWorkflowItem wk)" if "cache_look w (cache_key j) = Some v" for j v
    using inv that by (auto simp: reading_inv_def)
  have past: "item_utf8 (toWorkflowItem wk) \<and> sint (wf_ID wk) = sint i \<and>
      (\<exists>now. lookup (workflows (db w)) (sint i) = Some now \<and> wf_UserID now = wf_UserID wk)" if "was_row past i wk" for wk
    using inv that by (fastforce simp: reading_inv_def was_row_def texts_utf8_def)
  show ?thesis
  proof (cases r)
    case (Asked j)
    then have j: "j = i" using r by simp
    show ?thesis
    proof (cases "redis_get (f_cget F) (cache_key i) w")
      case (Inl e)
      then show ?thesis using s Asked j cached by auto
    next
      case (Inr v)
      then have "cache_look w (cache_key i) = Some v"
        by (auto simp: redis_get_def cache_look_def split: option.splits)
      then obtain wk where wk: "was_row past i wk" "v = marshal_item (toWorkflowItem wk)" using cached by blast
      then have "unmarshal_item v = Some (toWorkflowItem wk)" using past unmarshal_marshal_item by simp
      then show ?thesis using s Asked j Inr wk(1) cached by auto
    qed
  next
    case (CacheHit item)
    then obtain wk where wk: "was_row past i wk" "item = toWorkflowItem wk" using r by auto
    obtain now where now: "lookup (workflows (db w)) (sint i) = Some now" "wf_UserID now = wf_UserID wk" "sint (it_Id item) = sint i"
      using past [OF wk(1)] wk(2) by (auto simp: toWorkflowItem_def)
    have "checkOwnership (f_read F) ctx (it_Id item) w = None \<Longrightarrow> can_access ctx wk"
      using now by (auto simp: checkOwnership_def db_first_def ownerCheck_def can_access_def split: option.splits if_splits)
    then show ?thesis using s CacheHit wk cached by (auto split: option.splits)
  next
    case (CacheMiss j)
    then have j: "j = i" using r by simp
    have "was_row past i wk" if "db_first (f_read F) live_wf (workflows (db w)) (sint i) = Inr wk" for wk
      using db_firstD [OF that] inv by (auto simp: was_row_def reading_inv_def)
    then show ?thesis using s CacheMiss j cached by (auto simp: ownership_access split: sum.splits option.splits if_splits)
  next
    case (RowRead j wk)
    then have "\<exists>wk'. was_row past k wk' \<and> v = marshal_item (toWorkflowItem wk')" if "cache_look w' (cache_key k) = Some v" for k v
      using s r that cached by (auto simp: cache_look_def redis_setex_def cache_key_inject split: option.splits if_splits)
    then show ?thesis using s r RowRead by (auto simp: setex_db)
  next
    case (Answered a)
    then show ?thesis using s r cached by auto
  qed
qed

lemma reading_step_inv: "reading_step jsonb s s' \<Longrightarrow> reading_inv s \<Longrightarrow> reading_inv s'"
proof (induction rule: reading_step.induct)
  case (read j rs F ctx i r w r' w' past)
  have r: "reader_inv past ((F, ctx, i), r)" using read by (auto simp: reading_inv_def list_all_length)
  note k = reader_step_inv [OF read.prems r read.hyps(3)]
  have "list_all (reader_inv past) (rs[j := ((F, ctx, i), r')])"
    using read.prems k by (auto simp: reading_inv_def list_all_iff dest!: set_update_subset_insert [THEN subsetD])
  then show ?case using read.prems k by (simp add: reading_inv_def)
next
  case (change op w' F w rs past)
  have "table_ok wf_ID (workflows (db w))" using change.prems by (simp add: reading_inv_def)
  from workflow_step_frame [OF change.hyps(1) this, of jsonb F] show ?case
    using reading_write [OF change.prems _ change.hyps(3)] change.hyps(2) by simp
qed

lemma reading_steps_inv: "(reading_step jsonb)\<^sup>*\<^sup>* s s' \<Longrightarrow> reading_inv s \<Longrightarrow> reading_inv s'"
  by (induction rule: rtranclp_induct) (auto intro: reading_step_inv)

lemma reading_start:
  assumes "gateway_ok w" and "texts_utf8 (db w)"
  shows "reading_inv (map (\<lambda>c. (c, Asked (snd (snd c)))) callers, w, [db w])"
proof -
  have t: "table_ok wf_ID (workflows (db w))" by (rule gateway_ok_table [OF assms(1)])
  have "\<exists>wk. was_row [db w] i wk \<and> v = marshal_item (toWorkflowItem wk)" if "cache_look w (cache_key i) = Some v" for i v
  proof -
    have "cached_truth (db w) (cache_key i) v"
      using assms(1) that by (intro rc.coherent_hit [where T = "cached_truth (db w)"]) (simp_all add: gateway_ok_def cache_ok_def)
    then show ?thesis by (auto simp: cached_truth_def cache_key_def was_row_def)
  qed
  moreover have "list_all (reader_inv [db w]) (map (\<lambda>c. (c, Asked (snd (snd c)))) callers)"
    by (auto simp: list_all_iff)
  ultimately show ?thesis using t assms(2) live_key [OF t] by (simp add: reading_inv_def)
qed

text \<open>C11: however readers and writers interleave, and whatever calls fail, a reader gets nothing
  that was not there: an answer with an item is the item of a row the workflow has had, at the start or
  since, while it was not deleted, and the caller may read this workflow by its owner then and now. The
  cache can be old; it cannot make up an item, mix two workflows or leak one.\<close>

theorem readers_see_real_rows:
  assumes "gateway_ok w" and "texts_utf8 (db w)"
    and "(reading_step jsonb)\<^sup>*\<^sup>* (map (\<lambda>c. (c, Asked (snd (snd c)))) callers, w, [db w]) (rs, w', past)"
    and "j < length rs" and "rs ! j = ((F, ctx, i), Answered (Inr item))"
  shows "\<exists>d wk now. d \<in> set past \<and> lookup (workflows d) (sint i) = Some wk \<and> live_wf wk \<and> item = toWorkflowItem wk \<and>
    can_access ctx wk \<and> lookup (workflows (db w')) (sint i) = Some now \<and> can_access ctx now"
proof -
  have inv: "reading_inv (rs, w', past)" by (rule reading_steps_inv [OF assms(3) reading_start [OF assms(1,2)]])
  then have "reader_inv past ((F, ctx, i), Answered (Inr item))"
    using assms(4,5) by (auto simp: reading_inv_def list_all_length)
  then obtain wk d where d: "d \<in> set past" "lookup (workflows d) (sint i) = Some wk" "live_wf wk" "item = toWorkflowItem wk" "can_access ctx wk"
    by (auto simp: was_row_def)
  obtain now where now: "lookup (workflows (db w')) (sint i) = Some now" "wf_UserID now = wf_UserID wk"
    using inv d(1,2) by (fastforce simp: reading_inv_def)
  have "can_access ctx now" using now(2) d(5) by (simp add: can_access_def)
  then show ?thesis using d now(1) by blast
qed

theorem readers_see_real_rows_witness:
  "\<exists>rs w' past d wk. (reading_step sample_jsonb)\<^sup>*\<^sup>* ([((no_faults, sample_ctx ''alice'', 1), Asked 1)], cold_world, [db cold_world]) (rs, w', past) \<and>
     rs = [((no_faults, sample_ctx ''alice'', 1), Answered (Inr (toWorkflowItem (sample_workflow 1 ''alice'' None))))] \<and>
     d \<in> set past \<and> lookup (workflows d) 1 = Some wk \<and> toWorkflowItem wk = toWorkflowItem (sample_workflow 1 ''alice'' None)"
proof -
  let ?c = "(no_faults, sample_ctx ''alice'', 1 :: int64)" and ?wk = "sample_workflow 1 ''alice'' None"
  let ?w = "snd (UpdateWorkflow sample_jsonb no_faults (sample_ctx ''alice'') sample_req cold_world)"
  have a: "can_access (sample_ctx ''alice'') ?wk" by code_simp
  have f: "f_cget no_faults = None" "f_read no_faults = None" by (simp_all add: no_faults_def)
  have l: "live_wf ?wk" by (simp add: live_wf_def sample_workflow_def)
  have 1: "reader_step no_faults (sample_ctx ''alice'') (Asked 1, cold_world) = (CacheMiss 1, cold_world)"
    by (simp add: redis_get_def f cold_world_def)
  have 2: "reader_step no_faults (sample_ctx ''alice'') (CacheMiss 1, cold_world) = (RowRead 1 ?wk, cold_world)"
    using cold_ok(3) l a by (simp add: f db_first_None ownership_access)
  obtain w2 where 3: "reader_step no_faults (sample_ctx ''alice'') (RowRead 1 ?wk, ?w) = (Answered (Inr (toWorkflowItem ?wk)), w2)"
    by simp
  have u: "texts_utf8 (db ?w)" by (rule texts_utf8I) code_simp
  have s1: "reading_step sample_jsonb ([(?c, Asked 1)], cold_world, [db cold_world]) ([(?c, CacheMiss 1)], cold_world, [db cold_world])"
    using reading_step.read [OF _ _ 1, of 0 "[(?c, Asked 1)]"] by simp
  have s2: "reading_step sample_jsonb ([(?c, CacheMiss 1)], cold_world, [db cold_world]) ([(?c, RowRead 1 ?wk)], cold_world, [db cold_world])"
    using reading_step.read [OF _ _ 2, of 0 "[(?c, CacheMiss 1)]"] by simp
  have s3: "reading_step sample_jsonb ([(?c, RowRead 1 ?wk)], cold_world, [db cold_world]) ([(?c, RowRead 1 ?wk)], ?w, [db ?w, db cold_world])"
    using reading_step.change [of "OpUpdate (sample_ctx ''alice'') sample_req" ?w sample_jsonb no_faults cold_world] u by simp
  have s4: "reading_step sample_jsonb ([(?c, RowRead 1 ?wk)], ?w, [db ?w, db cold_world])
      ([(?c, Answered (Inr (toWorkflowItem ?wk)))], w2, [db ?w, db cold_world])"
    using reading_step.read [OF _ _ 3, of 0 "[(?c, RowRead 1 ?wk)]"] by simp
  have s: "(reading_step sample_jsonb)\<^sup>*\<^sup>* ([(?c, Asked 1)], cold_world, [db cold_world])
      ([(?c, Answered (Inr (toWorkflowItem ?wk)))], w2, [db ?w, db cold_world])"
    using s1 s2 s3 s4 by (meson converse_rtranclp_into_rtranclp rtranclp.rtrancl_refl)
  then have "(reading_step sample_jsonb)\<^sup>*\<^sup>* (map (\<lambda>c. (c, Asked (snd (snd c)))) [?c], cold_world, [db cold_world])
      ([(?c, Answered (Inr (toWorkflowItem ?wk)))], w2, [db ?w, db cold_world])" by simp
  from readers_see_real_rows [OF cold_ok(1,2) this, of 0] s show ?thesis
    by (intro exI [of _ "[(?c, Answered (Inr (toWorkflowItem ?wk)))]"] exI [of _ w2] exI [of _ "[db ?w, db cold_world]"]) auto
qed

end
