(* ===== verification/ModelTypes.thy ===== *)
theory ModelTypes
  imports System Readers
begin

section \<open>The services' own types for the shared rows\<close>

text \<open>
  Each service declares its own structs for the tables it shares with the others:
  \<open>execution-engine/internal/model/models.go\<close> and \<open>scheduler-service/cron/scheduler.go\<close> besides
  the \<open>api-gateway/model/models.go\<close> of \<open>Store\<close>. All fields agree but one: the gateway keeps the
  owner of a workflow as text, the engine reads it into a \<open>uint\<close>. \<open>database/sql\<close> converts the
  text with \<open>strconv.ParseUint\<close>, and a text it refuses makes the query fail.

  This theory has the conversion, the structs, and what follows for the runs: which workflows the
  engine can run at all.
\<close>

subsection \<open>strconv.ParseUint\<close>

datatype num_error = ErrSyntax | ErrRange

text \<open>The least value that overflows when it is multiplied by ten.\<close>

definition parse_cutoff :: uint64 where
  "parse_cutoff = 1844674407370955162"

fun parse_digits :: "uint64 \<Rightarrow> string \<Rightarrow> num_error + uint64" where
  "parse_digits n [] = Inr n"
| "parse_digits n (c # s) =
     (if \<not> is_digit c then Inl ErrSyntax
      else if n \<ge> parse_cutoff then Inl ErrRange
      else let n = n * 10; n1 = n + of_nat (digit_val c) in
        if n1 < n then Inl ErrRange else parse_digits n1 s)"

definition ParseUint :: "string \<Rightarrow> num_error + uint64" where
  "ParseUint s = (if s = [] then Inl ErrSyntax else parse_digits 0 s)"

text \<open>What it computes: the value of a decimal numeral below \<open>2 ^ 64\<close>.\<close>

definition numeral_string :: "string \<Rightarrow> bool" where
  "numeral_string s \<longleftrightarrow> s \<noteq> [] \<and> list_all is_digit s"

definition digits_from :: "nat \<Rightarrow> string \<Rightarrow> nat" where
  "digits_from n s = foldl (\<lambda>n c. 10 * n + digit_val c) n s"

lemma digits_from_simps [simp]:
  "digits_from n [] = n" "digits_from n (c # s) = digits_from (10 * n + digit_val c) s" "digits_from 0 s = read_digits s"
  by (simp_all add: digits_from_def read_digits_def)

lemma digits_from_ge: "n \<le> digits_from n s"
proof (induction s arbitrary: n)
  case (Cons c s)
  have "n \<le> 10 * n + digit_val c" by simp
  then show ?case using Cons.IH [of "10 * n + digit_val c"] by simp
qed simp

lemma digit_val_bound: "is_digit c \<Longrightarrow> digit_val c \<le> 9"
  unfolding is_digit_def digit_val_def by linarith

text \<open>One round of the loop on numbers: it goes on exactly when the next value fits.\<close>

lemma unat_add_mod: "unat (a + b :: uint64) = (unat a + unat b) mod 2 ^ 64"
  by (simp add: unat_word_ariths)

lemma unat_mult_mod: "unat (a * 10 :: uint64) = (10 * unat a) mod 2 ^ 64"
  by (simp add: unat_word_ariths mult.commute)

lemma unat_bound: "unat (a :: uint64) < 2 ^ 64"
  using unsigned_less [of a] by simp

lemma parse_round:
  assumes "d \<le> 9"
  shows "n \<ge> parse_cutoff \<or> n * 10 + of_nat d < n * 10 \<longleftrightarrow> 2 ^ 64 \<le> 10 * unat n + d"
    and "10 * unat n + d < 2 ^ 64 \<Longrightarrow> unat (n * 10 + of_nat d) = 10 * unat n + d"
proof -
  have c: "unat parse_cutoff = 1844674407370955162" by (simp add: parse_cutoff_def)
  have d: "unat (of_nat d :: uint64) = d" using assms by (simp add: unat_of_nat)
  have m: "unat (n * 10) = (10 * unat n) mod 2 ^ 64" by (rule unat_mult_mod)
  have s: "unat (n * 10 + of_nat d) = (10 * unat n + d) mod 2 ^ 64"
    unfolding unat_add_mod m d by (simp only: mod_add_left_eq)
  show "unat (n * 10 + of_nat d) = 10 * unat n + d" if "10 * unat n + d < 2 ^ 64" using that s by simp
  show "n \<ge> parse_cutoff \<or> n * 10 + of_nat d < n * 10 \<longleftrightarrow> 2 ^ 64 \<le> 10 * unat n + d"
  proof (cases "n \<ge> parse_cutoff")
    case True
    then have "1844674407370955162 \<le> unat n" by (simp add: word_le_nat_alt c)
    then show ?thesis using True by simp
  next
    case False
    then have "unat n < 1844674407370955162" by (simp add: word_le_nat_alt c)
    then have "10 * unat n < 2 ^ 64" and b: "10 * unat n + d < 2 * 2 ^ 64" using assms by simp_all
    then have e: "unat (n * 10) = 10 * unat n" using m by simp
    show ?thesis
    proof (cases "10 * unat n + d < 2 ^ 64")
      case True
      then show ?thesis using False s e by (simp add: word_less_nat_alt)
    next
      case over: False
      then have "unat (n * 10 + of_nat d) = 10 * unat n + d - 2 ^ 64" using s b by (simp add: mod_if)
      then show ?thesis using False over e assms by (simp add: word_less_nat_alt)
    qed
  qed
qed

lemma parse_digits_Inr:
  "parse_digits n s = Inr m \<longleftrightarrow> list_all is_digit s \<and> digits_from (unat n) s = unat m"
proof (induction s arbitrary: n)
  case Nil
  show ?case by (auto simp: word_unat_eq_iff)
next
  case (Cons c s)
  show ?case
  proof (cases "is_digit c")
    case True
    note r = parse_round [OF digit_val_bound [OF True], of n]
    show ?thesis
    proof (cases "10 * unat n + digit_val c < 2 ^ 64")
      case fits: True
      then show ?thesis using r True Cons.IH by (auto simp: Let_def)
    next
      case False
      moreover have "unat m < 2 ^ 64" by (rule unat_bound)
      ultimately have "digits_from (unat n) (c # s) \<noteq> unat m"
        using digits_from_ge [of "10 * unat n + digit_val c" s] by simp
      then show ?thesis using r(1) False True by (auto simp: Let_def)
    qed
  qed simp
qed

lemma parse_digits_ErrRange:
  "parse_digits n s = Inl ErrRange \<longleftrightarrow> (\<exists>p q. s = p @ q \<and> list_all is_digit p \<and> 2 ^ 64 \<le> digits_from (unat n) p)"
proof (induction s arbitrary: n)
  case Nil
  show ?case using unat_bound [of n] by simp
next
  case (Cons c s)
  have split: "(\<exists>p q. c # s = p @ q \<and> list_all is_digit p \<and> 2 ^ 64 \<le> digits_from (unat n) p) \<longleftrightarrow>
      is_digit c \<and> (\<exists>p q. s = p @ q \<and> list_all is_digit p \<and> 2 ^ 64 \<le> digits_from (10 * unat n + digit_val c) p)"
    (is "?l \<longleftrightarrow> ?r")
  proof
    assume ?l
    then obtain p q where p: "c # s = p @ q" "list_all is_digit p" "2 ^ 64 \<le> digits_from (unat n) p" by blast
    then obtain p' where "p = c # p'" using unat_bound [of n] by (cases p) simp_all
    with p show ?r by auto
  next
    assume ?r
    then obtain p q where "is_digit c" "s = p @ q" "list_all is_digit p" "2 ^ 64 \<le> digits_from (10 * unat n + digit_val c) p" by blast
    then show ?l by (intro exI [of _ "c # p"] exI [of _ q]) simp
  qed
  show ?case
  proof (cases "is_digit c")
    case True
    note r = parse_round [OF digit_val_bound [OF True], of n]
    show ?thesis
    proof (cases "10 * unat n + digit_val c < 2 ^ 64")
      case fits: True
      then show ?thesis unfolding split using r True Cons.IH by (simp add: Let_def)
    next
      case False
      then have "\<exists>p q. s = p @ q \<and> list_all is_digit p \<and> 2 ^ 64 \<le> digits_from (10 * unat n + digit_val c) p"
        by (intro exI [of _ "[]"] exI [of _ s]) simp
      then show ?thesis unfolding split using r(1) False True by (auto simp: Let_def)
    qed
  next
    case False
    then show ?thesis unfolding split by simp
  qed
qed

lemma ParseUint_Inr: "ParseUint s = Inr m \<longleftrightarrow> numeral_string s \<and> read_digits s = unat m"
  by (simp add: ParseUint_def numeral_string_def parse_digits_Inr del: parse_digits.simps)

text \<open>The range error is found at the first digit too many, before the rest of the text is looked at.\<close>

lemma ParseUint_ErrRange:
  "ParseUint s = Inl ErrRange \<longleftrightarrow> (\<exists>p q. s = p @ q \<and> list_all is_digit p \<and> 2 ^ 64 \<le> read_digits p)"
  by (auto simp: ParseUint_def parse_digits_ErrRange read_digits_def)

lemma ParseUint_fails:
  "(\<exists>e. ParseUint s = Inl e) \<longleftrightarrow> \<not> (numeral_string s \<and> read_digits s < 2 ^ 64)"
proof -
  have "(\<exists>m :: uint64. read_digits s = unat m) \<longleftrightarrow> read_digits s < 2 ^ 64"
  proof
    assume "read_digits s < 2 ^ 64"
    then have "unat (of_nat (read_digits s) :: uint64) = read_digits s" by (simp add: unat_of_nat)
    then show "\<exists>m :: uint64. read_digits s = unat m" by metis
  qed (use unat_bound in auto)
  moreover have "(\<exists>e. ParseUint s = Inl e) \<longleftrightarrow> \<not> (\<exists>m. ParseUint s = Inr m)" by (cases "ParseUint s") simp_all
  ultimately show ?thesis by (auto simp: ParseUint_Inr)
qed

lemma ParseUint_samples:
  "ParseUint [] = Inl ErrSyntax" "ParseUint ''f81d4fae-7dec'' = Inl ErrSyntax"
  "ParseUint ''18446744073709551615'' = Inr 18446744073709551615" "ParseUint ''18446744073709551616'' = Inl ErrRange"
proof -
  show "ParseUint [] = Inl ErrSyntax" "ParseUint ''f81d4fae-7dec'' = Inl ErrSyntax" by (simp_all add: ParseUint_def is_digit_def)
  show "ParseUint ''18446744073709551615'' = Inr 18446744073709551615"
    by (simp add: ParseUint_Inr numeral_string_def is_digit_def read_digits_def digit_val_def)
  have "''18446744073709551616'' = ''18446744073709551616'' @ [] \<and> list_all is_digit ''18446744073709551616'' \<and>
      2 ^ 64 \<le> read_digits ''18446744073709551616''"
    by (simp add: is_digit_def read_digits_def digit_val_def)
  then show "ParseUint ''18446744073709551616'' = Inl ErrRange" using ParseUint_ErrRange by blast
qed

text \<open>What \<open>%d\<close> prints of a \<open>uint\<close> is read back.\<close>

lemma ParseUint_show: "ParseUint (show_nat (unat m)) = Inr m"
  using show_nat_digits by (simp add: ParseUint_Inr numeral_string_def list_all_iff read_show_nat)

subsection \<open>The engine's structs\<close>

text \<open>
  \<open>gorm.Model\<close> as in \<open>Store\<close>: the key and the time of deletion. \<open>scan_workflow\<close> fills the struct
  from a row; \<open>msg\<close> is the text of the error \<open>database/sql\<close> makes of a text it cannot convert.
\<close>

record e_Workflow =
  ew_ID :: uint64
  ew_DeletedAt :: "time option"
  ew_Name :: string
  ew_UserID :: uint64
  ew_TriggerType :: string
  ew_TriggerConfig :: string
  ew_Steps :: string
  ew_IsActive :: bool

record e_Execution =
  ee_ID :: uint64
  ee_DeletedAt :: "time option"
  ee_WorkflowID :: uint64
  ee_Status :: string
  ee_StartedAt :: time
  ee_FinishedAt :: "time option"
  ee_TriggerPayload :: string

record e_StepLog =
  el_ID :: uint64
  el_ExecutionID :: uint64
  el_StepID :: string
  el_StepType :: string
  el_Status :: string
  el_Input :: string
  el_Output :: string
  el_Error :: string
  el_DurationMs :: int64

definition scan_workflow :: "(string \<Rightarrow> num_error \<Rightarrow> error) \<Rightarrow> workflow \<Rightarrow> error + e_Workflow" where
  "scan_workflow msg wk = (case ParseUint (wf_UserID wk) of
      Inl e \<Rightarrow> Inl (msg (wf_UserID wk) e)
    | Inr owner \<Rightarrow> Inr \<lparr>ew_ID = wf_ID wk, ew_DeletedAt = wf_DeletedAt wk, ew_Name = wf_Name wk, ew_UserID = owner,
        ew_TriggerType = wf_TriggerType wk, ew_TriggerConfig = wf_TriggerConfig wk, ew_Steps = wf_Steps wk,
        ew_IsActive = wf_IsActive wk\<rparr>)"

definition scan_execution :: "execution \<Rightarrow> e_Execution" where
  "scan_execution ex = \<lparr>ee_ID = ex_ID ex, ee_DeletedAt = ex_DeletedAt ex, ee_WorkflowID = ex_WorkflowID ex,
     ee_Status = ex_Status ex, ee_StartedAt = ex_StartedAt ex, ee_FinishedAt = ex_FinishedAt ex,
     ee_TriggerPayload = ex_TriggerPayload ex\<rparr>"

definition log_row_of :: "e_StepLog \<Rightarrow> step_log" where
  "log_row_of l = \<lparr>sl_ID = el_ID l, sl_ExecutionID = el_ExecutionID l, sl_StepID = el_StepID l, sl_StepType = el_StepType l,
     sl_Status = el_Status l, sl_Input = el_Input l, sl_Output = el_Output l, sl_Error = el_Error l,
     sl_DurationMs = el_DurationMs l\<rparr>"

text \<open>The two queries at the start of both RPCs, into the engine's structs.\<close>

definition e_load :: "(string \<Rightarrow> num_error \<Rightarrow> error) \<Rightarrow> run_oracle \<Rightarrow> RunExecutionReq \<Rightarrow> world \<Rightarrow> error + e_Workflow \<times> e_Execution" where
  "e_load msg ro req w =
     (case db_first (ro_workflow ro) live_wf (workflows (db w)) (sint (rq_WorkflowId req)) of
        Inl e \<Rightarrow> Inl (''load workflow '' @ show_int (sint (rq_WorkflowId req)) @ '': '' @ db_message e)
      | Inr wk \<Rightarrow> (case scan_workflow msg wk of
          Inl e \<Rightarrow> Inl (''load workflow '' @ show_int (sint (rq_WorkflowId req)) @ '': '' @ e)
        | Inr ew \<Rightarrow> (case db_first (ro_execution ro) live_ex (executions (db w)) (sint (rq_ExecutionId req)) of
            Inl e \<Rightarrow> Inl (''load execution '' @ show_int (sint (rq_ExecutionId req)) @ '': '' @ db_message e)
          | Inr ex \<Rightarrow> Inr (ew, scan_execution ex))))"

text \<open>The argument \<open>scan_uid\<close> of the engine's model is the conversion of \<open>database/sql\<close>.\<close>

definition owner_scan :: "(string \<Rightarrow> num_error \<Rightarrow> error) \<Rightarrow> string \<Rightarrow> error option" where
  "owner_scan msg u = (case ParseUint u of Inl e \<Rightarrow> Some (msg u e) | Inr n \<Rightarrow> None)"

lemma e_load_eq:
  "e_load msg ro req w = (case load_workflow (owner_scan msg) ro (rq_WorkflowId req) w of Inl e \<Rightarrow> Inl e
     | Inr wk \<Rightarrow> (case load_execution ro (rq_ExecutionId req) w of Inl e \<Rightarrow> Inl e
       | Inr ex \<Rightarrow> map_sum id (\<lambda>ew. (ew, scan_execution ex)) (scan_workflow msg wk)))"
  by (auto simp: e_load_def load_workflow_def load_execution_def owner_scan_def scan_workflow_def split: sum.split)

lemma owner_scan_None: "owner_scan msg u = None \<longleftrightarrow> numeral_string u \<and> read_digits u < 2 ^ 64"
  using ParseUint_fails [of u] by (cases "ParseUint u") (auto simp: owner_scan_def)

lemma scan_workflow_Inr:
  "scan_workflow msg wk = Inr ew \<longleftrightarrow> ParseUint (wf_UserID wk) = Inr (ew_UserID ew) \<and>
     ew = \<lparr>ew_ID = wf_ID wk, ew_DeletedAt = wf_DeletedAt wk, ew_Name = wf_Name wk, ew_UserID = ew_UserID ew,
       ew_TriggerType = wf_TriggerType wk, ew_TriggerConfig = wf_TriggerConfig wk, ew_Steps = wf_Steps wk,
       ew_IsActive = wf_IsActive wk\<rparr>"
  by (cases "ParseUint (wf_UserID wk)") (auto simp: scan_workflow_def)

text \<open>The log \<open>writeStepLog\<close> creates is the struct it fills.\<close>

lemma writeStepLog_struct:
  assumes "store_json jsonb (marshal_map (Some input)) = Inr inp" and "store_json jsonb (marshal_map output) = Inr out"
    and "db_create fault (\<lambda>i. log_row_of \<lparr>el_ID = i, el_ExecutionID = ex_ID ex, el_StepID = sd_ID step, el_StepType = sd_Type step,
      el_Status = status, el_Input = inp, el_Output = out, el_Error = errMsg, el_DurationMs = durationMs\<rparr>) (step_logs (db w)) = Inr (i, t)"
  shows "step_logs (db (writeStepLog jsonb fault ex step status errMsg input output durationMs w)) = t"
  using assms by (simp add: writeStepLog_def log_row_of_def)



subsection \<open>The scheduler's structs\<close>

text \<open>
  A projection of the workflow's row, and the columns of the execution it inserts; \<open>finished_at\<close> and
  \<open>deleted_at\<close> are not among them and stay NULL.
\<close>

record s_Workflow =
  sw_ID :: uint64
  sw_TriggerType :: string
  sw_TriggerConfig :: string
  sw_IsActive :: bool
  sw_DeletedAt :: "time option"

record s_Execution =
  se_ID :: uint64
  se_WorkflowID :: uint64
  se_Status :: string
  se_StartedAt :: time
  se_TriggerPayload :: string

definition s_scan :: "workflow \<Rightarrow> s_Workflow" where
  "s_scan wk = \<lparr>sw_ID = wf_ID wk, sw_TriggerType = wf_TriggerType wk, sw_TriggerConfig = wf_TriggerConfig wk,
     sw_IsActive = wf_IsActive wk, sw_DeletedAt = wf_DeletedAt wk\<rparr>"

definition s_insert_row :: "s_Execution \<Rightarrow> execution" where
  "s_insert_row e = \<lparr>ex_ID = se_ID e, ex_DeletedAt = None, ex_WorkflowID = se_WorkflowID e, ex_Status = se_Status e,
     ex_StartedAt = se_StartedAt e, ex_FinishedAt = None, ex_TriggerPayload = se_TriggerPayload e\<rparr>"

text \<open>The row of a trigger is the one the gateway writes, and the check looks at nothing but the projection.\<close>

lemma pending_row_struct:
  "pending_row wid i now stored = s_insert_row \<lparr>se_ID = i, se_WorkflowID = wid, se_Status = ''pending'', se_StartedAt = now,
     se_TriggerPayload = stored\<rparr>"
  by (simp add: pending_row_def s_insert_row_def)

lemma check_projection:
  assumes "s_scan a = s_scan b"
  shows "scheduled a = scheduled b" and "due parse_cron next t a = due parse_cron next t b"
    and "trigger jsonb ce pe now a w = trigger jsonb ce pe now b w"
  using assms by (simp_all add: s_scan_def scheduled_def live_wf_def due_def schedule_of_def trigger_eq schedule_req_def queued_message_def
      cong: sum.case_cong option.case_cong)

subsection \<open>A workflow the engine cannot read never runs\<close>

text \<open>
  The steps of the system without the streaming RPC, which no service calls: requests, expiries, checks and
  deliveries.
\<close>

inductive service_step :: "('k, 's) services \<Rightarrow> world \<Rightarrow> world \<Rightarrow> bool" for S where
  request: "f_cdel (gw_faults env) = None \<Longrightarrow> payload_utf8 p \<Longrightarrow>
    service_step S w (snd (serve (sv_encode S) (sv_jwt S) (sv_keys S) env p meth pattern authorization ctx w))"
| expiry: "service_step S w (cache_expire k w)"
| check: "(\<And>xs. set (sc_order so xs) = set xs) \<Longrightarrow>
    service_step S w (checkAndTrigger (sv_cron S) (sv_next S) (sv_jsonb S) so t w)"
| delivery: "p \<in> set (mq w) \<Longrightarrow> dl_Body d = pub_body p \<Longrightarrow>
    handle (engine (sv_lib S) (sv_jsonb S) (sv_scan S) ro) fault d w = (v, req, w') \<Longrightarrow> service_step S w w'"

lemma service_step_sys: "service_step S w w' \<Longrightarrow> sys_step S w w'"
  by (cases rule: service_step.cases) (auto intro: sys_step.intros)

text \<open>The executions of the workflow with key \<open>k\<close> are as they were inserted.\<close>

definition untouched :: "int \<Rightarrow> world \<Rightarrow> bool" where
  "untouched k w \<longleftrightarrow> (\<forall>j ex. lookup (executions (db w)) j = Some ex \<and> db_key (ex_WorkflowID ex) = k \<longrightarrow>
     ex_Status ex = ''pending'' \<and> ex_FinishedAt ex = None \<and>
     (\<forall>i l. lookup (step_logs (db w)) i = Some l \<longrightarrow> sl_ExecutionID l \<noteq> ex_ID ex))"

definition owned_by :: "int \<Rightarrow> string \<Rightarrow> world \<Rightarrow> bool" where
  "owned_by k u w \<longleftrightarrow> (\<exists>wk. lookup (workflows (db w)) k = Some wk \<and> wf_UserID wk = u)"

lemma untouched_same:
  "untouched k w \<Longrightarrow> executions (db w') = executions (db w) \<Longrightarrow> step_logs (db w') = step_logs (db w) \<Longrightarrow> untouched k w'"
  by (simp add: untouched_def)

lemma untouched_pending:
  assumes ok: "db_ok (db w)" and c: "db_create f (\<lambda>i. pending_row wid i now stored) (executions (db w)) = Inr (i, t)"
    and w': "executions (db w') = t" "step_logs (db w') = step_logs (db w)" and u: "untouched k w"
  shows "untouched k w'"
proof -
  note n = pending_created [OF ok c]
  have "1 \<le> next_key (executions (db w))" using ok by (simp add: db_ok_def table_ok_def)
  then have "db_key (word_of_int (sint i)) = sint i" using n(3) db_createD(3) [OF c] by (intro db_key_word) simp_all
  then have "db_key i = sint i" by simp
  then have fresh: "sl_ExecutionID l \<noteq> i" if "lookup (step_logs (db w)) j = Some l" for j l
    using refs_okD(2) [OF ok that] n(1) by auto
  show ?thesis
    using u fresh unfolding untouched_def w' n(2) by (auto simp: pending_row_def split: if_splits)
qed

lemma untouched_trigger_all:
  assumes "sys_ok w" and "untouched k w" and "\<forall>wk \<in> set wks. lookup (workflows (db w)) (db_key (wf_ID wk)) \<noteq> None"
  shows "untouched k (trigger_all jsonb so n wks w)"
  using assms
proof (induction wks arbitrary: n w)
  case (Cons wk wks)
  let ?w = "trigger jsonb (sc_create so n) (sc_publish so n) (sc_now so n) wk w"
  have "sys_ok ?w" using sys_ok_sched_trigger [OF Cons.prems(1)] Cons.prems(3) by simp
  moreover have "untouched k ?w"
  proof (cases "\<exists>stored i t. jsonb schedule_payload = Inr stored \<and>
      db_create (sc_create so n) (\<lambda>i. pending_row (wf_ID wk) i (sc_now so n) stored) (executions (db w)) = Inr (i, t)")
    case True
    then obtain stored i t where j: "jsonb schedule_payload = Inr stored"
      and c: "db_create (sc_create so n) (\<lambda>i. pending_row (wf_ID wk) i (sc_now so n) stored) (executions (db w)) = Inr (i, t)" by blast
    have "executions (db ?w) = t" using j c by (simp add: trigger_eq split: option.split)
    then show ?thesis using Cons.prems(1,2) c untouched_pending [OF _ c] by (simp add: sys_ok_def gateway_ok_def)
  next
    case False
    then have "?w = w" by (auto simp: trigger_eq split: sum.split)
    then show ?thesis using Cons.prems(2) by simp
  qed
  moreover have "\<forall>wk \<in> set wks. lookup (workflows (db ?w)) (db_key (wf_ID wk)) \<noteq> None" using Cons.prems(3) by simp
  ultimately show ?case using Cons.IH by simp
qed simp

lemma owned_by_write: "write_frame w w' \<Longrightarrow> owned_by k u w \<Longrightarrow> owned_by k u w'"
  by (auto simp: write_frame_def owned_by_def)

lemma trigger_all_workflows: "workflows (db (trigger_all jsonb so n wks w)) = workflows (db w)"
  by (induction wks arbitrary: n w) simp_all

lemma handler_owned:
  assumes "table_ok wf_ID (workflows (db w))" and "owned_by k u w"
  shows "owned_by k u (snd (handler_of env p e ctx w))"
proof -
  have w: "owned_by k u (workflow_step (gw_jsonb env) (gw_faults env, oper) w)" if "\<not> is_read oper" for oper
    by (rule owned_by_write [OF workflow_step_frame [OF that assms(1)] assms(2)])
  show ?thesis
  proof (cases e)
    case TriggerE
    have "workflows (db (snd (TriggerWorkflow (gw_jsonb env) (gw_inject env) (gw_now env) (gw_faults env) req w))) = workflows (db w)" for req
    proof -
      obtain r w' where t: "TriggerWorkflow (gw_jsonb env) (gw_inject env) (gw_now env) (gw_faults env) req w = (r, w')" by fastforce
      then have "workflows (db w') = workflows (db w)" by (cases rule: TriggerWorkflow_cases) simp_all
      then show ?thesis using t by simp
    qed
    then show ?thesis using TriggerE assms(2) by (auto simp: TriggerWorkflowHandler_def case_prod_beta owned_by_def split: sum.split)
  next
    case CreateE
    then show ?thesis using w [of "OpCreate ctx cr" for cr] assms(2)
      by (auto simp: CreateWorkflowHandler_def case_prod_beta split: sum.split)
  next
    case UpdateE
    then show ?thesis using w [of "OpUpdate ctx ur" for ur] assms(2)
      by (auto simp: UpdateWorkflowHandler_def case_prod_beta split: sum.split)
  next
    case DeleteE
    then show ?thesis using w [of "OpDelete now ctx i" for now i] assms(2)
      by (auto simp: DeleteWorkflowHandler_def case_prod_beta split: sum.split)
  next
    case GetE
    have "workflows (db (snd (GetWorkflow F ctx i w))) = workflows (db w)" for F i
      by (auto simp: GetWorkflow_def Let_def redis_setex_def split: sum.split option.split)
    then show ?thesis using GetE assms(2) by (auto simp: GetWorkflowHandler_def case_prod_beta owned_by_def split: sum.split)
  qed (use assms(2) in \<open>simp_all add: reader_frame\<close>)
qed

lemma handler_untouched:
  assumes ok: "db_ok (db w)" and u: "untouched k w"
  shows "untouched k (snd (handler_of env p e ctx w))"
proof (cases "e = TriggerE")
  case False
  then show ?thesis using handler_runs [OF False, of w env p ctx] by (intro untouched_same [OF u]) (simp_all add: same_runs_def)
next
  case True
  show ?thesis
  proof (cases "pq_trigger p")
    case (Inl err)
    then show ?thesis using True u by (simp add: TriggerWorkflowHandler_def)
  next
    case (Inr req)
    obtain r w' where t: "TriggerWorkflow (gw_jsonb env) (gw_inject env) (gw_now env) (gw_faults env) req w = (r, w')" by fastforce
    then have "untouched k w'"
    proof (cases rule: TriggerWorkflow_cases)
      case (enqueue wk stored i t e)
      then show ?thesis by (intro untouched_pending [OF ok enqueue(3) _ _ u]) simp_all
    next
      case (queued wk stored i t)
      then show ?thesis by (intro untouched_pending [OF ok queued(3) _ _ u]) simp_all
    qed (use u in simp_all)
    then show ?thesis using True Inr t by (simp add: TriggerWorkflowHandler_def)
  qed
qed

text \<open>A run writes logs of its own execution only.\<close>

lemma record_all_logs_from:
  assumes "db_ok (db w)" and "lookup (executions (db w)) (db_key (ex_ID ex)) \<noteq> None"
    and "lookup (step_logs (db (record_all jsonb ro ex wid n ocs w))) i = Some l"
  shows "lookup (step_logs (db w)) i = Some l \<or> sl_ExecutionID l = ex_ID ex"
  using assms
proof (induction ocs arbitrary: n w)
  case (Cons oc ocs)
  let ?w = "record_outcome jsonb ro ex wid n oc w"
  have "lookup (step_logs (db ?w)) i = Some l \<or> sl_ExecutionID l = ex_ID ex"
    using Cons.IH [of ?w "Suc n"] Cons.prems record_outcome_ok by simp
  moreover have "lookup (step_logs (db w)) i = Some l \<or> sl_ExecutionID l = ex_ID ex" if "lookup (step_logs (db ?w)) i = Some l"
  proof -
    have t: "table_ok sl_ID (step_logs (db w))" using Cons.prems(1) by (simp add: db_ok_def)
    show ?thesis
      using that db_createD(2) unfolding record_outcome_eq Let_def
      by (auto simp: rs.look_ins [OF t] log_row_def split: option.splits sum.splits if_splits dest!: db_createD(2))
  qed
  ultimately show ?case by blast
qed simp

lemma run_final_logs_from:
  assumes "db_ok (db w)" and "lookup (executions (db w)) (db_key (ex_ID ex)) \<noteq> None"
    and "lookup (step_logs (db (run_final lib jsonb rdb ro wk ex w))) i = Some l"
  shows "lookup (step_logs (db w)) i = Some l \<or> sl_ExecutionID l = ex_ID ex"
proof -
  have "db_ok (db (mark_running ro ex w))" unfolding mark_running_def by (rule set_status_ok [OF assms(1)]) simp_all
  moreover have "lookup (executions (db (mark_running ro ex w))) (db_key (ex_ID ex)) \<noteq> None"
    using assms(2) by (simp add: mark_running_def set_status_exists)
  ultimately show ?thesis
    using record_all_logs_from [of "mark_running ro ex w" ex jsonb ro "wf_ID wk" 0 "run_of lib rdb ro wk" i l] assms(3)
    by (simp add: run_final_def mark_running_def)
qed

lemma untouched_run:
  assumes ok: "db_ok (db w)" and r: "RunExecution lib jsonb scan_uid rdb ro req w = (res, w')" and u: "untouched k w"
    and x: "\<And>ex. lookup (executions (db w)) (sint (rq_ExecutionId req)) = Some ex \<Longrightarrow> db_key (ex_WorkflowID ex) \<noteq> k"
  shows "untouched k w'"
proof (cases res)
  case (Inl e)
  then have "w' = w" using r by (auto simp: RunExecution_spec split: sum.splits)
  then show ?thesis using u by simp
next
  case (Inr resp)
  show ?thesis
  proof (rule RunExecution_done [OF ok r [unfolded Inr]])
    fix wk ex
    assume h: "lookup (executions (db w)) (sint (rq_ExecutionId req)) = Some ex" "live_ex ex"
      "db_key (ex_ID ex) = sint (rq_ExecutionId req)" "w' = run_final lib jsonb rdb ro wk ex w"
    have t: "table_ok ex_ID (executions (db w))" using ok by (simp add: db_ok_def)
    note e = run_final_executions [OF h(1-3), of lib jsonb rdb ro wk, folded h(4)]
    have "lookup (executions (db w)) (db_key (ex_ID ex)) \<noteq> None" using h(1,3) by simp
    note l = run_final_logs_from [OF ok this, of lib jsonb rdb ro wk, folded h(4)]
    show ?thesis
      unfolding untouched_def
    proof (intro allI impI)
      fix j ex' assume a: "lookup (executions (db w')) j = Some ex' \<and> db_key (ex_WorkflowID ex') = k"
      have j: "j \<noteq> sint (rq_ExecutionId req)" using a e [of j] x [OF h(1)] by (auto simp: final_row_def split: if_splits)
      then have o: "lookup (executions (db w)) j = Some ex'" using a e [of j] by simp
      then have "ex_ID ex' \<noteq> ex_ID ex" using rs.look_inj [OF t o h(1)] j by blast
      then show "ex_Status ex' = ''pending'' \<and> ex_FinishedAt ex' = None \<and>
          (\<forall>i l. lookup (step_logs (db w')) i = Some l \<longrightarrow> sl_ExecutionID l \<noteq> ex_ID ex')"
        using u o a l unfolding untouched_def by metis
    qed
  qed
qed

lemma untouched_delivery:
  assumes ok: "sys_ok w" and u: "untouched k w" and o: "owned_by k owner w" and s: "scan_uid owner \<noteq> None"
    and p: "p \<in> set (mq w)" "dl_Body d = pub_body p" and h: "handle (engine lib jsonb scan_uid ro) fault d w = (v, req, w')"
  shows "untouched k w' \<and> workflows (db w') = workflows (db w)"
proof -
  have ok': "db_ok (db w)" using ok by (simp add: sys_ok_def gateway_ok_def)
  obtain msg ex where m: "unmarshal_message (dl_Body d) = Some msg"
    "lookup (executions (db w)) (sint (em_ExecutionID msg)) = Some ex" "ex_WorkflowID ex = em_WorkflowID msg"
    using ok p by (auto simp: sys_ok_def message_ok_def)
  have "w' = w \<or> (\<exists>res. RunExecution lib jsonb scan_uid True ro (request_of msg) w = (res, w'))"
    using h m(1) by (cases rule: handle_cases [where d = d and fault = fault and w = w and rpc = "engine lib jsonb scan_uid ro"])
      (auto simp: engine_def)
  moreover have "untouched k w' \<and> workflows (db w') = workflows (db w)"
    if r: "RunExecution lib jsonb scan_uid True ro (request_of msg) w = (res, w')" for res
  proof (cases "db_key (em_WorkflowID msg) = k")
    case False
    have "untouched k w'" using False m by (intro untouched_run [OF ok' r u]) (simp add: request_of_def)
    moreover have "workflows (db w') = workflows (db w)" using RunExecution_frame [of lib jsonb scan_uid True ro "request_of msg" w] r by simp
    ultimately show ?thesis by blast
  next
    case True
    obtain wk where wk: "lookup (workflows (db w)) k = Some wk" "wf_UserID wk = owner" using o by (auto simp: owned_by_def)
    have t: "table_ok wf_ID (workflows (db w))" using ok' by (simp add: db_ok_def)
    have "wf_ID wk = em_WorkflowID msg" using lookup_key_eq [OF t wk(1)] True unfolding db_key_def by (auto intro: word_uint_eqI)
    then have "sint (em_WorkflowID msg) = k" using row_sint [OF t wk(1)] by simp
    then have "\<exists>e. load_workflow scan_uid ro (rq_WorkflowId (request_of msg)) w = Inl e"
      using wk s by (auto simp: load_workflow_def request_of_def db_first_def split: option.split)
    then have "w' = w" using r by (auto simp: RunExecution_spec)
    then show ?thesis using u by simp
  qed
  ultimately show ?thesis using u by blast
qed

lemma service_step_untouched:
  assumes "service_step S w w'" and "sys_ok w" and "untouched k w" and "owned_by k owner w" and "sv_scan S owner \<noteq> None"
  shows "sys_ok w' \<and> untouched k w' \<and> owned_by k owner w'"
proof -
  have ok: "db_ok (db w)" "table_ok wf_ID (workflows (db w))" using assms(2) by (simp_all add: sys_ok_def gateway_ok_def db_ok_def)
  have "untouched k w' \<and> owned_by k owner w'"
    using assms(1)
  proof (cases rule: service_step.cases)
    case (request env p meth pattern authorization ctx)
    then show ?thesis
      using serve_snd [of "sv_encode S" "sv_jwt S" "sv_keys S" env p meth pattern authorization ctx w] assms(3,4)
        handler_untouched [OF ok(1) assms(3)] handler_owned [OF ok(2) assms(4)] by metis
  next
    case (expiry key)
    then show ?thesis using assms(3,4) by (simp add: cache_expire_def untouched_def owned_by_def)
  next
    case (check so t)
    show ?thesis
    proof (cases "db_find (sc_find so) (sc_order so) scheduled (workflows (db w))")
      case (Inl e)
      then show ?thesis using check assms(3,4) by (simp add: checkAndTrigger_def)
    next
      case (Inr wks)
      have "\<forall>wk \<in> set (filter (due (sv_cron S) (sv_next S) t) wks). lookup (workflows (db w)) (db_key (wf_ID wk)) \<noteq> None"
        using found_rows [OF ok(1) Inr check(2)] by simp
      from untouched_trigger_all [OF assms(2,3) this] show ?thesis
        using check(1) Inr assms(4) by (simp add: checkAndTrigger_def check_loop_due owned_by_def trigger_all_workflows)
    qed
  next
    case (delivery p d ro fault v req)
    then show ?thesis
      using untouched_delivery [where scan_uid = "sv_scan S" and owner = owner, OF assms(2-5) delivery(1-3)] assms(4)
      by (auto simp: owned_by_def)
  qed
  then show ?thesis using sys_step_ok [OF service_step_sys [OF assms(1)] assms(2)] by blast
qed


subsection \<open>Samples\<close>

text \<open>A workflow of the user \<open>u-7\<close>, before its first webhook and after it.\<close>

definition unread_world :: world where
  "unread_world = engine_world\<lparr>db := \<lparr>workflows = \<lparr>rows = [(1, engine_workflow\<lparr>wf_UserID := ''u-7''\<rparr>)], next_key = 2\<rparr>,
     executions = empty_table, step_logs = empty_table\<rparr>\<rparr>"

definition unread_services :: "(unit, unit) services" where
  "unread_services = sample_services\<lparr>sv_scan := owner_scan (\<lambda>u e. ''converting driver.Value type string'')\<rparr>"

definition triggered_world :: world where
  "triggered_world = snd (TriggerWorkflow Inr [] 5 no_faults webhook_req unread_world)"

lemma triggered_row: "lookup (executions (db triggered_world)) 1 =
  Some \<lparr>ex_ID = 1, ex_DeletedAt = None, ex_WorkflowID = 1, ex_Status = ''pending'', ex_StartedAt = 5, ex_FinishedAt = None,
    ex_TriggerPayload = ''{}''\<rparr>"
  by code_simp

lemma unread_sys_ok: "sys_ok unread_world"
proof -
  have "db_ok (db unread_world)"
    by (auto simp: db_ok_def unread_world_def engine_workflow_def table_ok_def refs_ok_def empty_table_def key_limit_def)
  moreover have "cache_ok unread_world" by (simp add: cache_ok_def coherent_def cache_look_def unread_world_def engine_world_def)
  moreover have "rows_ok unread_world" by (simp add: rows_ok_def unread_world_def empty_table_def lookup_def)
  ultimately show ?thesis by (simp add: sys_ok_def gateway_ok_def unread_world_def engine_world_def)
qed

lemma triggered_reachable: "rtranclp (service_step unread_services) unread_world triggered_world"
proof -
  have s: "snd (serve (sv_encode unread_services) (sv_jwt unread_services) (sv_keys unread_services) sample_env_gw sample_parsed
      ''POST'' ''/webhooks/:workflowId'' [] [] unread_world) = triggered_world"
    unfolding serve_public [OF route_facts(4)]
    by (simp add: respond_def TriggerWorkflowHandler_def sample_parsed_def sample_env_gw_def triggered_world_def webhook_req_def case_prod_beta)
  have "payload_utf8 sample_parsed" by (simp add: payload_utf8_def sample_parsed_def)
  from service_step.request [OF sample_no_faults(2) this, of unread_services unread_world "''POST''" "''/webhooks/:workflowId''" "[]" "[]"]
  show ?thesis unfolding s by (rule r_into_rtranclp)
qed


end
