(* ===== verification/SchedulerRuns.thy ===== *)
theory SchedulerRuns
  imports SchedulerProps
begin

section \<open>The scheduler at work: a run of its loop\<close>

text \<open>
  \<open>Scheduler.Run\<close> of \<open>scheduler-service/cron/scheduler.go\<close> from the check at the start over the ticks to the end
  of the context: how often a workflow is triggered in the whole run. What decides is the time at which each
  check reads the clock: the code keeps no record of what it has triggered.
\<close>

text \<open>The checks of a run, each with what it meets and the time it reads.\<close>

fun tick_checks :: "sched_event list \<Rightarrow> (sched_oracle \<times> time) list" where
  "tick_checks [] = []"
| "tick_checks (Stop # evs) = []"
| "tick_checks (Tick so t # evs) = (so, t) # tick_checks evs"

definition run_checks :: "sched_oracle \<Rightarrow> time \<Rightarrow> sched_event list \<Rightarrow> (sched_oracle \<times> time) list" where
  "run_checks so t evs = (so, t) # tick_checks evs"

lemma RunScheduler_fold:
  "RunScheduler parse_cron nxt jsonb so t evs w =
     fold (\<lambda>(so, t) w. checkAndTrigger parse_cron nxt jsonb so t w) (run_checks so t evs) w"
proof -
  have "run_ticks parse_cron nxt jsonb evs w = fold (\<lambda>(so, t) w. checkAndTrigger parse_cron nxt jsonb so t w) (tick_checks evs) w" for w
    by (induction evs arbitrary: w rule: tick_checks.induct) simp_all
  then show ?thesis by (simp add: RunScheduler_def run_checks_def)
qed

subsection \<open>One check\<close>

text \<open>The rows a check adds, with the part of them that is for one workflow.\<close>

lemma trigger_all_workflows_kept: "workflows (db (trigger_all jsonb so n wks w)) = workflows (db w)"
  by (induction wks arbitrary: n w) simp_all

lemma check_workflows: "workflows (db (checkAndTrigger parse_cron nxt jsonb so t w)) = workflows (db w)"
  by (simp add: checkAndTrigger_def check_loop_due trigger_all_workflows_kept split: sum.split)

lemma trigger_all_key:
  assumes "no_sched_faults so" and "jsonb schedule_payload = Inr stored"
    and "next_key (executions (db w)) + int (length wks) \<le> key_limit"
  shows "next_key (executions (db (trigger_all jsonb so n wks w))) = next_key (executions (db w)) + int (length wks)"
  using assms(3)
proof (induction wks arbitrary: n w)
  case (Cons wk wks)
  let ?w = "trigger jsonb (sc_create so n) (sc_publish so n) (sc_now so n) wk w"
  have "next_key (executions (db ?w)) = next_key (executions (db w)) + 1"
    using assms(1,2) Cons.prems by (simp add: trigger_eq no_sched_faults_def db_create_def insert_row_def)
  then show ?case using Cons.IH [of ?w "Suc n"] Cons.prems by simp
qed simp

text \<open>The workflow is among the rows once.\<close>

lemma count_workflow:
  assumes t: "table_ok wf_ID (workflows d)" and l: "lookup (workflows d) k = Some wk"
  shows "count (image_mset wf_ID (mset (filter P (map snd (rows (workflows d)))))) (wf_ID wk) = (if P wk then 1 else 0)"
proof -
  have d: "distinct (map fst (rows (workflows d)))" using t by (simp add: table_ok_def)
  have in_rows: "(k, wk) \<in> set (rows (workflows d))" using lookup_row [OF t] l by blast
  have key: "j = k \<and> r = wk" if "(j, r) \<in> set (rows (workflows d))" "wf_ID r = wf_ID wk" for j r
  proof -
    have "lookup (workflows d) j = Some r" using lookup_row [OF t] that(1) by blast
    from rs.look_inj [OF t this l that(2)] show ?thesis using \<open>lookup (workflows d) j = Some r\<close> l by simp
  qed
  obtain us vs where s: "rows (workflows d) = us @ (k, wk) # vs" using split_list [OF in_rows] by blast
  have none: "wf_ID r \<noteq> wf_ID wk" if "(j, r) \<in> set us \<union> set vs" for j r
  proof
    assume "wf_ID r = wf_ID wk"
    then have "j = k" using key [of j r] that s by auto
    then have "k \<in> fst ` set us \<union> fst ` set vs" using that by force
    then show False using d s by auto
  qed
  have zero: "count (image_mset wf_ID (mset (filter P (map snd xs)))) (wf_ID wk) = 0" if "set xs \<subseteq> set us \<union> set vs" for xs
  proof -
    have "wf_ID wk \<notin> wf_ID ` snd ` set xs" using none that by force
    then have "wf_ID wk \<notin># image_mset wf_ID (mset (filter P (map snd xs)))" by auto
    then show ?thesis by (rule not_in_iff [THEN iffD1])
  qed
  show ?thesis using zero [of us] zero [of vs] by (simp add: s)
qed

lemma count_map_mset: "count (mset (map f xs)) a = length (filter (\<lambda>x. f x = a) xs)"
  by (induction xs) auto

text \<open>A check: rows are added at the end, and for a workflow one exactly when it is due.\<close>

lemma check_adds:
  assumes so: "no_sched_faults so" and j: "jsonb schedule_payload = Inr stored"
    and room: "next_key (executions (db w)) + int (length (rows (workflows (db w)))) \<le> key_limit"
    and t: "table_ok wf_ID (workflows (db w))" and l: "lookup (workflows (db w)) k = Some wk" and s: "scheduled wk"
  shows "\<exists>new. rows (executions (db (checkAndTrigger parse_cron nxt jsonb so tm w))) = rows (executions (db w)) @ new \<and>
    length (filter (\<lambda>r. ex_WorkflowID (snd r) = wf_ID wk) new) = (if due parse_cron nxt tm wk then 1 else 0) \<and>
    next_key (executions (db (checkAndTrigger parse_cron nxt jsonb so tm w))) \<le>
      next_key (executions (db w)) + int (length (rows (workflows (db w))))"
proof -
  define all where "all = sc_order so (filter scheduled (map snd (rows (workflows (db w)))))"
  define ds where "ds = filter (due parse_cron nxt tm) all"
  have e: "checkAndTrigger parse_cron nxt jsonb so tm w = trigger_all jsonb so 0 ds w"
    using so by (simp add: checkAndTrigger_def db_find_def no_sched_faults_def check_loop_due ds_def all_def)
  have ma: "mset all = mset (filter scheduled (map snd (rows (workflows (db w)))))"
    using so by (simp add: all_def no_sched_faults_def)
  have "length ds \<le> length all" by (simp add: ds_def)
  also have "length all \<le> length (rows (workflows (db w)))"
    using mset_eq_length [OF ma] length_filter_le [of scheduled "map snd (rows (workflows (db w)))"] by simp
  finally have len: "length ds \<le> length (rows (workflows (db w)))" .
  then have k: "next_key (executions (db w)) + int (length ds) \<le> key_limit" using room by simp
  obtain new where n: "rows (executions (db (trigger_all jsonb so 0 ds w))) = rows (executions (db w)) @ new"
    "map (ex_WorkflowID \<circ> snd) new = map wf_ID ds"
    using trigger_all_rows [where n = 0 and wks = ds and w = w and jsonb = jsonb and so = so and stored = stored, OF so j k] by blast
  have "length (filter (\<lambda>r. ex_WorkflowID (snd r) = wf_ID wk) new) = count (mset (map (ex_WorkflowID \<circ> snd) new)) (wf_ID wk)"
    by (simp only: count_map_mset comp_def)
  also have "mset (map (ex_WorkflowID \<circ> snd) new) = image_mset wf_ID
      (mset (filter (\<lambda>wk. scheduled wk \<and> due parse_cron nxt tm wk) (map snd (rows (workflows (db w))))))"
    unfolding n(2) ds_def by (simp add: ma filter_filter_mset conj_commute)
  also have "count \<dots> (wf_ID wk) = (if due parse_cron nxt tm wk then 1 else 0)"
    unfolding count_workflow [OF t l] using s by simp
  finally show ?thesis using n(1) trigger_all_key [where jsonb = jsonb and so = so and stored = stored, OF so j k] len unfolding e by (intro exI [of _ new]) simp
qed

lemma checks_add:
  assumes "list_all (\<lambda>(so, t). no_sched_faults so) cs" and j: "jsonb schedule_payload = Inr stored"
    and "next_key (executions (db w)) + int (length cs) * int (length (rows (workflows (db w)))) \<le> key_limit"
    and "table_ok wf_ID (workflows (db w))" and "lookup (workflows (db w)) k = Some wk" and "scheduled wk"
  shows "\<exists>new. rows (executions (db (fold (\<lambda>(so, t) w. checkAndTrigger parse_cron nxt jsonb so t w) cs w))) =
      rows (executions (db w)) @ new \<and>
    length (filter (\<lambda>r. ex_WorkflowID (snd r) = wf_ID wk) new) = length (filter (\<lambda>(so, t). due parse_cron nxt t wk) cs)"
  using assms(1,3-6)
proof (induction cs arbitrary: w)
  case (Cons c cs)
  obtain so t where c: "c = (so, t)" by (cases c)
  let ?n = "int (length (rows (workflows (db w))))" and ?w = "checkAndTrigger parse_cron nxt jsonb so t w"
  have r: "next_key (executions (db w)) + ?n + int (length cs) * ?n \<le> key_limit"
    using Cons.prems(2) by (simp add: algebra_simps)
  then have "next_key (executions (db w)) + ?n \<le> key_limit"
    using mult_nonneg_nonneg [of "int (length cs)" ?n] by linarith
  moreover have "no_sched_faults so" using Cons.prems(1) c by simp
  ultimately obtain new where n: "rows (executions (db ?w)) = rows (executions (db w)) @ new"
    "length (filter (\<lambda>r. ex_WorkflowID (snd r) = wf_ID wk) new) = (if due parse_cron nxt t wk then 1 else 0)"
    "next_key (executions (db ?w)) \<le> next_key (executions (db w)) + ?n"
    using check_adds [where so = so and jsonb = jsonb and parse_cron = parse_cron and nxt = nxt and tm = t and w = w and k = k
        and wk = wk and stored = stored] j Cons.prems(3-5) by blast
  have "next_key (executions (db ?w)) + int (length cs) * int (length (rows (workflows (db ?w)))) \<le> key_limit"
    using r n(3) unfolding check_workflows by linarith
  with Cons.IH [of ?w] Cons.prems c obtain new' where
    "rows (executions (db (fold (\<lambda>(so, t) w. checkAndTrigger parse_cron nxt jsonb so t w) cs ?w))) = rows (executions (db ?w)) @ new'"
    "length (filter (\<lambda>r. ex_WorkflowID (snd r) = wf_ID wk) new') = length (filter (\<lambda>(so, t). due parse_cron nxt t wk) cs)"
    unfolding check_workflows by auto
  then show ?case using n(1,2) c by (intro exI [of _ "new @ new'"]) simp
qed simp

subsection \<open>A run\<close>

text \<open>C23: how often a run of the scheduler triggers a workflow. When nothing fails, the executions the run adds for
  a live, active workflow with a cron expression are as many as the checks that read the clock in a minute the
  expression matches. If the checks come exactly a minute apart, that is once for each matching minute from the first
  check to the last; but two checks in one minute, as after a restart, trigger twice, and a minute that no
  check falls into, because a tick came late, is skipped.\<close>

theorem scheduler_run_counts:
  assumes "list_all (\<lambda>(so, t). no_sched_faults so) (run_checks so t evs)" and "jsonb schedule_payload = Inr stored"
    and "next_key (executions (db w)) + int (length (run_checks so t evs)) * int (length (rows (workflows (db w)))) \<le> key_limit"
    and "db_ok (db w)" and "lookup (workflows (db w)) k = Some wk" and "scheduled wk"
    and "schedule_of parse_cron wk = Some s" and "cron_next nxt matches s"
  shows "\<exists>new. rows (executions (db (RunScheduler parse_cron nxt jsonb so t evs w))) = rows (executions (db w)) @ new \<and>
    length (filter (\<lambda>r. ex_WorkflowID (snd r) = wf_ID wk) new) =
      length (filter (\<lambda>u. matches s (truncate_minute u)) (map snd (run_checks so t evs))) \<and>
    (map snd (run_checks so t evs) = map (\<lambda>i. t + int i * minute) [0..<n] \<longrightarrow>
      length (filter (\<lambda>r. ex_WorkflowID (snd r) = wf_ID wk) new) = card {i. i < n \<and> matches s (truncate_minute t + int i * minute)})"
proof -
  let ?cs = "run_checks so t evs"
  have d: "due parse_cron nxt u wk = matches s (truncate_minute u)" for u
    using fires_matches [OF assms(8)] assms(7) by (simp add: due_def)
  obtain new where n: "rows (executions (db (RunScheduler parse_cron nxt jsonb so t evs w))) = rows (executions (db w)) @ new"
    "length (filter (\<lambda>r. ex_WorkflowID (snd r) = wf_ID wk) new) = length (filter (\<lambda>(so, t). due parse_cron nxt t wk) ?cs)"
    using checks_add [where cs = ?cs and jsonb = jsonb and stored = stored and w = w and k = k and wk = wk
        and parse_cron = parse_cron and nxt = nxt] assms(1-6) unfolding RunScheduler_fold db_ok_def by blast
  have l: "length (filter (\<lambda>(so, t). due parse_cron nxt t wk) ?cs) =
      length (filter (\<lambda>u. matches s (truncate_minute u)) (map snd ?cs))"
    by (simp add: filter_map comp_def case_prod_unfold d)
  have g: "length (filter (\<lambda>u. matches s (truncate_minute u)) (map (\<lambda>i. t + int i * minute) [0..<n])) =
      card {i. i < n \<and> matches s (truncate_minute t + int i * minute)}"
  proof -
    have m: "truncate_minute (t + int i * minute) = truncate_minute t + int i * minute" for i
      by (simp add: truncate_minute_def)
    have "length (filter (\<lambda>u. matches s (truncate_minute u)) (map (\<lambda>i. t + int i * minute) [0..<n])) =
        length (filter (\<lambda>i. matches s (truncate_minute t + int i * minute)) [0..<n])"
      by (simp add: filter_map comp_def m)
    also have "\<dots> = card {i. i < n \<and> matches s (truncate_minute t + int i * minute)}"
      by (simp add: length_filter_conv_card) (rule arg_cong [where f = card], auto)
    finally show ?thesis .
  qed
  note c = n(2) [unfolded l]
  show ?thesis
  proof (intro exI [of _ new] conjI impI)
    assume e: "map snd ?cs = map (\<lambda>i. t + int i * minute) [0..<n]"
    show "length (filter (\<lambda>r. ex_WorkflowID (snd r) = wf_ID wk) new) = card {i. i < n \<and> matches s (truncate_minute t + int i * minute)}"
      unfolding c e by (rule g)
  qed (rule n(1), rule c)
qed

subsection \<open>A sample run\<close>

text \<open>
  A workflow that is due every five minutes, checked at the seconds 607, 650 and 660: the first two checks fall into
  the same minute.
\<close>

definition sched_world :: world where
  "sched_world = empty_world\<lparr>db := (db empty_world)\<lparr>workflows := \<lparr>rows = [(1, scheduled_workflow)], next_key = 2\<rparr>\<rparr>\<rparr>"

theorem scheduler_run_counts_witness:
  "\<exists>new. rows (executions (db (RunScheduler (\<lambda>c. Inr ()) sample_next Inr sample_sched (607 * second)
       [Tick sample_sched (650 * second), Tick sample_sched (660 * second), Stop] sched_world))) = new \<and>
     length (filter (\<lambda>r. ex_WorkflowID (snd r) = 1) new) = 2"
proof -
  let ?evs = "[Tick sample_sched (650 * second), Tick sample_sched (660 * second), Stop]"
  have c: "run_checks sample_sched (607 * second) ?evs =
      [(sample_sched, 607 * second), (sample_sched, 650 * second), (sample_sched, 660 * second)]"
    by (simp add: run_checks_def)
  have f: "list_all (\<lambda>(so, t). no_sched_faults so) (run_checks sample_sched (607 * second) ?evs)"
    unfolding c by (simp add: no_sched_faults_def sample_sched_def)
  have k: "next_key (executions (db sched_world)) + int (length (run_checks sample_sched (607 * second) ?evs)) *
      int (length (rows (workflows (db sched_world)))) \<le> key_limit"
    by (simp add: c sched_world_def empty_world_def empty_table_def key_limit_def)
  have ok: "db_ok (db sched_world)"
    by (auto simp: db_ok_def sched_world_def empty_world_def scheduled_workflow_def table_ok_def refs_ok_def empty_table_def key_limit_def)
  have l: "lookup (workflows (db sched_world)) 1 = Some scheduled_workflow" by (simp add: sched_world_def lookup_def)
  have s: "scheduled scheduled_workflow" by (simp add: scheduled_def scheduled_workflow_def live_wf_def)
  have "unmarshal_cron (wf_TriggerConfig scheduled_workflow) = Some ''*/5 * * * *''" by code_simp
  then have p: "schedule_of (\<lambda>c. Inr ()) scheduled_workflow = Some ()" by (simp add: schedule_of_def)
  have t: "truncate_minute (607 * second) = 600 * second" "truncate_minute (650 * second) = 600 * second"
    "truncate_minute (660 * second) = 660 * second"
    by (simp_all add: truncate_minute_def minute_def second_def)
  have m: "length (filter (\<lambda>u. sample_matches () (truncate_minute u)) (map snd (run_checks sample_sched (607 * second) ?evs))) = 2"
    unfolding c by (simp add: t sample_matches_def) (simp add: minute_def second_def)
  have e: "rows (executions (db sched_world)) = []" "wf_ID scheduled_workflow = 1"
    by (simp_all add: sched_world_def empty_world_def empty_table_def scheduled_workflow_def)
  obtain new where "rows (executions (db (RunScheduler (\<lambda>c. Inr ()) sample_next Inr sample_sched (607 * second) ?evs sched_world))) =
      rows (executions (db sched_world)) @ new"
    "length (filter (\<lambda>r. ex_WorkflowID (snd r) = wf_ID scheduled_workflow) new) =
      length (filter (\<lambda>u. sample_matches () (truncate_minute u)) (map snd (run_checks sample_sched (607 * second) ?evs)))"
    using scheduler_run_counts [where jsonb = Inr and nxt = sample_next and matches = sample_matches and parse_cron = "\<lambda>c. Inr ()"
        and stored = schedule_payload and n = 0, OF f refl k ok l s p sample_cron] by blast
  then show ?thesis using m e by simp
qed

end
