(* ===== verification/Startup.thy ===== *)
theory Startup
  imports Worker Scheduler Gateway
begin

section \<open>Starting the services: the three main programs\<close>

text \<open>
  \<open>api-gateway/gateway.go\<close> with \<open>internal/svc/servicecontext.go\<close> and the two
  \<open>config.go\<close>, \<open>execution-engine/main.go\<close> and \<open>scheduler-service/main.go\<close>: what each program
  does between its start and its end, in order.

  A program is the list of what it does. \<open>log.Fatalf\<close> ends the process at once, and what was
  deferred does not run: \<open>Fatal\<close> is the last entry of its list. A program that comes back
  from serving runs its deferred calls, the last one first. What the files, the environment
  and the other services answer are the fields of the \<open>_boot\<close> records: the text of the
  configuration and its parsing, the errors of the calls, the environment variables.
\<close>

subsection \<open>Configurations\<close>

record engine_config =
  ec_Port :: int64
  ec_DSN :: string
  ec_RedisAddr :: string
  ec_JaegerEndpoint :: string
  ec_AnthropicAPIKey :: string
  ec_OpenAIAPIKey :: string

record gateway_config =
  gc_Host :: string
  gc_Port :: int64
  gc_DSN :: string
  gc_RedisAddr :: string
  gc_JWKSUrl :: string
  gc_KeycloakURL :: string
  gc_AmqpURL :: string
  gc_WorkerCount :: int64
  gc_EngineAddr :: string

record scheduler_config =
  sg_DSN :: string
  sg_RabbitMQURL :: string

record RunnerFactory =
  rf_AnthropicAPIKey :: string
  rf_OpenAIAPIKey :: string
  rf_Rdb :: string

datatype boot =
    Tracer string
  | Database string
  | Migrated
  | Redis string
  | Topology "amqp_decl list"
  | EngineClient string
  | Listening string
  | EngineService RunnerFactory
  | Middleware bool
  | Routes "route list" "route list"
  | Consumers "nat list" bool
  | Checking
  | Serving
  | Log string
  | Stopped string
  | Fatal error

subsection \<open>execution-engine/main.go\<close>

record engine_boot =
  eb_file :: "error + string"
  eb_yaml :: "string \<Rightarrow> error + engine_config"
  eb_exporter :: "string \<Rightarrow> error option"
  eb_db :: "string \<Rightarrow> error option"
  eb_listen :: "string \<Rightarrow> error option"
  eb_getenv :: "string \<Rightarrow> string"
  eb_serve :: "error option"

text \<open>The tracer, the entries it adds and the shutdown it leaves to be deferred.\<close>

definition initTracer :: "(string \<Rightarrow> error option) \<Rightarrow> string \<Rightarrow> boot list \<times> boot list \<times> error option" where
  "initTracer exporter endpoint =
     (if endpoint = [] then ([], [], None)
      else case exporter endpoint of
        Some e \<Rightarrow> ([], [], Some (''create OTLP exporter: '' @ e))
      | None \<Rightarrow> ([Tracer endpoint], [Stopped ''tracer''], None))"

text \<open>An environment variable that is set, and not empty, overrides the configuration.\<close>

definition override :: "string \<Rightarrow> string \<Rightarrow> string" where
  "override v configured = (if v \<noteq> [] then v else configured)"

definition engine_factory :: "(string \<Rightarrow> string) \<Rightarrow> engine_config \<Rightarrow> RunnerFactory" where
  "engine_factory getenv cfg = \<lparr>rf_AnthropicAPIKey = override (getenv ''ANTHROPIC_API_KEY'') (ec_AnthropicAPIKey cfg),
     rf_OpenAIAPIKey = override (getenv ''OPENAI_API_KEY'') (ec_OpenAIAPIKey cfg), rf_Rdb = ec_RedisAddr cfg\<rparr>"

definition engine_main :: "engine_boot \<Rightarrow> boot list" where
  "engine_main b = (case eb_file b of
      Inl e \<Rightarrow> [Fatal (''read config: '' @ e)]
    | Inr data \<Rightarrow> (case eb_yaml b data of
        Inl e \<Rightarrow> [Fatal (''parse config: '' @ e)]
      | Inr cfg \<Rightarrow> (case initTracer (eb_exporter b) (ec_JaegerEndpoint cfg) of
          (acts, deferred, Some e) \<Rightarrow> acts @ [Fatal (''init tracer: '' @ e)]
        | (acts, deferred, None) \<Rightarrow> acts @ (case eb_db b (ec_DSN cfg) of
            Some e \<Rightarrow> [Fatal (''connect db: '' @ e)]
          | None \<Rightarrow> Database (ec_DSN cfg) # Redis (ec_RedisAddr cfg) #
              (let addr = '':'' @ show_int (sint (ec_Port cfg)) in case eb_listen b addr of
                 Some e \<Rightarrow> [Fatal (''listen: '' @ e)]
               | None \<Rightarrow> [Listening addr, EngineService (engine_factory (eb_getenv b) cfg),
                   Log (''execution-engine listening on '' @ addr), Serving] @
                   (case eb_serve b of
                      Some e \<Rightarrow> [Fatal (''serve: '' @ e)]
                    | None \<Rightarrow> deferred))))))"

subsection \<open>scheduler-service/main.go\<close>

record scheduler_boot =
  sb_file :: "error + string"
  sb_yaml :: "string \<Rightarrow> error + scheduler_config"
  sb_db :: "string \<Rightarrow> error option"
  sb_dial :: "error option"
  sb_channel :: "error option"
  sb_amqp :: "amqp_decl \<Rightarrow> error option"

definition scheduler_main :: "scheduler_boot \<Rightarrow> boot list" where
  "scheduler_main b = (case sb_file b of
      Inl e \<Rightarrow> [Fatal (''read config: '' @ e)]
    | Inr data \<Rightarrow> (case sb_yaml b data of
        Inl e \<Rightarrow> [Fatal (''parse config: '' @ e)]
      | Inr cfg \<Rightarrow> (case sb_db b (sg_DSN cfg) of
          Some e \<Rightarrow> [Fatal (''connect db: '' @ e)]
        | None \<Rightarrow> Database (sg_DSN cfg) # (case s_New (sb_dial b) (sb_channel b) (sb_amqp b) of
            (Inl e, conn, issued) \<Rightarrow> [Topology issued, Fatal (''init scheduler: '' @ e)]
          | (Inr s, conn, issued) \<Rightarrow> [Topology issued, Checking, Log ''scheduler stopped'', Stopped ''scheduler'']))))"

subsection \<open>api-gateway: servicecontext.go and gateway.go\<close>

text \<open>
  \<open>gb_conf\<close> is what \<open>conf.MustLoad\<close> reads and \<open>gb_server\<close> the error of \<open>rest.MustNewServer\<close>, both of
  which end the process on an error; \<open>gb_jwks\<close> whether the key set could be fetched;
  \<open>gb_worker_dial\<close>, \<open>gb_worker_channel\<close> and \<open>gb_qos\<close> the calls of the worker pool, which opens
  a connection of its own.
\<close>

record gateway_boot =
  gb_conf :: "error + gateway_config"
  gb_server :: "error option"
  gb_db :: "string \<Rightarrow> error option"
  gb_migrate :: "error option"
  gb_dial :: "error option"
  gb_channel :: "error option"
  gb_amqp :: "amqp_decl \<Rightarrow> error option"
  gb_grpc :: "string \<Rightarrow> error option"
  gb_jwks :: "string \<Rightarrow> error option"
  gb_worker_dial :: "error option"
  gb_worker_channel :: "nat \<Rightarrow> error option"
  gb_qos :: "nat \<Rightarrow> error option"

text \<open>What \<open>NewServiceContext\<close> did, and the error it ends the process with.\<close>

definition NewServiceContext :: "gateway_boot \<Rightarrow> gateway_config \<Rightarrow> boot list \<times> error option" where
  "NewServiceContext b c = (case gb_db b (gc_DSN c) of
      Some e \<Rightarrow> ([], Some (''failed to connect to database: '' @ e))
    | None \<Rightarrow> (case gb_migrate b of
        Some e \<Rightarrow> ([Database (gc_DSN c)], Some (''failed to auto migrate: '' @ e))
      | None \<Rightarrow> (case New (gb_dial b) (gb_channel b) (gb_amqp b) of
          (Inl e, p, issued) \<Rightarrow> ([Database (gc_DSN c), Migrated, Redis (gc_RedisAddr c), Topology issued],
             Some (''failed to connect to RabbitMQ: '' @ e))
        | (Inr pub, p, issued) \<Rightarrow> (case gb_grpc b (gc_EngineAddr c) of
            Some e \<Rightarrow> ([Database (gc_DSN c), Migrated, Redis (gc_RedisAddr c), Topology issued],
               Some (''failed to connect to execution-engine: '' @ e))
          | None \<Rightarrow> ([Database (gc_DSN c), Migrated, Redis (gc_RedisAddr c), Topology issued,
               EngineClient (gc_EngineAddr c)], None)))))"

text \<open>
  \<open>range w.count\<close> runs no times for a count below one. A consumer lives as long as the pool's
  connection is open.
\<close>

definition start_workers :: "gateway_boot \<Rightarrow> gateway_config \<Rightarrow> boot list" where
  "start_workers b c = (case Start (gb_worker_dial b) (gb_worker_channel b) (gb_qos b) (nat (sint (gc_WorkerCount c))) of
      (Some e, started, open_conn) \<Rightarrow> [Consumers started open_conn, Log (''WARNING: worker pool failed to start: '' @ e)]
    | (None, started, open_conn) \<Rightarrow> [Consumers started open_conn])"

definition starting :: "gateway_config \<Rightarrow> string" where
  "starting c = ''Starting server at '' @ gc_Host c @ '':'' @ show_int (sint (gc_Port c)) @ ''...''"

definition gateway_main :: "gateway_boot \<Rightarrow> boot list" where
  "gateway_main b = (case gb_conf b of
      Inl e \<Rightarrow> [Fatal e]
    | Inr c \<Rightarrow> (case gb_server b of
        Some e \<Rightarrow> [Fatal e]
      | None \<Rightarrow> (case NewServiceContext b c of
          (acts, Some e) \<Rightarrow> acts @ [Fatal e]
        | (acts, None) \<Rightarrow> acts @ [Middleware (gb_jwks b (gc_JWKSUrl c) = None), Routes public_routes protected_routes] @
            start_workers b c @ [Log (starting c), Serving, Stopped ''workers'', Stopped ''server''])))"

subsection \<open>Properties\<close>

text \<open>What the engine needs to serve.\<close>

definition engine_ready :: "engine_boot \<Rightarrow> engine_config \<Rightarrow> bool" where
  "engine_ready b cfg \<longleftrightarrow> (\<exists>data. eb_file b = Inr data \<and> eb_yaml b data = Inr cfg) \<and>
     (ec_JaegerEndpoint cfg = [] \<or> eb_exporter b (ec_JaegerEndpoint cfg) = None) \<and>
     eb_db b (ec_DSN cfg) = None \<and> eb_listen b ('':'' @ show_int (sint (ec_Port cfg))) = None"

text \<open>C38: the engine serves exactly when its configuration can be read and parsed, the trace exporter
  is absent or can be made, the database answers and the port is free; it then serves with the
  keys of the environment where these are set and of the configuration otherwise. Otherwise it
  ends with one error, and that is the last it does; its deferred shutdown of the tracer runs only when
  serving ended without an error.\<close>

theorem engine_serves:
  "(Serving \<in> set (engine_main b) \<longleftrightarrow> (\<exists>cfg. engine_ready b cfg \<and>
      EngineService \<lparr>rf_AnthropicAPIKey = if eb_getenv b ''ANTHROPIC_API_KEY'' = [] then ec_AnthropicAPIKey cfg
          else eb_getenv b ''ANTHROPIC_API_KEY'',
        rf_OpenAIAPIKey = if eb_getenv b ''OPENAI_API_KEY'' = [] then ec_OpenAIAPIKey cfg else eb_getenv b ''OPENAI_API_KEY'',
        rf_Rdb = ec_RedisAddr cfg\<rparr> \<in> set (engine_main b))) \<and>
   (Serving \<notin> set (engine_main b) \<longleftrightarrow> (\<exists>acts e. engine_main b = acts @ [Fatal e] \<and> Serving \<notin> set acts)) \<and>
   (Stopped ''tracer'' \<in> set (engine_main b) \<longleftrightarrow> (\<exists>cfg. engine_ready b cfg \<and> ec_JaegerEndpoint cfg \<noteq> [] \<and> eb_serve b = None))"
  by (auto simp: engine_main_def engine_ready_def initTracer_def engine_factory_def override_def Let_def
      split: sum.splits option.splits prod.splits if_splits)

lemma start_loop_result:
  "start_loop channel qos i n = (err, started, open_conn) \<Longrightarrow>
     (open_conn \<longleftrightarrow> err = None) \<and> (err = None \<longrightarrow> started = [i..<i + n]) \<and>
     (err = None \<longleftrightarrow> list_all (\<lambda>j. channel j = None \<and> qos j = None) [i..<i + n])"
proof (induction n arbitrary: i err started open_conn)
  case (Suc n)
  have r: "[i..<i + Suc n] = i # [Suc i..<Suc i + n]" by (simp add: upt_conv_Cons)
  show ?case
    using Suc.prems Suc.IH [of "Suc i"] unfolding r by (auto split: option.splits prod.splits simp del: upt_Suc)
qed simp

lemma New_result: "New dial channel amqp = (r, p, issued) \<Longrightarrow>
  (case r of Inl e \<Rightarrow> \<not> (dial = None \<and> channel = None \<and> list_all (\<lambda>d. amqp d = None) topology)
   | Inr pub \<Rightarrow> dial = None \<and> channel = None \<and> list_all (\<lambda>d. amqp d = None) topology \<and> issued = topology)"
  using declareTopology_None [of amqp] declareTopology_ok [of amqp]
  by (auto simp: New_def list_all_iff Let_def split: option.splits prod.splits sum.splits)

definition gateway_ready :: "gateway_boot \<Rightarrow> gateway_config \<Rightarrow> bool" where
  "gateway_ready b c \<longleftrightarrow> gb_conf b = Inr c \<and> gb_server b = None \<and> gb_db b (gc_DSN c) = None \<and> gb_migrate b = None \<and>
     gb_dial b = None \<and> gb_channel b = None \<and> list_all (\<lambda>d. gb_amqp b d = None) topology \<and> gb_grpc b (gc_EngineAddr c) = None"

lemma NewServiceContext_result:
  assumes "gb_conf b = Inr c" and "gb_server b = None"
  shows "(snd (NewServiceContext b c) = None \<longleftrightarrow> gateway_ready b c) \<and> Serving \<notin> set (fst (NewServiceContext b c)) \<and>
    (gateway_ready b c \<longrightarrow> fst (NewServiceContext b c) =
       [Database (gc_DSN c), Migrated, Redis (gc_RedisAddr c), Topology topology, EngineClient (gc_EngineAddr c)])"
proof -
  obtain r p issued where n: "New (gb_dial b) (gb_channel b) (gb_amqp b) = (r, p, issued)" by (metis prod_cases3)
  show ?thesis
    using New_result [OF n] assms n by (auto simp: NewServiceContext_def gateway_ready_def split: option.splits sum.splits)
qed


end
