(* ===== verification/Playground.thy ===== *)
theory Playground
  imports Prelude "HOL-Library.Multiset"
begin

section \<open>The playground: playground/step_runner_demo.go\<close>

text \<open>
  \<open>playground/step_runner_demo.go\<close>, the exercise from which the step runners grew: two
  simulated runners, and three demos of them: a fan-out over goroutines and a buffered channel, a
  call with a deadline, and a sequence of steps in a goroutine whose end is signalled by closing
  a channel.

  Times are milliseconds. \<open>r\<close> is what \<open>rand.Intn(200)\<close> gives a call. A context is the time
  left until its deadline, if it has one; a \<open>select\<close> whose two cases become ready together
  takes the timer if \<open>pick\<close> holds. The demos' output is the list of the lines printed, with the
  Vietnamese banners left out.
\<close>

subsection \<open>Values and runners\<close>

datatype pval = PInt int | PStr string

type_synonym pmap = "(string \<times> pval) list"

record StepError =
  se_StepID :: string
  se_Reason :: string

definition Error :: "StepError \<Rightarrow> string" where
  "Error e = ''step '' @ se_StepID e @ '' failed: '' @ se_Reason e"

datatype demo_runner = HTTPStepRunner string | TransformStepRunner string

record StepResult =
  sr_StepID :: string
  sr_Output :: pmap
  sr_Err :: "StepError option"

text \<open>The verb \<open>%v\<close> of a map: its entries by the order of their keys.\<close>

fun show_pval :: "pval \<Rightarrow> string" where
  "show_pval (PInt i) = show_int i"
| "show_pval (PStr s) = s"

fun string_less :: "string \<Rightarrow> string \<Rightarrow> bool" where
  "string_less _ [] = False"
| "string_less [] (c # cs) = True"
| "string_less (a # as) (b # bs) = ((of_char a :: nat) < of_char b \<or> a = b \<and> string_less as bs)"

fun insert_key :: "string \<times> pval \<Rightarrow> pmap \<Rightarrow> pmap" where
  "insert_key kv [] = [kv]"
| "insert_key kv (x # xs) = (if string_less (fst x) (fst kv) then x # insert_key kv xs else kv # x # xs)"

fun show_entries :: "pmap \<Rightarrow> string" where
  "show_entries [] = []"
| "show_entries [(k, v)] = k @ '':'' @ show_pval v"
| "show_entries ((k, v) # kvs) = k @ '':'' @ show_pval v @ '' '' @ show_entries kvs"

definition show_map :: "pmap \<Rightarrow> string" where
  "show_map m = ''map['' @ show_entries (foldr insert_key m []) @ '']''"

text \<open>A run and the time it took.\<close>

definition deadline_exceeded :: string where
  "deadline_exceeded = ''context deadline exceeded''"

definition demo_http :: "string \<Rightarrow> nat \<Rightarrow> bool \<Rightarrow> nat option \<Rightarrow> (StepError + pmap) \<times> nat" where
  "demo_http url r pick left =
     (let delay = r + 100 in case left of
        None \<Rightarrow> (Inr [(''status'', PInt 200), (''url'', PStr url)], delay)
      | Some t \<Rightarrow> if delay < t \<or> delay = t \<and> pick then (Inr [(''status'', PInt 200), (''url'', PStr url)], delay)
          else (Inl \<lparr>se_StepID = ''http'', se_Reason = ''context cancelled: '' @ deadline_exceeded\<rparr>, t))"

definition demo_transform :: "string \<Rightarrow> nat option \<Rightarrow> pmap \<Rightarrow> (StepError + pmap) \<times> nat" where
  "demo_transform key left input =
     (if left = Some 0 then (Inl \<lparr>se_StepID = ''transform'', se_Reason = deadline_exceeded\<rparr>, 0)
      else (Inr [(key, PStr (''transformed('' @ show_map input @ '')''))], 0))"

fun run_demo :: "demo_runner \<Rightarrow> nat \<Rightarrow> bool \<Rightarrow> nat option \<Rightarrow> pmap \<Rightarrow> (StepError + pmap) \<times> nat" where
  "run_demo (HTTPStepRunner url) r pick left input = demo_http url r pick left"
| "run_demo (TransformStepRunner key) r pick left input = demo_transform key left input"

text \<open>The dash and the arrow of the printed lines, in UTF-8.\<close>

definition dash :: string where "dash = [CHR 0xE2, CHR 0x80, CHR 0x94]"

definition arrow :: string where "arrow = [CHR 0xE2, CHR 0x86, CHR 0x92]"

subsection \<open>Demo 1: fan-out\<close>

definition fan_runners :: "(string \<times> demo_runner) list" where
  "fan_runners =
     [(''step1'', HTTPStepRunner ''https://api.example.com/users''),
      (''step2'', HTTPStepRunner ''https://api.example.com/products''),
      (''step3'', TransformStepRunner ''summary''),
      (''step4'', HTTPStepRunner ''https://api.example.com/orders''),
      (''step5'', TransformStepRunner ''report'')]"

definition step_result_of :: "string \<times> demo_runner \<Rightarrow> nat \<Rightarrow> StepResult" where
  "step_result_of s r = (case fst (run_demo (snd s) r True None [(''from'', PStr (fst s))]) of
      Inl e \<Rightarrow> \<lparr>sr_StepID = fst s, sr_Output = [], sr_Err = Some e\<rparr>
    | Inr out \<Rightarrow> \<lparr>sr_StepID = fst s, sr_Output = out, sr_Err = None\<rparr>)"

definition result_line :: "StepResult \<Rightarrow> string" where
  "result_line r = (case sr_Err r of
      Some e \<Rightarrow> ''  ['' @ sr_StepID r @ ''] ERROR: '' @ Error e
    | None \<Rightarrow> ''  ['' @ sr_StepID r @ ''] OK: '' @ show_map (sr_Output r))"

text \<open>
  The goroutines that have not sent yet, the buffered channel, and the lines the main goroutine
  has printed. The channel holds as many results as there are runners, and the main goroutine
  receives as many.
\<close>

record fan =
  fan_running :: "StepResult list"
  fan_chan :: "StepResult list"
  fan_printed :: "string list"

inductive fan_step :: "nat \<Rightarrow> fan \<Rightarrow> fan \<Rightarrow> bool" for n where
  send: "fan_step n s (s\<lparr>fan_running := xs @ ys, fan_chan := fan_chan s @ [r]\<rparr>)"
    if "fan_running s = xs @ r # ys" "length (fan_chan s) < n"
| receive: "fan_step n s (s\<lparr>fan_chan := rs, fan_printed := fan_printed s @ [result_line r]\<rparr>)"
    if "fan_chan s = r # rs" "length (fan_printed s) < n"

definition fan_start :: "(string \<times> demo_runner) list \<Rightarrow> nat list \<Rightarrow> fan" where
  "fan_start runners rands = \<lparr>fan_running = map2 step_result_of runners rands, fan_chan = [], fan_printed = []\<rparr>"

inductive_cases fan_stepE: "fan_step n s s'"

subsection \<open>Demo 2: a deadline\<close>

definition runWithTimeout :: "nat \<Rightarrow> bool \<Rightarrow> string list" where
  "runWithTimeout r pick =
     (case fst (run_demo (HTTPStepRunner ''https://slow-api.example.com'') r pick (Some 150) []) of
        Inl e \<Rightarrow> [''  StepError caught '' @ dash @ '' StepID: '' @ se_StepID e @ '', Reason: '' @ se_Reason e]
      | Inr out \<Rightarrow> [''  Success: '' @ show_map out])"

subsection \<open>Demo 3: a sequence\<close>

definition seq_steps :: "(string \<times> demo_runner) list" where
  "seq_steps = [(''fetch-users'', HTTPStepRunner ''https://api.example.com/users''),
     (''transform'', TransformStepRunner ''processed''),
     (''notify'', HTTPStepRunner ''https://api.example.com/notify'')]"

text \<open>
  The goroutine's loop, with the time left of the two seconds: the lines printed. It closes
  \<open>done\<close> on every way out, so the main goroutine goes on after the last line.
\<close>

fun seq_loop :: "(string \<times> demo_runner) list \<Rightarrow> (nat \<Rightarrow> nat) \<Rightarrow> (nat \<Rightarrow> bool) \<Rightarrow> nat \<Rightarrow> nat \<Rightarrow> pmap \<Rightarrow> string list" where
  "seq_loop [] rands picks i left input = [''  Workflow completed successfully'']"
| "seq_loop (s # ss) rands picks i left input =
     (case run_demo (snd s) (rands i) (picks i) (Some left) input of
        (Inl e, t) \<Rightarrow> [''  ['' @ fst s @ ''] FAILED: '' @ Error e @ '' '' @ dash @ '' stopping workflow'']
      | (Inr out, t) \<Rightarrow> (''  ['' @ fst s @ ''] OK '' @ arrow @ '' output: '' @ show_map out) #
          seq_loop ss rands picks (Suc i) (left - t) out)"

definition runSequential :: "(nat \<Rightarrow> nat) \<Rightarrow> (nat \<Rightarrow> bool) \<Rightarrow> string list" where
  "runSequential rands picks = seq_loop seq_steps rands picks 0 2000 []"

subsection \<open>What the demos do\<close>

text \<open>The invariant of the fan-out: every result is in one place, and none gets lost.\<close>

definition fan_inv :: "StepResult list \<Rightarrow> fan \<Rightarrow> bool" where
  "fan_inv rs s \<longleftrightarrow> mset (map result_line (fan_running s)) + mset (map result_line (fan_chan s)) + mset (fan_printed s) =
     mset (map result_line rs)"

lemma fan_step_inv: "fan_step n s s' \<Longrightarrow> fan_inv rs s \<Longrightarrow> fan_inv rs s'"
  by (auto simp: fan_inv_def elim!: fan_stepE)

lemma fan_steps_inv: "(fan_step n)\<^sup>*\<^sup>* s s' \<Longrightarrow> fan_inv rs s \<Longrightarrow> fan_inv rs s'"
  by (induction rule: rtranclp_induct) (auto intro: fan_step_inv)

lemma fan_inv_length:
  assumes "fan_inv rs s"
  shows "length (fan_running s) + length (fan_chan s) + length (fan_printed s) = length rs"
  using arg_cong [OF assms [unfolded fan_inv_def], of size] by (simp del: mset_map)

lemma fan_progress:
  assumes "fan_inv rs s"
  shows "(\<nexists>s'. fan_step (length rs) s s') \<longleftrightarrow> fan_running s = [] \<and> fan_chan s = []"
proof -
  note l = fan_inv_length [OF assms]
  have "\<exists>s'. fan_step (length rs) s s'" if "fan_running s = r # ys" for r ys
    using fan_step.send [of s "[]" r ys "length rs"] that l by auto
  moreover have "\<exists>s'. fan_step (length rs) s s'" if "fan_chan s = r # ys" for r ys
    using fan_step.receive [of s r ys "length rs"] that l by auto
  ultimately show ?thesis by (cases "fan_running s"; cases "fan_chan s") (auto elim!: fan_stepE)
qed

lemma fan_measure: "fan_step n s s' \<Longrightarrow> 2 * length (fan_running s') + length (fan_chan s') < 2 * length (fan_running s) + length (fan_chan s)"
  by (auto elim!: fan_stepE)

definition fan_lines :: "nat list \<Rightarrow> string list" where
  "fan_lines rands = map2 (\<lambda>s r. result_line (step_result_of s r)) fan_runners rands"

lemma fan_lines_map: "map result_line (map2 step_result_of fan_runners rands) = fan_lines rands"
  by (simp add: fan_lines_def case_prod_beta)

text \<open>The fan-out loses no result and never blocks. Whatever order the goroutines finish in
  and however sending and receiving interleave, no schedule goes on for ever, and one can
  go no further exactly when the line of every runner has been printed, once each: the channel's
  buffer has room for all results.\<close>

theorem fan_out_complete:
  assumes "(fan_step (length fan_runners))\<^sup>*\<^sup>* (fan_start fan_runners rands) s" and "length rands = length fan_runners"
  shows "((\<nexists>s'. fan_step (length fan_runners) s s') \<longleftrightarrow> mset (fan_printed s) = mset (fan_lines rands)) \<and>
    (\<nexists>sched. \<forall>i. fan_step (length fan_runners) (sched i) (sched (Suc i)))"
proof
  let ?rs = "map2 step_result_of fan_runners rands"
  have len: "length ?rs = length fan_runners" using assms(2) by simp
  note lines = fan_lines_map [of rands]
  have "fan_inv ?rs (fan_start fan_runners rands)" by (simp add: fan_inv_def fan_start_def)
  with assms(1) have i: "fan_inv ?rs s" by (rule fan_steps_inv)
  have "fan_running s = [] \<and> fan_chan s = [] \<longleftrightarrow> mset (fan_printed s) = mset (fan_lines rands)"
  proof
    assume "fan_running s = [] \<and> fan_chan s = []"
    then show "mset (fan_printed s) = mset (fan_lines rands)" using i lines by (simp add: fan_inv_def del: mset_map)
  next
    assume "mset (fan_printed s) = mset (fan_lines rands)"
    then have "length (fan_printed s) = length ?rs" using lines by (metis length_map size_mset)
    then show "fan_running s = [] \<and> fan_chan s = []" using fan_inv_length [OF i] by simp
  qed
  then show "(\<nexists>s'. fan_step (length fan_runners) s s') \<longleftrightarrow> mset (fan_printed s) = mset (fan_lines rands)"
    using fan_progress [OF i] len by simp
  let ?m = "\<lambda>s. 2 * length (fan_running s) + length (fan_chan s)"
  show "\<nexists>sched. \<forall>i. fan_step (length fan_runners) (sched i) (sched (Suc i))"
  proof
    assume "\<exists>sched. \<forall>i. fan_step (length fan_runners) (sched i) (sched (Suc i))"
    then obtain sched where "\<forall>i. fan_step (length fan_runners) (sched i) (sched (Suc i))" by blast
    then have "\<forall>i. (sched (Suc i), sched i) \<in> measure ?m" unfolding in_measure using fan_measure by blast
    moreover have "wf (measure ?m)" by (rule wf_measure)
    ultimately show False unfolding wf_iff_no_infinite_down_chain by blast
  qed
qed

text \<open>One schedule: each goroutine is received from before the next one sends.\<close>

lemma fan_in_order:
  assumes "length ps + length xs \<le> n"
  shows "(fan_step n)\<^sup>*\<^sup>* \<lparr>fan_running = xs, fan_chan = [], fan_printed = ps\<rparr>
    \<lparr>fan_running = [], fan_chan = [], fan_printed = ps @ map result_line xs\<rparr>"
  using assms
proof (induction xs arbitrary: ps)
  case (Cons x xs)
  have "fan_step n \<lparr>fan_running = x # xs, fan_chan = [], fan_printed = ps\<rparr> \<lparr>fan_running = xs, fan_chan = [x], fan_printed = ps\<rparr>"
    using fan_step.send [of "\<lparr>fan_running = x # xs, fan_chan = [], fan_printed = ps\<rparr>" "[]" x xs n] Cons.prems by simp
  moreover have "fan_step n \<lparr>fan_running = xs, fan_chan = [x], fan_printed = ps\<rparr>
      \<lparr>fan_running = xs, fan_chan = [], fan_printed = ps @ [result_line x]\<rparr>"
    using fan_step.receive [of "\<lparr>fan_running = xs, fan_chan = [x], fan_printed = ps\<rparr>" x "[]" n] Cons.prems by simp
  moreover have "(fan_step n)\<^sup>*\<^sup>* \<lparr>fan_running = xs, fan_chan = [], fan_printed = ps @ [result_line x]\<rparr>
      \<lparr>fan_running = [], fan_chan = [], fan_printed = (ps @ [result_line x]) @ map result_line xs\<rparr>"
    using Cons.IH [of "ps @ [result_line x]"] Cons.prems by simp
  ultimately show ?case by (simp add: converse_rtranclp_into_rtranclp)
qed simp

theorem fan_out_complete_witness:
  "\<exists>s. fan_printed s = fan_lines [1, 2, 3, 4, 5] \<and> (\<nexists>s'. fan_step (length fan_runners) s s')"
proof -
  let ?s = "\<lparr>fan_running = [], fan_chan = [], fan_printed = fan_lines [1, 2, 3, 4, 5]\<rparr>"
  have n: "length fan_runners = 5" by (simp add: fan_runners_def)
  have "(fan_step (length fan_runners))\<^sup>*\<^sup>* (fan_start fan_runners [1, 2, 3, 4, 5]) ?s"
    using fan_in_order [of "[]" "map2 step_result_of fan_runners [1, 2, 3, 4, 5]" "length fan_runners"]
    unfolding fan_lines_map fan_start_def append_Nil by (simp add: n)
  from fan_out_complete [OF this] have "\<nexists>s'. fan_step (length fan_runners) ?s s'" using n by simp
  then show ?thesis by (intro exI [of _ ?s]) simp
qed

lemma show_200: "show_int 200 = ''200''"
  by code_simp

text \<open>The sequence always succeeds: the two requests take less than 300 milliseconds each, so
  the deadline of two seconds is never met, and every run ends with the line of success after
  those of its three steps, each with the output of the step before as its input.\<close>

theorem sequence_completes:
  assumes "\<And>i. rands i < 200"
  shows "runSequential rands picks =
    [''  [fetch-users] OK '' @ arrow @ '' output: map[status:200 url:https://api.example.com/users]'',
     ''  [transform] OK '' @ arrow @ '' output: map[processed:transformed(map[status:200 url:https://api.example.com/users])]'',
     ''  [notify] OK '' @ arrow @ '' output: map[status:200 url:https://api.example.com/notify]'',
     ''  Workflow completed successfully'']"
proof -
  have run: "demo_http url (rands i) p (Some t) = (Inr [(''status'', PInt 200), (''url'', PStr url)], rands i + 100)"
    if "300 \<le> t" for url i p t
    using assms [of i] that by (simp add: demo_http_def Let_def)
  have line: "show_map [(''status'', PInt 200), (''url'', PStr url)] = ''map[status:200 url:'' @ url @ '']''" for url
    by (simp add: show_map_def show_200)
  have third: "demo_http url (rands (Suc (Suc 0))) p (Some (1900 - rands 0)) =
      (Inr [(''status'', PInt 200), (''url'', PStr url)], rands (Suc (Suc 0)) + 100)" and left: "\<not> 1900 \<le> rands 0" for url p
    using assms [of 0] by (auto intro: run)
  show ?thesis
    unfolding runSequential_def seq_steps_def seq_loop.simps fst_conv snd_conv run_demo.simps
    by (simp add: run line third left demo_transform_def show_map_def show_200)
qed

text \<open>The call with a deadline of 150 milliseconds succeeds when its delay is below it and
  is reported as a cancelled step when it is above; at the deadline either can happen.\<close>

theorem timeout_decides:
  "(hd (runWithTimeout r pick) = ''  Success: map[status:200 url:https://slow-api.example.com]'' \<longleftrightarrow> r < 50 \<or> r = 50 \<and> pick) \<and>
   (hd (runWithTimeout r pick) = ''  StepError caught '' @ dash @ '' StepID: http, Reason: context cancelled: context deadline exceeded'' \<longleftrightarrow>
      50 < r \<or> r = 50 \<and> \<not> pick)"
proof -
  have line: "show_map [(''status'', PInt 200), (''url'', PStr url)] = ''map[status:200 url:'' @ url @ '']''" for url
    by (simp add: show_map_def show_200)
  show ?thesis
    by (auto simp: runWithTimeout_def demo_http_def Let_def line deadline_exceeded_def)
qed

theorem sequence_completes_witness:
  "length (runSequential (\<lambda>i. 199) (\<lambda>i. False)) = 4 \<and>
   last (runSequential (\<lambda>i. 199) (\<lambda>i. False)) = ''  Workflow completed successfully''"
  by (subst (1 2) sequence_completes) simp_all

end
