(* ===== verification/Spec2Isabelle.thy ===== *)
theory Spec2Isabelle
  imports System GatewayEngine Consumers Readers ModelTypes SchedulerRuns Startup Playground
begin

text \<open>
  A verification of the workflow automation services: a gateway with a REST API, an execution
  engine behind gRPC and a scheduler, all in Go, which share a PostgreSQL database, a Redis
  server and a RabbitMQ broker.

  \<^bold>\<open>The program.\<close> A user keeps workflows, lists of steps in JSON, through the gateway
  (\<open>api-gateway/\<close>). A webhook, or the scheduler (\<open>scheduler-service/\<close>) when a cron expression is
  due, writes a pending execution and publishes a message for it. The gateway's workers take the
  message and call the engine (\<open>execution-engine/\<close>), which runs the steps one after another, writes
  a step log for each, publishes an event for each on a Redis channel and writes the status of the
  execution. A client polls the execution or listens to the channel by server-sent events. A
  failing message goes round a retry queue at most three times.

  \<^bold>\<open>The theories\<close>, in the order they build on one another:

  \<^item> \<open>Prelude\<close>: Go's result convention as \<open>error + 'a\<close>, machine integers, decimal printing and
    substring search, rules shared by all.
  \<^item> \<open>GoFloat\<close>, \<open>GoJson\<close>, \<open>GoJsonProps\<close>, \<open>GoTime\<close>: what the code uses of \<open>strconv\<close>,
    \<open>encoding/json\<close> and \<open>time\<close>. The JSON reader and printer are executable, and reading what was
    printed gives it back.
  \<^item> \<open>Store\<close>: the rows of \<open>api-gateway/model/models.go\<close>, tables with key sequences, the calls of
    gorm, and \<open>world\<close>, the state all services share: tables, cache, published events and
    messages. The locale \<open>row_store\<close> states what the services use of a table.
  \<^item> \<open>Auth\<close>: \<open>internal/auth/claims.go\<close> and \<open>internal/middleware/authmiddleware.go\<close>.
  \<^item> \<open>Workflows\<close>, \<open>WorkflowProps\<close>: \<open>internal/logic/workflowlogic.go\<close> (create, list, get, update,
    delete, with the Redis cache); \<open>Executions\<close>, \<open>ExecutionProps\<close>: \<open>internal/logic/executionlogic.go\<close>
    (trigger, list, get).
  \<^item> \<open>Queue\<close>: \<open>internal/queue/publisher.go\<close>, with the topology of the retry loop.
  \<^item> \<open>Runners\<close>, \<open>RunnerProps\<close>: \<open>execution-engine/internal/runner/\<close>, the six kinds of step.
  \<^item> \<open>Engine\<close>, \<open>EngineProps\<close>: \<open>execution-engine/internal/server/server.go\<close>, both RPCs, and the
    abstract run \<open>spec_run\<close> they implement.
  \<^item> \<open>GatewayEngine\<close>: \<open>api-gateway/internal/engine/\<close>, the copy of the engine in the gateway.
  \<^item> \<open>Worker\<close>, \<open>WorkerProps\<close>: \<open>internal/worker/executionworker.go\<close>.
  \<^item> \<open>Scheduler\<close>, \<open>SchedulerProps\<close>: \<open>scheduler-service/cron/scheduler.go\<close>, its check;
    \<open>SchedulerRuns\<close>: its loop.
  \<^item> \<open>EventStream\<close>: \<open>internal/handler/executionstreamhandler.go\<close>.
  \<^item> \<open>Gateway\<close>, \<open>GatewayProps\<close>: the other handlers, the login and health logic and the routes; \<open>serve\<close>
    is a request to the gateway.
  \<^item> \<open>System\<close>: a step relation over requests, worker deliveries, scheduler checks, streaming calls and
    cache expiries on one \<open>world\<close>.
  \<^item> \<open>Concurrency\<close>: calls of the engine cut into one step per query, statement and publish, any
    number of them interleaved. \<open>Consumers\<close>: the worker's consumers, each cut in the same way, with the calls
    they make. The locale \<open>ending\<close> states when no schedule of such steps goes on for ever.
  \<^item> \<open>Races\<close>, \<open>Readers\<close>: the two handlers of the gateway that other requests can get between, and any
    number of readers of workflows among writers.
  \<^item> \<open>ModelTypes\<close>: the structs that the engine (\<open>internal/model/models.go\<close>) and the scheduler declare for the
    shared tables, the conversion of an owner to \<open>uint\<close>, and which workflows the engine can run at all.
  \<^item> \<open>Startup\<close>: the three main programs, with \<open>internal/svc/servicecontext.go\<close> and the
    configurations.
  \<^item> \<open>Playground\<close>: \<open>playground/step_runner_demo.go\<close>.

  Definitions have the names of the functions and types of the code; \<open>g_\<close> marks those of the
  gateway's engine, \<open>s_\<close> those of the scheduler and \<open>e_\<close> the engine's structs where a name occurs twice. A field of a record
  carries a prefix for its struct. An operation takes the state and returns its result and the new
  state.

  \<^bold>\<open>What comes from outside\<close> is an argument: the error each call of the database, Redis and the
  broker returns in this execution of the code (\<open>faults\<close>, \<open>run_oracle\<close>, \<open>sched_oracle\<close>, \<open>step_env\<close>),
  the clock, the order of rows without an \<open>ORDER BY\<close>, the acceptance of a text as jsonb
  (\<open>jsonb\<close>), \<open>text/template\<close>, the language model services, the JWT library, the cron library and
  go-zero's parsing and encoding. A theorem quantifies over them, so it covers every
  combination of failures. What is assumed of one of them is a hypothesis of the theorem
  that needs it, and its witness gives an instance.

  \<^bold>\<open>What the lemmas show.\<close> Each component has the invariant of its state and that every operation
  keeps it (\<open>db_ok\<close>, \<open>gateway_ok\<close>, \<open>sys_ok\<close>), its behaviour on every branch with the errors, and,
  where it implements something more abstract, that it does:

  \<^item> a run is the abstract run of its steps, in its answer, its logs, its events and its row; the
    logs chain; the streaming RPC does the same work; the gateway's copy agrees where it can;
  \<^item> the cached reader of a workflow agrees with the database as long as requests do not
    interleave, and when they do an answer is still an item the workflow has had and its caller may
    read; access needs the owner or an administrator; deleted workflows stay deleted;
  \<^item> a trigger writes one pending execution and publishes one message, which the worker decodes;
    messages reach the engine with the keys of an existing execution, a message is delivered at most
    four times; the scheduler triggers what is due and nothing else,
    and in a whole run of its loop once for each check whose minute the expression matches;
  \<^item> from the webhook to the execution a client reads, through queue, worker and engine;
  \<^item> concurrent calls of the engine: every schedule ends, no step log is lost or mixed up, and a run
    whose execution is its own is as if alone; the worker's consumers in any interleaving give every delivery
    the verdict it would get alone, and from any reachable state a delivery acknowledged after a call has its execution ended;
  \<^item> the server-sent events of a run; the search for the last event is exact;
  \<^item> the order in which the programs start, and on which failures they stop.

  Some theorems state what is wrong rather than right: an execution runs again when its message is
  redelivered, an update can be lost to a reader that fills the cache, a subscriber can miss the end
  of a run, a workflow whose owner is no number never runs, malformed steps succeed.

  \<^bold>\<open>Bounds.\<close> Primary keys end at \<open>key_limit\<close>, \<open>2 ^ 63\<close>, where the sequence of a
  \<open>bigserial\<close> ends; \<open>db_create\<close> fails there, and a theorem that counts rows says that it is not reached.
  The JSON reader stops at \<open>max_depth\<close>, the nesting limit of \<open>encoding/json\<close>. An owner is a
  number below \<open>2 ^ 64\<close>, read in 64-bit words with the overflow checks of \<open>strconv\<close>. The life of a message
  (\<open>life\<close>) is unfolded with fuel, and four are enough, as its theorem says. All other loops
  are structural recursions over the steps, rows or events they handle; where the code waits
  for events, the list of events that come is an argument, and an exhausted list leaves the loop waiting.

  \<^bold>\<open>Atomicity.\<close> In \<open>System\<close> a request, a delivery and a check are atomic; \<open>Concurrency\<close>, \<open>Consumers\<close> and
  \<open>Races\<close> cut the engine's calls, the worker's deliveries, the cached reader and the event stream into their calls. Every single
  statement is atomic, as PostgreSQL and Redis make it.

  \<^bold>\<open>Not modelled.\<close> Tracing spans and log lines, which no code reads; \<open>CreatedAt\<close> and \<open>UpdatedAt\<close>, which
  gorm writes and nothing reads; the generated gRPC code (\<open>engine.pb.go\<close>, \<open>engine_grpc.pb.go\<close>), of which
  the code uses the two calls and their messages; the constructors of the logic objects, which
  only store their arguments. A table that several services declare is one table here, and \<open>ModelTypes\<close> relates it to
  each service's structs; elsewhere that the engine reads an owner as a number is the argument \<open>scan_uid\<close>.
  A call of the engine always comes back to the worker that made it: failures of the gRPC transport are in the
  argument \<open>rpc\<close> of \<open>handle\<close>, not in \<open>Consumers\<close>.
\<close>

end
